(* ===== verification/Prelude.thy ===== *)
theory Prelude
  imports Complex_Main "HOL-Library.Word" "HOL-Library.Signed_Division" "HOL-Library.Monad_Syntax"
begin

text \<open>
  Shared vocabulary of the development: machine integers, C arithmetic with its undefined
  cases made explicit, intrusive lists updated through a pointer, and the interface of an
  event-driven component.
\<close>

unbundle bit_operations_syntax

section \<open>Machine integers\<close>

type_synonym u32 = "32 word"
type_synonym u64 = "64 word"

text \<open>A C value of type int32\_t or int64\_t is an integer in the range of its type. Signed
  overflow is undefined behaviour in C, so arithmetic that may leave the range is written
  with \<open>i32\<close> and \<open>i64\<close>: the result is \<open>None\<close> exactly when the C expression overflows.\<close>

definition in_i32 :: "int \<Rightarrow> bool" where
  "in_i32 x \<longleftrightarrow> - (2 ^ 31) \<le> x \<and> x < 2 ^ 31"

definition in_i64 :: "int \<Rightarrow> bool" where
  "in_i64 x \<longleftrightarrow> - (2 ^ 63) \<le> x \<and> x < 2 ^ 63"

definition i32 :: "int \<Rightarrow> int option" where
  "i32 x = (if in_i32 x then Some x else None)"

definition i64 :: "int \<Rightarrow> int option" where
  "i64 x = (if in_i64 x then Some x else None)"

definition INT32_MAX :: int where "INT32_MAX = 2147483647"
definition INT32_MIN :: int where "INT32_MIN = - 2147483648"
definition UINT32_MAX :: u32 where "UINT32_MAX = 4294967295"

lemma in_i32_iff: "in_i32 x \<longleftrightarrow> INT32_MIN \<le> x \<and> x \<le> INT32_MAX"
  by (auto simp: in_i32_def INT32_MAX_def INT32_MIN_def)

lemma i32_Some_iff [simp]: "i32 x = Some y \<longleftrightarrow> y = x \<and> in_i32 x"
  by (auto simp: i32_def)

lemma i64_Some_iff [simp]: "i64 x = Some y \<longleftrightarrow> y = x \<and> in_i64 x"
  by (auto simp: i64_def)

lemma i32_in_range: "in_i32 x \<Longrightarrow> i32 x = Some x"
  by simp

lemma i64_in_range: "in_i64 x \<Longrightarrow> i64 x = Some x"
  by simp

lemma sdiv_two: "(x :: int) sdiv 2 = (if 0 \<le> x then x div 2 else - ((- x) div 2))"
  by (simp add: signed_divide_int_def sgn_if)

section \<open>Lists linked through pointers\<close>

text \<open>The code keeps its objects on intrusive lists and changes them through pointers. In the
  model an object carries a unique key; a change through a pointer is \<open>upd_where\<close> on that
  key, unlinking is \<open>filter\<close>, and a search loop with an early return is \<open>find\<close>.\<close>

definition upd_where :: "('a \<Rightarrow> bool) \<Rightarrow> ('a \<Rightarrow> 'a) \<Rightarrow> 'a list \<Rightarrow> 'a list" where
  "upd_where P f xs = map (\<lambda>x. if P x then f x else x) xs"

lemma length_upd_where [simp]: "length (upd_where P f xs) = length xs"
  by (simp add: upd_where_def)

lemma upd_where_Nil [simp]: "upd_where P f [] = []"
  by (simp add: upd_where_def)

lemma upd_where_Cons [simp]:
  "upd_where P f (x # xs) = (if P x then f x else x) # upd_where P f xs"
  by (simp add: upd_where_def)

lemma map_upd_where [simp]:
  assumes "\<And>x. g (f x) = g x"
  shows "map g (upd_where P f xs) = map g xs"
  using assms by (simp add: upd_where_def)

lemma set_upd_where: "set (upd_where P f xs) = (\<lambda>x. if P x then f x else x) ` set xs"
  by (simp add: upd_where_def)

lemma upd_where_ball:
  assumes "\<And>x. x \<in> set xs \<Longrightarrow> Q x" and "\<And>x. x \<in> set xs \<Longrightarrow> P x \<Longrightarrow> Q (f x)"
  shows "\<forall>x \<in> set (upd_where P f xs). Q x"
  using assms by (auto simp: set_upd_where)

lemma find_Some_mem: "find P xs = Some x \<Longrightarrow> x \<in> set xs \<and> P x"
  by (auto simp: find_Some_iff)

lemma find_None_all: "find P xs = None \<longleftrightarrow> (\<forall>x \<in> set xs. \<not> P x)"
  by (auto simp: find_None_iff)

lemma find_filter_neq: "find (\<lambda>x. k x = a) (filter (\<lambda>x. k x \<noteq> a) xs) = None"
  by (simp add: find_None_iff)

lemma find_filter_other:
  "b \<noteq> a \<Longrightarrow> find (\<lambda>x. k x = b) (filter (\<lambda>x. k x \<noteq> a) xs) = find (\<lambda>x. k x = b) xs"
  by (induction xs) auto

lemma fold_invariant_set:
  assumes "I s" and "\<And>x s. x \<in> set xs \<Longrightarrow> I s \<Longrightarrow> I (f x s)"
  shows "I (fold f xs s)"
  using assms by (induction xs arbitrary: s) auto

lemma fold_keeps: "(\<And>x s. g (f x s) = g s) \<Longrightarrow> g (fold f xs s) = g s"
  by (induction xs arbitrary: s) auto

section \<open>Event-driven components\<close>

text \<open>The compositor is single threaded: a component is a state and a handler per event, run
  to completion in the order the event loop delivers them. A component that fixes an
  invariant keeps it along every sequence of events.\<close>

locale event_component =
  fixes step :: "'e \<Rightarrow> 's \<Rightarrow> 's"
    and inv :: "'s \<Rightarrow> bool"
  assumes step_inv: "inv s \<Longrightarrow> inv (step e s)"
begin

lemma run_inv: "inv s \<Longrightarrow> inv (fold step es s)"
  by (induction es arbitrary: s) (auto simp: step_inv)

lemma run_prefix_inv: "inv s \<Longrightarrow> inv (fold step (take n es) s)"
  by (rule run_inv)

end

text \<open>A component in which some condition, once true, is only ended by designated events:
  the shape of every latch in the program (the session lock first of all).\<close>

locale latched_component = event_component step inv
  for step :: "'e \<Rightarrow> 's \<Rightarrow> 's" and inv :: "'s \<Rightarrow> bool" +
  fixes latch :: "'s \<Rightarrow> bool"
    and releases :: "'s \<Rightarrow> 'e \<Rightarrow> bool"
  assumes step_latch: "inv s \<Longrightarrow> latch s \<Longrightarrow> \<not> releases s e \<Longrightarrow> latch (step e s)"
begin

fun no_release :: "'e list \<Rightarrow> 's \<Rightarrow> bool" where
  "no_release [] s \<longleftrightarrow> True"
| "no_release (e # es) s \<longleftrightarrow> \<not> releases s e \<and> no_release es (step e s)"

lemma run_latch: "inv s \<Longrightarrow> latch s \<Longrightarrow> no_release es s \<Longrightarrow> latch (fold step es s)"
  by (induction es arbitrary: s) (auto simp: step_inv step_latch)

lemma latch_ends_by_release:
  assumes "inv s" and "latch s" and "\<not> latch (fold step es s)"
  shows "\<exists>n < length es. releases (fold step (take n es) s) (es ! n)"
  using assms
proof (induction es arbitrary: s)
  case Nil
  then show ?case by simp
next
  case (Cons e es)
  show ?case
  proof (cases "releases s e")
    case True
    then show ?thesis by force
  next
    case False
    with Cons.prems have "inv (step e s)" and "latch (step e s)"
      by (auto simp: step_inv step_latch)
    with Cons.prems(3) obtain n where
      "n < length es" and "releases (fold step (take n es) (step e s)) (es ! n)"
      using Cons.IH by force
    then show ?thesis by (intro exI [of _ "Suc n"]) simp
  qed
qed

end

text \<open>A component that records what it sends: every entry of the trace has an event as its cause.\<close>

locale traced_component = event_component step inv
  for step :: "'e \<Rightarrow> 's \<Rightarrow> 's" and inv :: "'s \<Rightarrow> bool" +
  fixes entries :: "'s \<Rightarrow> 'x list"
    and cause :: "'e \<Rightarrow> 's \<Rightarrow> 'x \<Rightarrow> bool"
  assumes step_cause: "inv s \<Longrightarrow> x \<in> set (entries (step e s)) \<Longrightarrow> x \<in> set (entries s) \<or> cause e s x"
begin

lemma run_cause:
  assumes "inv s" and "x \<in> set (entries (fold step es s))" and "x \<notin> set (entries s)"
  shows "\<exists>n < length es. cause (es ! n) (fold step (take n es) s) x"
  using assms
proof (induction es arbitrary: s)
  case (Cons e es)
  show ?case
  proof (cases "x \<in> set (entries (step e s))")
    case True
    then show ?thesis
      using Cons.prems step_cause by force
  next
    case False
    then obtain n where "n < length es" and "cause (es ! n) (fold step (take n es) (step e s)) x"
      using Cons.IH [of "step e s"] Cons.prems by (auto simp: step_inv)
    then show ?thesis by (intro exI [of _ "Suc n"]) simp
  qed
qed simp

end

end
