(* ===== verification/Logic.thy ===== *)
theory Logic
  imports Prelude
begin

text \<open>
  The pure decision kernels of \<^verbatim>\<open>qdwin/qdwin-logic.c\<close>: input-config enum mappers, layer-shell
  anchors and box layout, decoration insets, XWayland extents, re-homing of windows,
  fractional scales, the visibility matrix of privileged globals, peer pins, the stale
  serial test and the fail-open pins. Strings that may be NULL are options.
\<close>

section \<open>Input-config mappers\<close>

datatype libinput_config_accel_profile =
    LIBINPUT_CONFIG_ACCEL_PROFILE_FLAT
  | LIBINPUT_CONFIG_ACCEL_PROFILE_ADAPTIVE

datatype libinput_config_scroll_method =
    LIBINPUT_CONFIG_SCROLL_NO_SCROLL
  | LIBINPUT_CONFIG_SCROLL_2FG
  | LIBINPUT_CONFIG_SCROLL_EDGE
  | LIBINPUT_CONFIG_SCROLL_ON_BUTTON_DOWN

definition qdwin_accel_profile_to_libinput :: "u32 \<Rightarrow> libinput_config_accel_profile" where
  "qdwin_accel_profile_to_libinput p =
     (if p = 1 then LIBINPUT_CONFIG_ACCEL_PROFILE_FLAT
      else LIBINPUT_CONFIG_ACCEL_PROFILE_ADAPTIVE)"

definition qdwin_scroll_method_to_libinput :: "u32 \<Rightarrow> libinput_config_scroll_method" where
  "qdwin_scroll_method_to_libinput m =
     (if m = 0 then LIBINPUT_CONFIG_SCROLL_NO_SCROLL
      else if m = 2 then LIBINPUT_CONFIG_SCROLL_EDGE
      else if m = 3 then LIBINPUT_CONFIG_SCROLL_ON_BUTTON_DOWN
      else LIBINPUT_CONFIG_SCROLL_2FG)"

section \<open>Layer-shell anchors and boxes\<close>

abbreviation ANCHOR_TOP :: u32 where "ANCHOR_TOP \<equiv> 1"
abbreviation ANCHOR_BOTTOM :: u32 where "ANCHOR_BOTTOM \<equiv> 2"
abbreviation ANCHOR_LEFT :: u32 where "ANCHOR_LEFT \<equiv> 4"
abbreviation ANCHOR_RIGHT :: u32 where "ANCHOR_RIGHT \<equiv> 8"

definition qdwin_layer_exclusive_edge :: "u32 \<Rightarrow> bool \<Rightarrow> u32 \<Rightarrow> u32" where
  "qdwin_layer_exclusive_edge anchor edge_set edge_val =
     (if edge_set then edge_val
      else if anchor = ANCHOR_TOP then ANCHOR_TOP
      else if anchor = ANCHOR_BOTTOM then ANCHOR_BOTTOM
      else if anchor = ANCHOR_LEFT then ANCHOR_LEFT
      else if anchor = ANCHOR_RIGHT then ANCHOR_RIGHT
      else if anchor = ANCHOR_TOP OR ANCHOR_LEFT OR ANCHOR_RIGHT then ANCHOR_TOP
      else if anchor = ANCHOR_BOTTOM OR ANCHOR_LEFT OR ANCHOR_RIGHT then ANCHOR_BOTTOM
      else if anchor = ANCHOR_LEFT OR ANCHOR_TOP OR ANCHOR_BOTTOM then ANCHOR_LEFT
      else if anchor = ANCHOR_RIGHT OR ANCHOR_TOP OR ANCHOR_BOTTOM then ANCHOR_RIGHT
      else 0)"

text \<open>One axis of the box layout: \<open>lo\<close> and \<open>hi\<close> say whether the leading and the
  trailing edge are anchored. The two halves of the C function are the same code on the
  two axes.\<close>

definition layer_axis :: "bool \<Rightarrow> bool \<Rightarrow> int \<Rightarrow> int \<Rightarrow> int \<Rightarrow> int \<Rightarrow> int \<Rightarrow> (int \<times> int) option" where
  "layer_axis lo hi desired m_lead m_trail b_pos b_len =
     (if desired = 0 then do {
        x \<leftarrow> i32 (b_pos + m_lead);
        ms \<leftarrow> i32 (m_lead + m_trail);
        w \<leftarrow> i32 (b_len - ms);
        Some (x, w) }
      else if lo \<and> hi then do {
        c \<leftarrow> i32 (b_pos + b_len sdiv 2);
        x \<leftarrow> i32 (c - desired sdiv 2);
        Some (x, desired) }
      else if lo then do {
        x \<leftarrow> i32 (b_pos + m_lead);
        Some (x, desired) }
      else if hi then do {
        e \<leftarrow> i32 (b_pos + b_len);
        f \<leftarrow> i32 (e - desired);
        x \<leftarrow> i32 (f - m_trail);
        Some (x, desired) }
      else do {
        c \<leftarrow> i32 (b_pos + b_len sdiv 2);
        x \<leftarrow> i32 (c - desired sdiv 2);
        Some (x, desired) })"

record box =
  out_x :: int
  out_y :: int
  out_w :: u32
  out_h :: u32

definition qdwin_layer_compute_box ::
  "u32 \<Rightarrow> int \<Rightarrow> int \<Rightarrow> int \<Rightarrow> int \<Rightarrow> int \<Rightarrow> int \<Rightarrow> int \<Rightarrow> int \<Rightarrow> int \<Rightarrow> int \<Rightarrow> box option" where
  "qdwin_layer_compute_box a desired_w desired_h margin_top margin_right margin_bottom
       margin_left bx by bw bh = do {
     (x, w) \<leftarrow> layer_axis (a AND ANCHOR_LEFT \<noteq> 0) (a AND ANCHOR_RIGHT \<noteq> 0)
                 desired_w margin_left margin_right bx bw;
     (y, h) \<leftarrow> layer_axis (a AND ANCHOR_TOP \<noteq> 0) (a AND ANCHOR_BOTTOM \<noteq> 0)
                 desired_h margin_top margin_bottom by bh;
     let w = (if w < 0 then 0 else w);
     let h = (if h < 0 then 0 else h);
     Some \<lparr>out_x = x, out_y = y, out_w = word_of_int w, out_h = word_of_int h\<rparr> }"

section \<open>Decoration insets and XWayland extents\<close>

definition qdwin_inset_inner_extent :: "int \<Rightarrow> int \<Rightarrow> int \<Rightarrow> int option" where
  "qdwin_inset_inner_extent outer inset_lead inset_trail = do {
     a \<leftarrow> i32 (outer - inset_lead);
     inner \<leftarrow> i32 (a - inset_trail);
     Some (if inner < 1 then 1 else inner) }"

definition qdwin_client_extent_for_geometry :: "int \<Rightarrow> int \<Rightarrow> int \<Rightarrow> int \<Rightarrow> int option" where
  "qdwin_client_extent_for_geometry desired_geometry surface_extent geometry_extent
       learned_delta = do {
     frame_delta \<leftarrow> i64 (surface_extent - geometry_extent);
     let frame_delta = (if frame_delta < 0 then 0 else frame_delta);
     let frame_delta = (if learned_delta > frame_delta then learned_delta else frame_delta);
     configure \<leftarrow> i64 (desired_geometry - frame_delta);
     Some (if configure < 1 then 1 else if configure > INT32_MAX then INT32_MAX
           else configure) }"

definition qdwin_committed_restore_extent :: "bool \<Rightarrow> int \<Rightarrow> int \<Rightarrow> int" where
  "qdwin_committed_restore_extent xwayland surface_extent geometry_extent =
     (if xwayland \<and> surface_extent > 0 then surface_extent
      else if geometry_extent > 0 then geometry_extent
      else if surface_extent > 0 then surface_extent else 0)"

section \<open>Re-homing a window into a work area\<close>

definition qdwin_i64_to_i32 :: "int \<Rightarrow> int" where
  "qdwin_i64_to_i32 value =
     (if value < INT32_MIN then INT32_MIN
      else if value > INT32_MAX then INT32_MAX else value)"

text \<open>One axis of \<open>qdwin_rehome_outer_rect\<close>.\<close>

definition rehome_axis :: "int \<Rightarrow> int \<Rightarrow> int \<Rightarrow> int \<Rightarrow> int option" where
  "rehome_axis outer_pos outer_len work_pos work_len = do {
     let ol = (if outer_len > 0 then outer_len else 1);
     let wl = (if work_len > 0 then work_len else 1);
     let mn = work_pos;
     mx \<leftarrow> (if ol \<le> wl then do { t \<leftarrow> i64 (mn + wl); i64 (t - ol) } else Some mn);
     let p = outer_pos;
     Some (qdwin_i64_to_i32 (if p < mn then mn else if p > mx then mx else p)) }"

definition qdwin_rehome_outer_rect ::
  "int \<Rightarrow> int \<Rightarrow> int \<Rightarrow> int \<Rightarrow> int \<Rightarrow> int \<Rightarrow> int \<Rightarrow> int \<Rightarrow> (int \<times> int) option" where
  "qdwin_rehome_outer_rect outer_x outer_y outer_w outer_h work_x work_y work_w work_h = do {
     x \<leftarrow> rehome_axis outer_x outer_w work_x work_w;
     y \<leftarrow> rehome_axis outer_y outer_h work_y work_h;
     Some (x, y) }"

section \<open>Fractional scale\<close>

definition qdwin_clamp_fractional_scale_120 :: "u32 \<Rightarrow> u32" where
  "qdwin_clamp_fractional_scale_120 raw_120 =
     (if raw_120 < 30 then 30 else if raw_120 > 960 then 960 else raw_120)"

definition qdwin_fractional_scale_env_valid :: "int \<Rightarrow> bool" where
  "qdwin_fractional_scale_env_valid n \<longleftrightarrow> n \<ge> 30 \<and> n \<le> 960"

section \<open>Visibility of privileged globals\<close>

datatype qdwin_cred_class = QDWIN_CRED_SHELL | QDWIN_CRED_ORDINARY | QDWIN_CRED_SECCTX

text \<open>The last constructor stands for an integer outside the enum, which reaches the
  fail-closed return after the switch.\<close>

datatype qdwin_global_kind =
    QDWIN_GLOBAL_ORDINARY
  | QDWIN_GLOBAL_INPUT_METHOD
  | QDWIN_GLOBAL_VIRTUAL_KEYBOARD
  | QDWIN_GLOBAL_WESTON_CAPTURE
  | QDWIN_GLOBAL_SECCTX_MANAGER
  | QDWIN_GLOBAL_IDLE_NOTIFIER
  | QDWIN_GLOBAL_SHELL
  | QDWIN_GLOBAL_LAYER_SHELL
  | QDWIN_GLOBAL_TOUCH_CALIBRATION
  | QDWIN_GLOBAL_LOCKER
  | QDWIN_GLOBAL_NESTED_MANAGER
  | QDWIN_GLOBAL_OUT_OF_RANGE int

fun qdwin_global_visible :: "qdwin_cred_class \<Rightarrow> qdwin_global_kind \<Rightarrow> bool" where
  "qdwin_global_visible cred QDWIN_GLOBAL_ORDINARY = True"
| "qdwin_global_visible cred QDWIN_GLOBAL_INPUT_METHOD = (cred \<noteq> QDWIN_CRED_SECCTX)"
| "qdwin_global_visible cred QDWIN_GLOBAL_VIRTUAL_KEYBOARD = (cred \<noteq> QDWIN_CRED_SECCTX)"
| "qdwin_global_visible cred QDWIN_GLOBAL_WESTON_CAPTURE = (cred = QDWIN_CRED_SHELL)"
| "qdwin_global_visible cred QDWIN_GLOBAL_SECCTX_MANAGER = (cred = QDWIN_CRED_SHELL)"
| "qdwin_global_visible cred QDWIN_GLOBAL_IDLE_NOTIFIER = (cred \<noteq> QDWIN_CRED_SECCTX)"
| "qdwin_global_visible cred QDWIN_GLOBAL_SHELL = (cred \<noteq> QDWIN_CRED_SECCTX)"
| "qdwin_global_visible cred QDWIN_GLOBAL_LAYER_SHELL = (cred \<noteq> QDWIN_CRED_SECCTX)"
| "qdwin_global_visible cred QDWIN_GLOBAL_LOCKER = (cred \<noteq> QDWIN_CRED_SECCTX)"
| "qdwin_global_visible cred QDWIN_GLOBAL_NESTED_MANAGER = (cred \<noteq> QDWIN_CRED_SECCTX)"
| "qdwin_global_visible cred QDWIN_GLOBAL_TOUCH_CALIBRATION = (cred \<noteq> QDWIN_CRED_SECCTX)"
| "qdwin_global_visible cred (QDWIN_GLOBAL_OUT_OF_RANGE n) = False"

section \<open>Peer pins\<close>

definition qdwin_nested_secctx_publisher_allowed :: "string option \<Rightarrow> string option \<Rightarrow> bool" where
  "qdwin_nested_secctx_publisher_allowed sandbox_engine peer_exe \<longleftrightarrow>
     sandbox_engine = Some ''qdistro.tier2'' \<and> peer_exe = Some ''/usr/bin/weston''"

definition qdwin_nested_pixelfeed_peer_allowed :: "string option \<Rightarrow> bool" where
  "qdwin_nested_pixelfeed_peer_allowed peer_exe \<longleftrightarrow>
     peer_exe = Some ''/usr/bin/qdistro-nested-pixelfeed'' \<or>
     peer_exe = Some ''/usr/bin/qdistro-mm-remote-pixelfeed''"

definition qdwin_remote_nested_publisher_allowed :: "string option \<Rightarrow> bool" where
  "qdwin_remote_nested_publisher_allowed peer_exe \<longleftrightarrow>
     peer_exe = Some ''/usr/bin/qdistro-mm-remote-viewer-helper''"

definition qdwin_nested_input_peer_event_current :: "int \<Rightarrow> int \<Rightarrow> bool" where
  "qdwin_nested_input_peer_event_current event_fd current_peer_fd \<longleftrightarrow>
     event_fd \<ge> 0 \<and> current_peer_fd \<ge> 0 \<and> event_fd = current_peer_fd"

definition qdwin_cursor_sprite_peer_allowed :: "string option \<Rightarrow> bool" where
  "qdwin_cursor_sprite_peer_allowed peer_exe \<longleftrightarrow>
     peer_exe = Some ''/usr/bin/qdistro-cursor-sprites''"

section \<open>Selection serials and the deliberate fail-open pins\<close>

definition qdwin_selection_serial_is_stale :: "u32 \<Rightarrow> u32 \<Rightarrow> bool \<Rightarrow> bool" where
  "qdwin_selection_serial_is_stale current incoming has_current \<longleftrightarrow>
     (if \<not> has_current then False else current - incoming < UINT32_MAX div 2)"

text \<open>\<open>uid_t\<close> is unsigned and \<open>(uid_t)-1\<close> its largest value; \<open>pid_t\<close> is signed.\<close>

type_synonym uid_t = u32
type_synonym pid_t = int

definition UID_NONE :: uid_t where "UID_NONE = - 1"

definition qdwin_om_mutation_allowed ::
  "bool \<Rightarrow> bool \<Rightarrow> pid_t \<Rightarrow> uid_t \<Rightarrow> pid_t \<Rightarrow> uid_t \<Rightarrow> uid_t \<Rightarrow> bool" where
  "qdwin_om_mutation_allowed client_is_bound_shell shell_bound client_pid client_uid
       shell_pid shell_uid allowed_uid \<longleftrightarrow>
     (if client_is_bound_shell then True
      else if shell_bound then
        client_pid > 0 \<and> client_pid = shell_pid \<and> client_uid = shell_uid
      else if allowed_uid = UID_NONE then True
      else client_uid = allowed_uid)"

definition qdwin_secctx_root_launcher_attested ::
  "uid_t \<Rightarrow> u64 \<Rightarrow> u64 \<Rightarrow> string option \<Rightarrow> bool" where
  "qdwin_secctx_root_launcher_attested parent_uid parent_start_before parent_start_after
       parent_exe_basename \<longleftrightarrow>
     (let stable_parent = parent_uid = 0 \<and> parent_start_before \<noteq> 0 \<and>
            parent_start_after \<noteq> 0 \<and> parent_start_before = parent_start_after
      in if \<not> stable_parent then False
         else case parent_exe_basename of
           None \<Rightarrow> False
         | Some b \<Rightarrow>
             if b = ''runuser'' \<or> b = ''su'' \<or> b = ''sudo'' \<or> b = ''pkexec'' then True
             else b = '''')"

definition qdwin_layershell_pre_shell_uid_allowed :: "uid_t \<Rightarrow> uid_t \<Rightarrow> bool" where
  "qdwin_layershell_pre_shell_uid_allowed client_uid allowed_uid \<longleftrightarrow> client_uid = allowed_uid"

definition qdwin_idle_inhibit_should_hold :: "bool \<Rightarrow> bool \<Rightarrow> bool \<Rightarrow> bool \<Rightarrow> bool" where
  "qdwin_idle_inhibit_should_hold have_surface surface_mapped has_buffer has_view \<longleftrightarrow>
     have_surface \<and> surface_mapped \<and> has_buffer \<and> has_view"

section \<open>Facts about the kernels\<close>

lemmas logic_axis_defs = layer_axis_def rehome_axis_def in_i32_def in_i64_def

lemma qdwin_i64_to_i32_range: "in_i32 (qdwin_i64_to_i32 v)"
  by (simp add: qdwin_i64_to_i32_def in_i32_def INT32_MAX_def INT32_MIN_def)

lemma qdwin_i64_to_i32_id: "in_i32 v \<Longrightarrow> qdwin_i64_to_i32 v = v"
  by (simp add: qdwin_i64_to_i32_def in_i32_def INT32_MAX_def INT32_MIN_def)

text \<open>Every axis of a re-homed rectangle: total, inside the work area when it fits, anchored
  at the origin when it does not, untouched when it already lies inside.\<close>

lemma rehome_axis_spec:
  assumes "in_i32 p" "in_i32 l" "in_i32 wp" "in_i32 wl"
  obtains x where "rehome_axis p l wp wl = Some x" "in_i32 x" "wp \<le> x"
    "max 1 l \<le> max 1 wl \<Longrightarrow> x + max 1 l \<le> wp + max 1 wl"
    "max 1 wl < max 1 l \<Longrightarrow> x = wp"
    "wp \<le> p \<Longrightarrow> p + max 1 l \<le> wp + max 1 wl \<Longrightarrow> x = p"
proof -
  let ?L = "max 1 l" and ?W = "max 1 wl"
  let ?mx = "if ?L \<le> ?W then wp + ?W - ?L else wp"
  let ?c = "if p < wp then wp else if p > ?mx then ?mx else p"
  have eq: "rehome_axis p l wp wl = Some (qdwin_i64_to_i32 ?c)"
    using assms by (auto simp: rehome_axis_def max_def i64_def in_i64_def in_i32_def Let_def)
  have lo: "wp \<le> ?c" by auto
  show thesis
  proof
    show "rehome_axis p l wp wl = Some (qdwin_i64_to_i32 ?c)" by (rule eq)
    show "in_i32 (qdwin_i64_to_i32 ?c)" by (rule qdwin_i64_to_i32_range)
    show "wp \<le> qdwin_i64_to_i32 ?c"
      using lo assms(3) by (auto simp: qdwin_i64_to_i32_def in_i32_def INT32_MAX_def INT32_MIN_def)
    show "?L \<le> ?W \<Longrightarrow> qdwin_i64_to_i32 ?c + ?L \<le> wp + ?W"
      using assms(3) by (auto simp: qdwin_i64_to_i32_def in_i32_def INT32_MAX_def INT32_MIN_def)
    show "?W < ?L \<Longrightarrow> qdwin_i64_to_i32 ?c = wp"
      using assms(3) by (auto simp: qdwin_i64_to_i32_id)
    show "wp \<le> p \<Longrightarrow> p + ?L \<le> wp + ?W \<Longrightarrow> qdwin_i64_to_i32 ?c = p"
      using assms(1) by (auto simp: qdwin_i64_to_i32_id)
  qed
qed

text \<open>C32: Re-homing a chrome-inclusive rectangle into a work area never overflows for int32
  arguments and returns an int32 position; a window that fits ends up wholly inside the work
  area, and one that does not is anchored at the work-area origin (a non-positive extent counts
  as 1).\<close>

theorem rehome_outer_rect_inside_work_area:
  assumes "in_i32 ox" "in_i32 oy" "in_i32 ow" "in_i32 oh"
    and "in_i32 wx" "in_i32 wy" "in_i32 ww" "in_i32 wh"
  shows "\<exists>x y. qdwin_rehome_outer_rect ox oy ow oh wx wy ww wh = Some (x, y)
    \<and> in_i32 x \<and> in_i32 y
    \<and> (if max 1 ow \<le> max 1 ww then wx \<le> x \<and> x + max 1 ow \<le> wx + max 1 ww else x = wx)
    \<and> (if max 1 oh \<le> max 1 wh then wy \<le> y \<and> y + max 1 oh \<le> wy + max 1 wh else y = wy)"
proof -
  obtain x where x: "rehome_axis ox ow wx ww = Some x" "in_i32 x" "wx \<le> x"
    "max 1 ow \<le> max 1 ww \<Longrightarrow> x + max 1 ow \<le> wx + max 1 ww" "max 1 ww < max 1 ow \<Longrightarrow> x = wx"
    using rehome_axis_spec [OF assms(1) assms(3) assms(5) assms(7)] by blast
  obtain y where y: "rehome_axis oy oh wy wh = Some y" "in_i32 y" "wy \<le> y"
    "max 1 oh \<le> max 1 wh \<Longrightarrow> y + max 1 oh \<le> wy + max 1 wh" "max 1 wh < max 1 oh \<Longrightarrow> y = wy"
    using rehome_axis_spec [OF assms(2) assms(4) assms(6) assms(8)] by blast
  have "qdwin_rehome_outer_rect ox oy ow oh wx wy ww wh = Some (x, y)"
    using x(1) y(1) by (simp add: qdwin_rehome_outer_rect_def)
  moreover have "if max 1 ow \<le> max 1 ww then wx \<le> x \<and> x + max 1 ow \<le> wx + max 1 ww else x = wx"
    using x(3-5) by (metis not_le)
  moreover have "if max 1 oh \<le> max 1 wh then wy \<le> y \<and> y + max 1 oh \<le> wy + max 1 wh else y = wy"
    using y(3-5) by (metis not_le)
  ultimately show ?thesis using x(2) y(2) by blast
qed

theorem rehome_outer_rect_inside_work_area_witness:
  "\<exists>x y. qdwin_rehome_outer_rect 5000 (- 40) 640 480 0 32 1920 1048 = Some (x, y)
     \<and> 0 \<le> x \<and> x + 640 \<le> 1920 \<and> 32 \<le> y \<and> y + 480 \<le> 1080"
  using rehome_outer_rect_inside_work_area [of 5000 "- 40" 640 480 0 32 1920 1048]
  by (fastforce simp: in_i32_def)

text \<open>Re-homing is idempotent: re-homing the result into the same work area changes
  nothing.\<close>

theorem rehome_outer_rect_idempotent:
  assumes "in_i32 ox" "in_i32 oy" "in_i32 ow" "in_i32 oh"
    and "in_i32 wx" "in_i32 wy" "in_i32 ww" "in_i32 wh"
    and "qdwin_rehome_outer_rect ox oy ow oh wx wy ww wh = Some (x, y)"
  shows "qdwin_rehome_outer_rect x y ow oh wx wy ww wh = Some (x, y)"
proof -
  have axis: "rehome_axis q l wp wl = Some q"
    if r32: "in_i32 p" "in_i32 l" "in_i32 wp" "in_i32 wl" and q: "rehome_axis p l wp wl = Some q"
    for p q l wp wl
  proof -
    have in_q: "in_i32 q" "wp \<le> q" "max 1 l \<le> max 1 wl \<Longrightarrow> q + max 1 l \<le> wp + max 1 wl"
      "max 1 wl < max 1 l \<Longrightarrow> q = wp"
      using rehome_axis_spec [OF r32] q by (metis option.inject)+
    obtain r where r: "rehome_axis q l wp wl = Some r" "max 1 wl < max 1 l \<Longrightarrow> r = wp"
      "wp \<le> q \<Longrightarrow> q + max 1 l \<le> wp + max 1 wl \<Longrightarrow> r = q"
      using rehome_axis_spec [OF in_q(1) r32(2-4)] by blast
    have "r = q" using in_q r(2,3) by fastforce
    with r(1) show ?thesis by simp
  qed
  from assms(9) have "rehome_axis ox ow wx ww = Some x" and "rehome_axis oy oh wy wh = Some y"
    by (auto simp: qdwin_rehome_outer_rect_def split: Option.bind_splits)
  then have "rehome_axis x ow wx ww = Some x" and "rehome_axis y oh wy wh = Some y"
    using axis assms(1-8) by blast+
  then show ?thesis by (simp add: qdwin_rehome_outer_rect_def)
qed

theorem rehome_outer_rect_idempotent_witness:
  "qdwin_rehome_outer_rect 5000 (- 40) 640 480 0 32 1920 1048 = Some (1280, 32) \<and>
   qdwin_rehome_outer_rect 1280 32 640 480 0 32 1920 1048 = Some (1280, 32)"
proof -
  have first: "qdwin_rehome_outer_rect 5000 (- 40) 640 480 0 32 1920 1048 = Some (1280, 32)"
    by code_simp
  then show ?thesis
    using rehome_outer_rect_idempotent [of 5000 "- 40" 640 480 0 32 1920 1048 1280 32]
    by (simp add: in_i32_def)
qed

text \<open>One axis of a layer surface that fits with its margins stays inside the bounding box.\<close>

lemma layer_axis_fits:
  assumes "0 \<le> d" "0 \<le> ml" "0 \<le> mr" "d + ml + mr \<le> len" "len \<le> 2 ^ 28" "\<bar>pos\<bar> \<le> 2 ^ 28"
  obtains x w where "layer_axis lo hi d ml mr pos len = Some (x, w)"
    "0 \<le> w" "pos \<le> x" "x + w \<le> pos + len" "w = (if d = 0 then len - ml - mr else d)"
    "d = 0 \<or> (lo \<and> \<not> hi) \<Longrightarrow> x = pos + ml"
    "d \<noteq> 0 \<Longrightarrow> hi \<Longrightarrow> \<not> lo \<Longrightarrow> x + w = pos + len - mr"
proof (cases "d = 0")
  case True
  then have "layer_axis lo hi d ml mr pos len = Some (pos + ml, len - (ml + mr))"
    using assms by (auto simp: layer_axis_def i32_def in_i32_def)
  then show thesis using that True assms by auto
next
  case False
  let ?c = "pos + len div 2 - d div 2"
  have half: "len sdiv 2 = len div 2" "d sdiv 2 = d div 2"
    using assms by (simp_all add: sdiv_two)
  have mid: "pos \<le> ?c" "?c + d \<le> pos + len"
    using assms by linarith+
  consider "lo = hi" | "lo" "\<not> hi" | "hi" "\<not> lo" by blast
  then show thesis
  proof cases
    case 1
    then have "layer_axis lo hi d ml mr pos len = Some (?c, d)"
      using assms False half by (auto simp: layer_axis_def i32_def in_i32_def)
    then show thesis using that mid False assms 1 by auto
  next
    case 2
    then have "layer_axis lo hi d ml mr pos len = Some (pos + ml, d)"
      using assms False by (auto simp: layer_axis_def i32_def in_i32_def)
    then show thesis using that False assms 2 by auto
  next
    case 3
    then have "layer_axis lo hi d ml mr pos len = Some (pos + len - d - mr, d)"
      using assms False by (auto simp: layer_axis_def i32_def in_i32_def)
    then show thesis using that False assms 3 by auto
  qed
qed

lemma uint_of_small: "0 \<le> w \<Longrightarrow> w < 2 ^ 32 \<Longrightarrow> uint (word_of_int w :: u32) = w"
  by (simp add: uint_word_of_int take_bit_int_eq_self)

text \<open>A layer surface whose desired size and margins fit the bounding box is laid out
  without overflow and inside that box, whatever its anchors; an axis with desired size 0 is
  stretched to the box minus the margins and any other axis keeps its desired size.\<close>

theorem layer_box_within_bounds:
  assumes "0 \<le> dw" "0 \<le> ml" "0 \<le> mr" "dw + ml + mr \<le> bw" "bw \<le> 2 ^ 28" "\<bar>bx\<bar> \<le> 2 ^ 28"
    and "0 \<le> dh" "0 \<le> mt" "0 \<le> mb" "dh + mt + mb \<le> bh" "bh \<le> 2 ^ 28" "\<bar>b_y\<bar> \<le> 2 ^ 28"
  shows "\<exists>r. qdwin_layer_compute_box a dw dh mt mr mb ml bx b_y bw bh = Some r
    \<and> bx \<le> out_x r \<and> out_x r + uint (out_w r) \<le> bx + bw
    \<and> b_y \<le> out_y r \<and> out_y r + uint (out_h r) \<le> b_y + bh
    \<and> uint (out_w r) = (if dw = 0 then bw - ml - mr else dw)
    \<and> uint (out_h r) = (if dh = 0 then bh - mt - mb else dh)"
proof -
  obtain x w where x: "layer_axis (a AND ANCHOR_LEFT \<noteq> 0) (a AND ANCHOR_RIGHT \<noteq> 0) dw ml mr bx bw
      = Some (x, w)" "0 \<le> w" "bx \<le> x" "x + w \<le> bx + bw"
      "w = (if dw = 0 then bw - ml - mr else dw)"
    by (rule layer_axis_fits [OF assms(1-6),
        of "a AND ANCHOR_LEFT \<noteq> 0" "a AND ANCHOR_RIGHT \<noteq> 0"])
  obtain y h where y: "layer_axis (a AND ANCHOR_TOP \<noteq> 0) (a AND ANCHOR_BOTTOM \<noteq> 0) dh mt mb b_y bh
      = Some (y, h)" "0 \<le> h" "b_y \<le> y" "y + h \<le> b_y + bh"
      "h = (if dh = 0 then bh - mt - mb else dh)"
    by (rule layer_axis_fits [OF assms(7-12),
        of "a AND ANCHOR_TOP \<noteq> 0" "a AND ANCHOR_BOTTOM \<noteq> 0"])
  have small: "w < 2 ^ 32" "h < 2 ^ 32"
    using assms(1-5,7-11) x(5) y(5) by (auto split: if_splits)
  have "qdwin_layer_compute_box a dw dh mt mr mb ml bx b_y bw bh
      = Some \<lparr>out_x = x, out_y = y, out_w = word_of_int w, out_h = word_of_int h\<rparr>"
    using x(1,2) y(1,2) by (simp add: qdwin_layer_compute_box_def)
  then show ?thesis
    using x(2-5) y(2-5) uint_of_small [OF x(2) small(1)] uint_of_small [OF y(2) small(2)]
    by simp
qed

theorem layer_box_within_bounds_witness:
  "\<exists>r. qdwin_layer_compute_box (ANCHOR_TOP OR ANCHOR_LEFT OR ANCHOR_RIGHT) 0 30 4 8 0 8 0 0 1920 1080
      = Some r \<and> 0 \<le> out_x r \<and> out_x r + uint (out_w r) \<le> 1920 \<and> uint (out_w r) = 1904
      \<and> uint (out_h r) = 30"
  using layer_box_within_bounds [of 0 8 8 1920 0 30 4 0 1080 0 "ANCHOR_TOP OR ANCHOR_LEFT OR ANCHOR_RIGHT"]
  by fastforce

text \<open>The XWayland configure extent is computed without overflow for every int32 input
  and lies between one pixel and INT32\_MAX. A client that answers a configure by adding the
  compensated frame (the larger of the observed and the learned delta) is brought to exactly
  the desired extent, so maximising and restoring does not drift.\<close>

theorem client_extent_compensates_frame:
  assumes "in_i32 d" "in_i32 s" "in_i32 g" "in_i32 l"
  shows "\<exists>c. qdwin_client_extent_for_geometry d s g l = Some c \<and> 1 \<le> c \<and> c \<le> INT32_MAX
    \<and> (max 0 (max (s - g) l) < d \<longrightarrow> c + max 0 (max (s - g) l) = d)"
  using assms
  by (auto simp: qdwin_client_extent_for_geometry_def i64_def in_i64_def in_i32_def INT32_MAX_def
      max_def Let_def split: if_splits)

theorem client_extent_compensates_frame_witness:
  "\<exists>c. qdwin_client_extent_for_geometry 1920 1000 980 12 = Some c \<and> 1 \<le> c \<and> c + 20 = 1920"
  using client_extent_compensates_frame [of 1920 1000 980 12] by (simp add: in_i32_def)

text \<open>The inner extent of a decorated window is the outer extent minus both insets,
  but never below one pixel, however large the insets; and the subtraction is defined for
  every non-negative int32 outer extent and non-negative insets whose sum is an int32.\<close>

theorem inset_inner_extent_positive:
  assumes "0 \<le> outer" "in_i32 outer" "0 \<le> lead" "0 \<le> trail" "in_i32 (lead + trail)"
  shows "qdwin_inset_inner_extent outer lead trail = Some (max 1 (outer - lead - trail))"
  using assms by (auto simp: qdwin_inset_inner_extent_def i32_def in_i32_def max_def)

theorem inset_inner_extent_positive_witness:
  "qdwin_inset_inner_extent 40 32 16 = Some (max 1 (40 - 32 - 16))"
  by (rule inset_inner_extent_positive) (simp_all add: in_i32_def)

lemma uint_minus_u32: "d \<noteq> 0 \<Longrightarrow> uint (- d :: u32) = 2 ^ 32 - uint d"
proof -
  assume d: "d \<noteq> 0"
  have "0 < uint d" using d uint_0_iff [of d] uint_ge_0 [of d] by linarith
  moreover have "uint d < 2 ^ 32" using uint_lt2p [of d] by simp
  ultimately have "(- uint d) mod 2 ^ 32 = 2 ^ 32 - uint d"
    using mod_pos_pos_trivial [of "2 ^ 32 - uint d" "2 ^ 32"] mod_add_self2 [of "- uint d" "2 ^ 32"]
    by (simp add: algebra_simps)
  moreover have "uint (- d) = (- uint d) mod 2 ^ 32"
    using uint_word_ariths(4) [of d] by simp
  ultimately show ?thesis by simp
qed

lemma stale_distance:
  "qdwin_selection_serial_is_stale c (c + d) True \<longleftrightarrow> d = 0 \<or> unat d > 2 ^ 31 + 1"
proof (cases "d = 0")
  case True
  then show ?thesis
    by (simp add: qdwin_selection_serial_is_stale_def UINT32_MAX_def)
next
  case False
  have "qdwin_selection_serial_is_stale c (c + d) True \<longleftrightarrow> uint (- d) < 2147483647"
    by (simp add: qdwin_selection_serial_is_stale_def UINT32_MAX_def word_less_def)
  also have "\<dots> \<longleftrightarrow> 2 ^ 31 + 1 < uint d"
    by (subst uint_minus_u32 [OF False]) auto
  also have "\<dots> \<longleftrightarrow> 2 ^ 31 + 1 < unat d"
  proof -
    have "2 ^ 31 + 1 < unat d \<longleftrightarrow> int (2 ^ 31 + 1) < int (unat d)"
      by (simp only: of_nat_less_iff)
    then show ?thesis by simp
  qed
  finally show ?thesis using False by simp
qed

text \<open>The selection serial test is wrap-safe: with a current selection, an incoming
  serial ahead of it by any distance from 1 up to 2147483649 (modulo 2 to the 32) is accepted,
  the same serial and every serial behind by up to 2147483646 are stale, and the first
  selection is never stale.\<close>

theorem selection_serial_wrap_safe:
  "(qdwin_selection_serial_is_stale c i True \<longleftrightarrow> i = c \<or> unat (i - c) > 2 ^ 31 + 1)
   \<and> \<not> qdwin_selection_serial_is_stale c i False"
  using stale_distance [of c "i - c"] by (auto simp: qdwin_selection_serial_is_stale_def)

end
