(* ===== verification/Wm_State.thy ===== *)
theory Wm_State
  imports Logic
begin

text \<open>
  The state the window-management handlers share: the toplevels, the scene graph of
  libweston (layers, views, surfaces), the seats with their keyboard focus, the bound
  shell and locker, the session lock and the workspaces. Objects the code reaches through
  pointers carry numbers; what a handler sends to a client or asks of libweston-desktop is
  appended to the trace \<open>out\<close>.
\<close>

section \<open>Objects\<close>

type_synonym view = nat
type_synonym surface = nat
type_synonym coord = rat

record wl_client =
  cl_id :: nat
  cl_pid :: pid_t
  cl_uid :: uid_t

record wl_resource =
  res_id :: nat
  res_client :: wl_client
  res_version :: nat

datatype side = QDWIN_SIDE_N | QDWIN_SIDE_E | QDWIN_SIDE_S | QDWIN_SIDE_W

definition all_sides :: "side list" where
  "all_sides = [QDWIN_SIDE_N, QDWIN_SIDE_E, QDWIN_SIDE_S, QDWIN_SIDE_W]"

text \<open>The layers of \<open>struct qdwin\<close>.\<close>

datatype layer =
    Background_layer | Held_layer | Normal_layer | Minimized_layer | Workspace_hidden_layer
  | Panel_layer | Notification_layer | Launcher_layer | Lock_layer | Popup_layer
  | Layer_shell_layer nat

text \<open>The bits of a toplevel's state word.\<close>

abbreviation QDWIN_TS_MAXIMIZED :: u32 where "QDWIN_TS_MAXIMIZED \<equiv> 1"
abbreviation QDWIN_TS_FULLSCREEN :: u32 where "QDWIN_TS_FULLSCREEN \<equiv> 2"
abbreviation QDWIN_TS_MINIMIZED :: u32 where "QDWIN_TS_MINIMIZED \<equiv> 4"

definition has_ts :: "u32 \<Rightarrow> u32 \<Rightarrow> bool" where
  "has_ts w b \<longleftrightarrow> w AND b \<noteq> 0"

text \<open>The XWayland configure feedback a toplevel carries.\<close>

record xwayland_fb =
  xw_frame_w :: int
  xw_frame_h :: int
  xw_target_w :: int
  xw_target_h :: int
  xw_sent_w :: int
  xw_sent_h :: int
  xw_before_w :: int
  xw_before_h :: int
  xw_corrections :: nat
  xw_configure_pending :: bool

text \<open>Pre-maximise, pre-fullscreen and pre-tile geometry.\<close>

record saved_geometry =
  sg_w :: int
  sg_h :: int
  sg_x :: coord
  sg_y :: coord

text \<open>The security-context tag of a client: what the launcher registered for the connection and
  the identity of the process behind it.\<close>

record secctx_tag =
  sc_engine :: string
  sc_app_id :: string
  sc_instance :: string
  sc_peer_pid :: u32
  sc_peer_starttime :: u64
  sc_peer_uid :: u32
  sc_peer_exe :: string
  sc_peer_label :: string

record remote_identity =
  ri_source_machine :: string
  ri_trust_domain :: string
  ri_stream :: string
  ri_generation :: u64

text \<open>A toplevel. The fields from \<open>tl_desktop_surface\<close> to \<open>tl_secctx\<close> are what libweston-desktop,
  XWayland and the security-context registry answer about the client's surface: whether
  there is one, the credentials of its client (\<open>None\<close> for an XWayland window), title, app
  id, the WM\_CLASS of an XWayland window, the committed window geometry and the client's
  tag. For a nested proxy, which has no surface of its own, title, app id and tag are the
  ones it was advertised with.\<close>

record toplevel =
  tl_handle :: u32
  tl_view :: view
  tl_desktop_surface :: bool
  tl_peer :: "(pid_t \<times> uid_t) option"
  tl_title :: "string option"
  tl_app_id :: "string option"
  tl_is_xwayland :: bool
  tl_wm_class :: "string option"
  tl_geometry :: "int \<times> int"
  tl_secctx :: "secctx_tag option"
  tl_mapped :: bool
  tl_decorated :: bool
  tl_last_width :: int
  tl_last_height :: int
  tl_is_nested_proxy :: bool
  tl_pending_decision :: bool
  tl_proxy_curtain :: "view option"
  tl_proxy_pixel_surface :: "surface option"
  tl_proxy_origin_uid :: u32
  tl_proxy_remote :: "remote_identity option"
  tl_inset_n :: int
  tl_inset_e :: int
  tl_inset_s :: int
  tl_inset_w :: int
  tl_outer_width :: int
  tl_outer_height :: int
  tl_xw :: xwayland_fb
  tl_state :: u32
  tl_workspace :: nat
  tl_border_rgba :: "u32 option"
  tl_saved :: saved_geometry
  tl_tiled :: u32
  tl_tile_saved :: saved_geometry
  tl_chrome :: "side \<Rightarrow> (surface \<times> view) option"
  tl_cached_title :: "string option"
  tl_cached_app_id :: "string option"

text \<open>Keyboards, seats and the trackers qdwin keeps for them. A tracker's
  \<open>tr_listener\<close> is the keyboard its focus listener is installed on.\<close>

datatype kbd_grab = Default_grab | Overlay_grab | Switcher_grab

record weston_keyboard =
  kb_id :: nat
  kb_devices :: nat
  kb_focus :: "surface option"
  kb_grab :: kbd_grab

record weston_seat =
  seat_id :: nat
  seat_name :: string
  seat_kbd :: "weston_keyboard option"
  seat_pointer :: "(coord \<times> coord) option"

record seat_tracker =
  tr_seat :: nat
  tr_listener :: "nat option"
  tr_last_focused :: u32
  tr_silo :: "string option"
  tr_recover_idle :: bool

record weston_output =
  o_id :: nat
  o_name :: string
  o_x :: int
  o_y :: int
  o_width :: int
  o_height :: int
  o_destroying :: bool

text \<open>Panels of the shell and the layer surfaces of other clients, as far as the work area
  depends on them.\<close>

record panel =
  p_id :: nat
  p_surface :: "surface option"
  p_view :: "view option"
  p_output :: "nat option"
  p_edge :: u32
  p_thickness :: u32
  p_exclusive :: u32
  p_last :: "(int \<times> int \<times> int \<times> int) option"

record layer_surface =
  ls_id :: nat
  ls_mapped :: bool
  ls_output :: "nat option"
  ls_anchor :: u32
  ls_exclusive_zone :: int
  ls_exclusive_edge :: u32
  ls_margin_top :: int
  ls_margin_right :: int
  ls_margin_bottom :: int
  ls_margin_left :: int

record wm_policy_t =
  focus_policy :: u32
  ffm_delay_ms :: u32
  raise_on_click :: bool
  raise_on_hover :: bool
  placement :: u32
  snap_enabled :: bool
  snap_distance :: u32

text \<open>A manager of the public workspace protocol with the requests it has staged.\<close>

datatype ext_ws_op = Op_activate nat | Op_create | Op_remove nat

record ext_ws_manager =
  wsm_id :: nat
  wsm_group :: "nat option"
  wsm_handles :: "nat option list"
  wsm_pending :: "ext_ws_op list"
  wsm_stopped :: bool

text \<open>A launcher or switcher overlay of the shell.\<close>

record launcher =
  ln_id :: nat
  ln_surface :: "surface option"
  ln_view :: "view option"
  ln_output :: "nat option"
  ln_kind :: u32

text \<open>An export of a window as a stream; \<open>vs_pidfd\<close> says that the death watch on the forwarder is
  armed and \<open>vs_seat\<close> is the stream's own seat.\<close>

record view_stream =
  vs_id :: nat
  vs_tl :: "u32 option"
  vs_handle :: u32
  vs_torn_down :: bool
  vs_pw_output :: "nat option"
  vs_prev_pos :: "coord \<times> coord"
  vs_pinned :: bool
  vs_forward_pid :: pid_t
  vs_pidfd :: bool
  vs_rdp_port :: u32
  vs_token :: string
  vs_claimed :: bool
  vs_allow_input :: bool
  vs_input_handle :: "nat option"
  vs_seat :: "nat option"
  vs_confined :: bool

section \<open>Effects\<close>

datatype proto_error =
    ERROR_NOT_BOUND | ERROR_LOCKED | ERROR_INVALID_HANDLE | ERROR_ALREADY_BOUND
  | ERROR_NOT_AUTHORISED | ERROR_LOCKER_PRESENT | ERROR_INVALID_REASON
  | ERROR_INVALID_TOKEN | ERROR_ALREADY_CLAIMED | ERROR_IMPLEMENTATION

text \<open>Events of \<open>qdwin_shell_v1\<close> and of \<open>qdwin_locker_v1\<close>, with the names of the protocol.\<close>

datatype shell_event =
    toplevel_added u32 uid_t string string bool
  | toplevel_security_context u32 string string string
  | toplevel_peer_identity u32 u32 u32 u32 u32 string string
  | nested_proxy_remote_identity u32 string string string u32 u32
  | toplevel_workspace u32 nat
  | toplevel_removed u32
  | toplevel_state u32 u32
  | toplevel_title u32 string
  | toplevel_app_id u32 string
  | toplevel_geometry u32 int int int int
  | locked_changed bool
  | lock_requested
  | overlay_key u32 u32 string
  | seat_focus_changed string u32
  | seat_created string
  | seat_removed string
  | output_created string
  | output_removed string
  | panel_geometry nat int int int int
  | panel_dismissed nat
  | launcher_requested
  | launcher_dismissed nat
  | switcher_next int
  | switcher_commit
  | shell_hello uid_t

datatype locker_event =
    locker_ready bool
  | locker_locked_changed bool
  | locker_lock_requested
  | locker_overlay_key u32 string

text \<open>Requests to a client's window through libweston-desktop, or to the compositor behind a
  proxy.\<close>

datatype window_call =
    set_fullscreen u32 bool
  | set_maximized u32 bool
  | set_size u32 int int
  | close_window u32
  | proxy_close_requested u32
  | proxy_set_geometry u32 int int

text \<open>What happens on a seat besides the change of its state.\<close>

datatype seat_call =
    activate_signal view nat
  | text_input_update_focus nat
  | data_device_focus nat
  | selection_cancelled nat
  | selection_signal nat
  | primary_cancelled nat
  | send_modifiers nat
  | send_key nat u32

datatype ws_event =
    ws_workspace nat nat
  | ws_name nat string
  | ws_state nat bool
  | ws_removed nat
  | ws_done nat
  | ws_finished nat

text \<open>Events on the stream objects, and the signal to a forwarder.\<close>

datatype stream_event =
    stream_approved nat u32
  | stream_denied nat
  | stream_torn_down nat string
  | stream_inject nat nat
  | forward_sigterm pid_t

datatype effect =
    Shell shell_event
  | Locker locker_event
  | Window window_call
  | Seat seat_call
  | Ws ws_event
  | Stream stream_event
  | Lock_dismissed bool nat
  | Post_error nat proto_error
  | Log_key u32 string

section \<open>The compositor state\<close>

record qdwin =
  nested_mode :: bool
  toplevels :: "toplevel list"
  next_handle :: u32
  outputs :: "weston_output list"
  layer_position :: "layer \<Rightarrow> nat option"
  layer_views :: "layer \<Rightarrow> view list"
  view_mapped :: "view \<Rightarrow> bool"
  view_surface :: "view \<Rightarrow> surface"
  view_pos :: "view \<Rightarrow> coord \<times> coord"
  surface_mapped :: "surface \<Rightarrow> bool"
  surface_client :: "surface \<Rightarrow> nat option"
  surface_size :: "surface \<Rightarrow> int \<times> int"
  next_id :: nat
  display_serial :: u32
  seats :: "weston_seat list"
  seat_trackers :: "seat_tracker list"
  shell_bound :: bool
  shell_resource :: "wl_resource option"
  shell_pid :: pid_t
  shell_uid :: uid_t
  allowed_uid :: uid_t
  locker_resource :: "wl_resource option"
  locker_pid :: pid_t
  locker_uid :: uid_t
  locker_starttime :: u64
  locked :: bool
  lock_surface :: "surface option"
  lock_view :: "view option"
  lock_view_is_toplevel :: bool
  lock_toplevel :: "u32 option"
  lock_resource :: "nat option"
  lock_resource_is_locker :: bool
  lock_reattach :: bool
  lock_curtain :: "(view \<times> int \<times> int \<times> int \<times> int) option"
  overlay_grab_active :: bool
  overlay_grab_role :: u32
  overlay_grab_kbd :: nat
  switcher_grab_active :: bool
  switcher_grab_kbd :: nat
  launchers :: "launcher list"
  view_streams :: "view_stream list"
  dead_streams :: "view_stream list"
  next_stream_port :: u32
  allowed_locker_uid :: uid_t
  allowed_locker_entrypoint :: "string option"
  allowed_locker_exe :: "string option"
  allowed_locker_label :: "string option"
  secctx_clients :: "(nat \<times> secctx_tag) list"
  panels :: "panel list"
  layer_surfaces :: "layer_surface list"
  wm_policy :: wm_policy_t
  ffm_pending_handle :: u32
  ffm_armed :: "u32 option"
  move_grab :: "u32 option"
  workspace_count :: nat
  active_workspace :: nat
  workspace_names :: "nat \<Rightarrow> string option"
  ext_ws_managers :: "ext_ws_manager list"
  ws_handle_refs :: "nat \<Rightarrow> (nat option \<times> nat) option"
  ub :: bool
  out :: "effect list"

text \<open>The flag \<open>ub\<close> records that a C expression with undefined behaviour was reached.\<close>

definition emit :: "effect \<Rightarrow> qdwin \<Rightarrow> qdwin" where
  "emit e s = s\<lparr>out := out s @ [e]\<rparr>"

section \<open>Toplevels and the shell\<close>

definition qdwin_toplevel_from_handle :: "qdwin \<Rightarrow> u32 \<Rightarrow> toplevel option" where
  "qdwin_toplevel_from_handle s h = find (\<lambda>t. tl_handle t = h) (toplevels s)"

definition upd_tl :: "u32 \<Rightarrow> (toplevel \<Rightarrow> toplevel) \<Rightarrow> qdwin \<Rightarrow> qdwin" where
  "upd_tl h f s = s\<lparr>toplevels := upd_where (\<lambda>t. tl_handle t = h) f (toplevels s)\<rparr>"

text \<open>The tests \<open>qdwin_shell_can_receive_vN\<close> and their open-coded variants: a shell is bound
  and its resource has at least the version of the event.\<close>

definition qdwin_shell_can_receive :: "nat \<Rightarrow> qdwin \<Rightarrow> bool" where
  "qdwin_shell_can_receive n s \<longleftrightarrow>
     shell_bound s \<and> (case shell_resource s of None \<Rightarrow> False | Some r \<Rightarrow> n \<le> res_version r)"

definition send_shell :: "nat \<Rightarrow> shell_event \<Rightarrow> qdwin \<Rightarrow> qdwin" where
  "send_shell n e s = (if qdwin_shell_can_receive n s then emit (Shell e) s else s)"

definition qdwin_emit_toplevel_workspace :: "toplevel \<Rightarrow> qdwin \<Rightarrow> qdwin" where
  "qdwin_emit_toplevel_workspace t = send_shell 24 (toplevel_workspace (tl_handle t) (tl_workspace t))"

definition qdwin_send_toplevel_removed :: "toplevel \<Rightarrow> qdwin \<Rightarrow> qdwin" where
  "qdwin_send_toplevel_removed t = send_shell 0 (toplevel_removed (tl_handle t))"

definition qdwin_send_toplevel_state :: "toplevel \<Rightarrow> qdwin \<Rightarrow> qdwin" where
  "qdwin_send_toplevel_state t = send_shell 0 (toplevel_state (tl_handle t) (tl_state t))"

text \<open>A request of the shell protocol runs its body only on the bound shell's resource.\<close>

definition qdwin_shell_require_bound :: "wl_resource \<Rightarrow> (qdwin \<Rightarrow> qdwin) \<Rightarrow> qdwin \<Rightarrow> qdwin" where
  "qdwin_shell_require_bound r body s =
     (if shell_bound s \<and> shell_resource s = Some r then body s
      else emit (Post_error (res_id r) ERROR_NOT_BOUND) s)"

definition qdwin_client_is_bound_shell :: "qdwin \<Rightarrow> wl_client \<Rightarrow> bool" where
  "qdwin_client_is_bound_shell s c \<longleftrightarrow>
     shell_bound s \<and>
     (case shell_resource s of None \<Rightarrow> False | Some r \<Rightarrow> c = res_client r)"

definition qdwin_primary_output :: "qdwin \<Rightarrow> weston_output option" where
  "qdwin_primary_output s = find (\<lambda>o'. \<not> o_destroying o') (outputs s)"

section \<open>Seats and keyboard focus\<close>

definition seat_of :: "qdwin \<Rightarrow> nat \<Rightarrow> weston_seat option" where
  "seat_of s i = find (\<lambda>x. seat_id x = i) (seats s)"

definition weston_seat_get_keyboard :: "qdwin \<Rightarrow> nat \<Rightarrow> weston_keyboard option" where
  "weston_seat_get_keyboard s i =
     seat_of s i \<bind> (\<lambda>x. case seat_kbd x of None \<Rightarrow> None
                         | Some k \<Rightarrow> if kb_devices k = 0 then None else Some k)"

definition kbd_focus :: "qdwin \<Rightarrow> nat \<Rightarrow> surface option" where
  "kbd_focus s i = weston_seat_get_keyboard s i \<bind> kb_focus"

definition upd_seat :: "nat \<Rightarrow> (weston_seat \<Rightarrow> weston_seat) \<Rightarrow> qdwin \<Rightarrow> qdwin" where
  "upd_seat i f s = s\<lparr>seats := upd_where (\<lambda>x. seat_id x = i) f (seats s)\<rparr>"

definition upd_kbd :: "nat \<Rightarrow> (weston_keyboard \<Rightarrow> weston_keyboard) \<Rightarrow> qdwin \<Rightarrow> qdwin" where
  "upd_kbd i f = upd_seat i (\<lambda>x. x\<lparr>seat_kbd := map_option f (seat_kbd x)\<rparr>)"

definition upd_tracker :: "nat \<Rightarrow> (seat_tracker \<Rightarrow> seat_tracker) \<Rightarrow> qdwin \<Rightarrow> qdwin" where
  "upd_tracker i f s = s\<lparr>seat_trackers := upd_where (\<lambda>x. tr_seat x = i) f (seat_trackers s)\<rparr>"

definition qdwin_seat_tracker_for_seat :: "qdwin \<Rightarrow> nat \<Rightarrow> seat_tracker option" where
  "qdwin_seat_tracker_for_seat s i = find (\<lambda>x. tr_seat x = i) (seat_trackers s)"

definition qdwin_toplevel_by_surface :: "qdwin \<Rightarrow> surface option \<Rightarrow> toplevel option" where
  "qdwin_toplevel_by_surface s so =
     (case so of
        None \<Rightarrow> None
      | Some x \<Rightarrow> find (\<lambda>t. view_surface s (tl_view t) = x \<or> tl_proxy_pixel_surface t = Some x)
                      (toplevels s))"

definition focused_handle :: "qdwin \<Rightarrow> nat \<Rightarrow> u32" where
  "focused_handle s i =
     (case qdwin_toplevel_by_surface s (kbd_focus s i) of
        None \<Rightarrow> UINT32_MAX | Some t \<Rightarrow> tl_handle t)"

definition qdwin_emit_seat_focus_changed :: "nat \<Rightarrow> u32 \<Rightarrow> qdwin \<Rightarrow> qdwin" where
  "qdwin_emit_seat_focus_changed i h s =
     send_shell 14 (seat_focus_changed (case seat_of s i of None \<Rightarrow> [] | Some x \<Rightarrow> seat_name x) h) s"

text \<open>The argument stands for the tracker of a seat; a seat without one is the NULL tracker.
  The idle source that recovers the focus is a pending flag of the tracker.\<close>

definition qdwin_seat_emit_focus_now :: "nat \<Rightarrow> qdwin \<Rightarrow> qdwin" where
  "qdwin_seat_emit_focus_now i s =
     (case qdwin_seat_tracker_for_seat s i of
        None \<Rightarrow> s
      | Some tr \<Rightarrow>
          (let h = focused_handle s i in
           if h = tr_last_focused tr then s
           else
             let s1 = upd_tracker i (\<lambda>t. t\<lparr>tr_last_focused := h\<rparr>) s;
                 s2 = qdwin_emit_seat_focus_changed i h s1
             in if h = UINT32_MAX \<and> weston_seat_get_keyboard s i \<noteq> None \<and> \<not> locked s
                   \<and> \<not> tr_recover_idle tr
                then upd_tracker i (\<lambda>t. t\<lparr>tr_recover_idle := True\<rparr>) s2 else s2))"

definition qdwin_on_keyboard_focus_changed :: "nat \<Rightarrow> qdwin \<Rightarrow> qdwin" where
  "qdwin_on_keyboard_focus_changed i s =
     qdwin_seat_emit_focus_now i (emit (Seat (text_input_update_focus i)) s)"

text \<open>The focus signal reaches the trackers whose listener is installed on this keyboard.\<close>

definition weston_keyboard_set_focus :: "nat \<Rightarrow> surface option \<Rightarrow> qdwin \<Rightarrow> qdwin" where
  "weston_keyboard_set_focus i so s =
     (case weston_seat_get_keyboard s i of
        None \<Rightarrow> s
      | Some k \<Rightarrow>
          (let so' = (case so of None \<Rightarrow> None
                      | Some x \<Rightarrow> if surface_client s x = None then None else Some x);
               s1 = upd_kbd i (\<lambda>k. k\<lparr>kb_focus := so'\<rparr>) s
           in fold (\<lambda>tr. qdwin_on_keyboard_focus_changed (tr_seat tr))
                [tr \<leftarrow> seat_trackers s1. tr_listener tr = Some (kb_id k)] s1))"

definition weston_seat_set_keyboard_focus :: "nat \<Rightarrow> surface option \<Rightarrow> qdwin \<Rightarrow> qdwin" where
  "weston_seat_set_keyboard_focus i so s =
     (if weston_seat_get_keyboard s i \<noteq> None \<and> kbd_focus s i \<noteq> so
      then emit (Seat (data_device_focus i)) (weston_keyboard_set_focus i so s) else s)"

definition weston_view_activate_input :: "view \<Rightarrow> nat \<Rightarrow> qdwin \<Rightarrow> qdwin" where
  "weston_view_activate_input v i s =
     emit (Seat (activate_signal v i))
       (weston_seat_set_keyboard_focus i (Some (view_surface s v)) s)"

section \<open>Views and layers\<close>

definition weston_view_unmap :: "view \<Rightarrow> qdwin \<Rightarrow> qdwin" where
  "weston_view_unmap v s =
     (if \<not> view_mapped s v then s
      else
        let s1 = s\<lparr>view_mapped := (view_mapped s)(v := False),
                   layer_views := (\<lambda>L. removeAll v (layer_views s L))\<rparr>
        in if surface_mapped s (view_surface s v) then s1
           else fold (\<lambda>i t. if kbd_focus t i = Some (view_surface s v)
                           then weston_keyboard_set_focus i None t else t)
                  (map seat_id (seats s1)) s1)"

text \<open>A layer is visible when it has a position on the compositor's layer list.\<close>

definition layer_is_visible :: "qdwin \<Rightarrow> layer \<Rightarrow> bool" where
  "layer_is_visible s L \<longleftrightarrow> layer_position s L \<noteq> None"

definition weston_view_move_to_layer :: "view \<Rightarrow> layer \<Rightarrow> qdwin \<Rightarrow> qdwin" where
  "weston_view_move_to_layer v L s =
     (let vis = layer_is_visible s L;
          s1 = s\<lparr>layer_views := (\<lambda>M. removeAll v (layer_views s M))\<rparr>;
          s2 = (if vis then s1 else weston_view_unmap v s1);
          s3 = s2\<lparr>layer_views := (layer_views s2)(L := v # layer_views s2 L)\<rparr>
      in if vis then s3\<lparr>view_mapped := (view_mapped s3)(v := True)\<rparr> else s3)"

definition weston_view_destroy :: "view \<Rightarrow> qdwin \<Rightarrow> qdwin" where
  "weston_view_destroy v s =
     (let s1 = weston_view_unmap v s
      in s1\<lparr>layer_views := (\<lambda>M. removeAll v (layer_views s1 M))\<rparr>)"

definition weston_layer_set_position :: "layer \<Rightarrow> nat \<Rightarrow> qdwin \<Rightarrow> qdwin" where
  "weston_layer_set_position L p s = s\<lparr>layer_position := (layer_position s)(L := Some p)\<rparr>"

definition weston_layer_unset_position :: "layer \<Rightarrow> qdwin \<Rightarrow> qdwin" where
  "weston_layer_unset_position L s = s\<lparr>layer_position := (layer_position s)(L := None)\<rparr>"

definition chrome_views :: "toplevel \<Rightarrow> view list" where
  "chrome_views t = map snd (List.map_filter (tl_chrome t) all_sides)"

definition tl_views :: "toplevel \<Rightarrow> view list" where
  "tl_views t = tl_view t # chrome_views t"

definition qdwin_toplevel_move_to_layer :: "toplevel \<Rightarrow> layer \<Rightarrow> qdwin \<Rightarrow> qdwin" where
  "qdwin_toplevel_move_to_layer t L s =
     (let L' = (if tl_pending_decision t \<and> L = Normal_layer then Held_layer else L)
      in fold (\<lambda>v. weston_view_move_to_layer v L') (tl_views t) s)"

section \<open>Initial state\<close>

definition zero_geometry :: saved_geometry where
  "zero_geometry = \<lparr>sg_w = 0, sg_h = 0, sg_x = 0, sg_y = 0\<rparr>"

definition zero_xw :: xwayland_fb where
  "zero_xw = \<lparr>xw_frame_w = 0, xw_frame_h = 0, xw_target_w = 0, xw_target_h = 0, xw_sent_w = 0,
     xw_sent_h = 0, xw_before_w = 0, xw_before_h = 0, xw_corrections = 0,
     xw_configure_pending = False\<rparr>"

text \<open>A freshly allocated toplevel: every field zero.\<close>

definition zero_toplevel :: toplevel where
  "zero_toplevel = \<lparr>tl_handle = 0, tl_view = 0, tl_desktop_surface = False, tl_peer = None,
     tl_title = None, tl_app_id = None, tl_is_xwayland = False, tl_wm_class = None,
     tl_geometry = (0, 0), tl_secctx = None, tl_mapped = False, tl_decorated = False,
     tl_last_width = 0, tl_last_height = 0, tl_is_nested_proxy = False,
     tl_pending_decision = False, tl_proxy_curtain = None, tl_proxy_pixel_surface = None,
     tl_proxy_origin_uid = 0, tl_proxy_remote = None, tl_inset_n = 0, tl_inset_e = 0,
     tl_inset_s = 0, tl_inset_w = 0, tl_outer_width = 0, tl_outer_height = 0, tl_xw = zero_xw,
     tl_state = 0, tl_workspace = 0, tl_border_rgba = None, tl_saved = zero_geometry,
     tl_tiled = 0, tl_tile_saved = zero_geometry, tl_chrome = (\<lambda>_. None),
     tl_cached_title = None, tl_cached_app_id = None\<rparr>"

definition qdwin_wm_policy_set_defaults :: wm_policy_t where
  "qdwin_wm_policy_set_defaults = \<lparr>focus_policy = 0, ffm_delay_ms = 0, raise_on_click = True,
     raise_on_hover = False, placement = 3, snap_enabled = False, snap_distance = 16\<rparr>"

abbreviation QDWIN_DEFAULT_WORKSPACES :: nat where "QDWIN_DEFAULT_WORKSPACES \<equiv> 4"
abbreviation QDWIN_MAX_WORKSPACES :: nat where "QDWIN_MAX_WORKSPACES \<equiv> 32"

text \<open>The positions given to the layers at start-up. The minimized and the hidden workspace layer
  never get one, which is what makes views on them invisible.\<close>

fun init_position :: "layer \<Rightarrow> nat option" where
  "init_position Background_layer = Some 0x2"
| "init_position Held_layer = Some 0"
| "init_position Normal_layer = Some 0x50000000"
| "init_position Minimized_layer = None"
| "init_position Workspace_hidden_layer = None"
| "init_position Panel_layer = Some 0x70000000"
| "init_position Notification_layer = Some 0x78000000"
| "init_position Launcher_layer = Some 0x7C000000"
| "init_position Lock_layer = Some 0xffff0000"
| "init_position Popup_layer = Some 0x80000000"
| "init_position (Layer_shell_layer i) =
     (if i = 0 then Some 0x3 else if i = 1 then Some 0x30000000
      else if i = 2 then Some 0x90000000 else if i = 3 then Some 0xe0000000 else None)"

text \<open>The state \<open>wet_shell_init\<close> leaves: \<open>ws_env\<close> is the workspace count of the environment, if
  one is given.\<close>

definition wet_shell_init :: "uid_t \<Rightarrow> bool \<Rightarrow> int option \<Rightarrow> qdwin" where
  "wet_shell_init uid nested ws_env = \<lparr>
     nested_mode = nested, toplevels = [], next_handle = 0, outputs = [],
     layer_position = init_position, layer_views = (\<lambda>_. []), view_mapped = (\<lambda>_. False),
     view_surface = (\<lambda>_. 0), view_pos = (\<lambda>_. (0, 0)), surface_mapped = (\<lambda>_. False),
     surface_client = (\<lambda>_. None), surface_size = (\<lambda>_. (0, 0)), next_id = 0, display_serial = 1, seats = [],
     seat_trackers = [], shell_bound = False, shell_resource = None, shell_pid = 0,
     shell_uid = 0, allowed_uid = uid, locker_resource = None, locker_pid = 0, locker_uid = 0,
     locker_starttime = 0, locked = False, lock_surface = None, lock_view = None,
     lock_view_is_toplevel = False, lock_toplevel = None, lock_resource = None,
     lock_resource_is_locker = False, lock_reattach = False, lock_curtain = None,
     overlay_grab_active = False, overlay_grab_role = 0, overlay_grab_kbd = 0,
     switcher_grab_active = False, switcher_grab_kbd = 0, launchers = [], view_streams = [],
     dead_streams = [], next_stream_port = 3401, allowed_locker_uid = uid,
     allowed_locker_entrypoint = None, allowed_locker_exe = None, allowed_locker_label = None,
     secctx_clients = [], panels = [],
     layer_surfaces = [], wm_policy = qdwin_wm_policy_set_defaults, ffm_pending_handle = 0,
     ffm_armed = None, move_grab = None,
     workspace_count = (case ws_env of
        Some n \<Rightarrow> if 1 \<le> n \<and> n \<le> int QDWIN_MAX_WORKSPACES then nat n else QDWIN_DEFAULT_WORKSPACES
      | None \<Rightarrow> QDWIN_DEFAULT_WORKSPACES),
     active_workspace = 0, workspace_names = (\<lambda>_. None), ext_ws_managers = [],
     ws_handle_refs = (\<lambda>_. None), ub = False, out = []\<rparr>"

section \<open>Frames\<close>

lemma upd_tl_frames [simp]:
  "nested_mode (upd_tl k f s) = nested_mode s"
  "next_handle (upd_tl k f s) = next_handle s"
  "outputs (upd_tl k f s) = outputs s"
  "layer_position (upd_tl k f s) = layer_position s"
  "view_surface (upd_tl k f s) = view_surface s"
  "view_pos (upd_tl k f s) = view_pos s"
  "surface_mapped (upd_tl k f s) = surface_mapped s"
  "surface_client (upd_tl k f s) = surface_client s"
  "surface_size (upd_tl k f s) = surface_size s"
  "next_id (upd_tl k f s) = next_id s"
  "display_serial (upd_tl k f s) = display_serial s"
  "shell_bound (upd_tl k f s) = shell_bound s"
  "shell_resource (upd_tl k f s) = shell_resource s"
  "shell_pid (upd_tl k f s) = shell_pid s"
  "shell_uid (upd_tl k f s) = shell_uid s"
  "allowed_uid (upd_tl k f s) = allowed_uid s"
  "locker_resource (upd_tl k f s) = locker_resource s"
  "locker_pid (upd_tl k f s) = locker_pid s"
  "locker_uid (upd_tl k f s) = locker_uid s"
  "locker_starttime (upd_tl k f s) = locker_starttime s"
  "locked (upd_tl k f s) = locked s"
  "lock_surface (upd_tl k f s) = lock_surface s"
  "lock_view (upd_tl k f s) = lock_view s"
  "lock_view_is_toplevel (upd_tl k f s) = lock_view_is_toplevel s"
  "lock_toplevel (upd_tl k f s) = lock_toplevel s"
  "lock_resource (upd_tl k f s) = lock_resource s"
  "lock_resource_is_locker (upd_tl k f s) = lock_resource_is_locker s"
  "lock_reattach (upd_tl k f s) = lock_reattach s"
  "lock_curtain (upd_tl k f s) = lock_curtain s"
  "overlay_grab_active (upd_tl k f s) = overlay_grab_active s"
  "overlay_grab_role (upd_tl k f s) = overlay_grab_role s"
  "overlay_grab_kbd (upd_tl k f s) = overlay_grab_kbd s"
  "switcher_grab_active (upd_tl k f s) = switcher_grab_active s"
  "switcher_grab_kbd (upd_tl k f s) = switcher_grab_kbd s"
  "launchers (upd_tl k f s) = launchers s"
  "view_streams (upd_tl k f s) = view_streams s"
  "dead_streams (upd_tl k f s) = dead_streams s"
  "next_stream_port (upd_tl k f s) = next_stream_port s"
  "allowed_locker_uid (upd_tl k f s) = allowed_locker_uid s"
  "allowed_locker_entrypoint (upd_tl k f s) = allowed_locker_entrypoint s"
  "allowed_locker_exe (upd_tl k f s) = allowed_locker_exe s"
  "allowed_locker_label (upd_tl k f s) = allowed_locker_label s"
  "secctx_clients (upd_tl k f s) = secctx_clients s"
  "workspace_count (upd_tl k f s) = workspace_count s"
  "ub (upd_tl k f s) = ub s"
  "panels (upd_tl k f s) = panels s"
  "layer_surfaces (upd_tl k f s) = layer_surfaces s"
  "wm_policy (upd_tl k f s) = wm_policy s"
  "ffm_pending_handle (upd_tl k f s) = ffm_pending_handle s"
  "ffm_armed (upd_tl k f s) = ffm_armed s"
  "move_grab (upd_tl k f s) = move_grab s"
  "active_workspace (upd_tl k f s) = active_workspace s"
  "workspace_names (upd_tl k f s) = workspace_names s"
  "ext_ws_managers (upd_tl k f s) = ext_ws_managers s"
  "ws_handle_refs (upd_tl k f s) = ws_handle_refs s"
  "layer_views (upd_tl k f s) = layer_views s"
  "view_mapped (upd_tl k f s) = view_mapped s"
  "seats (upd_tl k f s) = seats s"
  "seat_trackers (upd_tl k f s) = seat_trackers s"
  "out (upd_tl k f s) = out s"
  by (simp_all add: upd_tl_def)

text \<open>Focus handling touches the seats, their trackers and the trace; moving views touches the
  stacking in addition. The part of the state outside such a group is the state with the
  group blanked out, and an operation keeps it when the blanked states agree.\<close>

definition seatless :: "qdwin \<Rightarrow> qdwin" where
  "seatless s = s\<lparr>seats := [], seat_trackers := [], out := []\<rparr>"

definition sceneless :: "qdwin \<Rightarrow> qdwin" where
  "sceneless s = s\<lparr>seats := [], seat_trackers := [], out := [],
                   layer_views := (\<lambda>_. []), view_mapped := (\<lambda>_. False)\<rparr>"

lemma seatless_frame:
  assumes "seatless a = seatless b"
  shows "nested_mode a = nested_mode b"
    and "toplevels a = toplevels b"
    and "next_handle a = next_handle b"
    and "outputs a = outputs b"
    and "layer_position a = layer_position b"
    and "view_surface a = view_surface b"
    and "view_pos a = view_pos b"
    and "surface_mapped a = surface_mapped b"
    and "surface_client a = surface_client b"
    and "surface_size a = surface_size b"
    and "next_id a = next_id b"
    and "display_serial a = display_serial b"
    and "shell_bound a = shell_bound b"
    and "shell_resource a = shell_resource b"
    and "shell_pid a = shell_pid b"
    and "shell_uid a = shell_uid b"
    and "allowed_uid a = allowed_uid b"
    and "locker_resource a = locker_resource b"
    and "locker_pid a = locker_pid b"
    and "locker_uid a = locker_uid b"
    and "locker_starttime a = locker_starttime b"
    and "locked a = locked b"
    and "lock_surface a = lock_surface b"
    and "lock_view a = lock_view b"
    and "lock_view_is_toplevel a = lock_view_is_toplevel b"
    and "lock_toplevel a = lock_toplevel b"
    and "lock_resource a = lock_resource b"
    and "lock_resource_is_locker a = lock_resource_is_locker b"
    and "lock_reattach a = lock_reattach b"
    and "lock_curtain a = lock_curtain b"
    and "overlay_grab_active a = overlay_grab_active b"
    and "overlay_grab_role a = overlay_grab_role b"
    and "overlay_grab_kbd a = overlay_grab_kbd b"
    and "switcher_grab_active a = switcher_grab_active b"
    and "switcher_grab_kbd a = switcher_grab_kbd b"
    and "launchers a = launchers b"
    and "view_streams a = view_streams b"
    and "dead_streams a = dead_streams b"
    and "next_stream_port a = next_stream_port b"
    and "allowed_locker_uid a = allowed_locker_uid b"
    and "allowed_locker_entrypoint a = allowed_locker_entrypoint b"
    and "allowed_locker_exe a = allowed_locker_exe b"
    and "allowed_locker_label a = allowed_locker_label b"
    and "secctx_clients a = secctx_clients b"
    and "workspace_count a = workspace_count b"
    and "ub a = ub b"
    and "panels a = panels b"
    and "layer_surfaces a = layer_surfaces b"
    and "wm_policy a = wm_policy b"
    and "ffm_pending_handle a = ffm_pending_handle b"
    and "ffm_armed a = ffm_armed b"
    and "move_grab a = move_grab b"
    and "active_workspace a = active_workspace b"
    and "workspace_names a = workspace_names b"
    and "ext_ws_managers a = ext_ws_managers b"
    and "ws_handle_refs a = ws_handle_refs b"
    and "layer_views a = layer_views b"
    and "view_mapped a = view_mapped b"
  using assms by (cases a; cases b; simp add: seatless_def)+

lemma sceneless_frame:
  assumes "sceneless a = sceneless b"
  shows "nested_mode a = nested_mode b"
    and "toplevels a = toplevels b"
    and "next_handle a = next_handle b"
    and "outputs a = outputs b"
    and "layer_position a = layer_position b"
    and "view_surface a = view_surface b"
    and "view_pos a = view_pos b"
    and "surface_mapped a = surface_mapped b"
    and "surface_client a = surface_client b"
    and "surface_size a = surface_size b"
    and "next_id a = next_id b"
    and "display_serial a = display_serial b"
    and "shell_bound a = shell_bound b"
    and "shell_resource a = shell_resource b"
    and "shell_pid a = shell_pid b"
    and "shell_uid a = shell_uid b"
    and "allowed_uid a = allowed_uid b"
    and "locker_resource a = locker_resource b"
    and "locker_pid a = locker_pid b"
    and "locker_uid a = locker_uid b"
    and "locker_starttime a = locker_starttime b"
    and "locked a = locked b"
    and "lock_surface a = lock_surface b"
    and "lock_view a = lock_view b"
    and "lock_view_is_toplevel a = lock_view_is_toplevel b"
    and "lock_toplevel a = lock_toplevel b"
    and "lock_resource a = lock_resource b"
    and "lock_resource_is_locker a = lock_resource_is_locker b"
    and "lock_reattach a = lock_reattach b"
    and "lock_curtain a = lock_curtain b"
    and "overlay_grab_active a = overlay_grab_active b"
    and "overlay_grab_role a = overlay_grab_role b"
    and "overlay_grab_kbd a = overlay_grab_kbd b"
    and "switcher_grab_active a = switcher_grab_active b"
    and "switcher_grab_kbd a = switcher_grab_kbd b"
    and "launchers a = launchers b"
    and "view_streams a = view_streams b"
    and "dead_streams a = dead_streams b"
    and "next_stream_port a = next_stream_port b"
    and "allowed_locker_uid a = allowed_locker_uid b"
    and "allowed_locker_entrypoint a = allowed_locker_entrypoint b"
    and "allowed_locker_exe a = allowed_locker_exe b"
    and "allowed_locker_label a = allowed_locker_label b"
    and "secctx_clients a = secctx_clients b"
    and "workspace_count a = workspace_count b"
    and "ub a = ub b"
    and "panels a = panels b"
    and "layer_surfaces a = layer_surfaces b"
    and "wm_policy a = wm_policy b"
    and "ffm_pending_handle a = ffm_pending_handle b"
    and "ffm_armed a = ffm_armed b"
    and "move_grab a = move_grab b"
    and "active_workspace a = active_workspace b"
    and "workspace_names a = workspace_names b"
    and "ext_ws_managers a = ext_ws_managers b"
    and "ws_handle_refs a = ws_handle_refs b"
  using assms by (cases a; cases b; simp add: sceneless_def)+

lemma seatless_sceneless: "seatless a = seatless b \<Longrightarrow> sceneless a = sceneless b"
  by (cases a; cases b; simp add: seatless_def sceneless_def)

lemma seatless_emit [simp]: "seatless (emit e s) = seatless s"
  by (simp add: seatless_def emit_def)

lemma seatless_upd_seat [simp]: "seatless (upd_seat i f s) = seatless s"
  by (simp add: seatless_def upd_seat_def)

lemma seatless_upd_kbd [simp]: "seatless (upd_kbd i f s) = seatless s"
  by (simp add: upd_kbd_def)

lemma seatless_upd_tracker [simp]: "seatless (upd_tracker i f s) = seatless s"
  by (simp add: seatless_def upd_tracker_def)

lemma seatless_send_shell [simp]: "seatless (send_shell n e s) = seatless s"
  by (simp add: send_shell_def)

lemma seatless_emit_focus_now [simp]: "seatless (qdwin_seat_emit_focus_now i s) = seatless s"
  by (simp add: qdwin_seat_emit_focus_now_def qdwin_emit_seat_focus_changed_def Let_def
        split: option.split)

lemma seatless_on_focus_changed [simp]:
  "seatless (qdwin_on_keyboard_focus_changed i s) = seatless s"
  by (simp add: qdwin_on_keyboard_focus_changed_def)

lemma seatless_keyboard_set_focus [simp]: "seatless (weston_keyboard_set_focus i so s) = seatless s"
  by (simp add: weston_keyboard_set_focus_def Let_def fold_keeps [where g = seatless] split: option.split)

lemma seatless_seat_set_focus [simp]: "seatless (weston_seat_set_keyboard_focus i so s) = seatless s"
  by (simp add: weston_seat_set_keyboard_focus_def)

lemma seatless_activate_input [simp]: "seatless (weston_view_activate_input v i s) = seatless s"
  by (simp add: weston_view_activate_input_def)

lemmas seatless_frames [simp] =
  seatless_frame [OF seatless_emit] seatless_frame [OF seatless_send_shell]
  seatless_frame [OF seatless_emit_focus_now] seatless_frame [OF seatless_keyboard_set_focus]
  seatless_frame [OF seatless_seat_set_focus] seatless_frame [OF seatless_activate_input]
  seatless_frame [OF seatless_upd_tracker] seatless_frame [OF seatless_upd_kbd]
  seatless_frame [OF seatless_upd_seat]

text \<open>The effect of moving a view: it is the front view of its new layer, on no other layer,
  and mapped exactly when that layer is visible.\<close>

lemma fold_clear_focus_seatless:
  "seatless (fold (\<lambda>i t. if kbd_focus t i = so then weston_keyboard_set_focus i None t else t) xs s)
     = seatless s"
  by (rule fold_keeps) simp

lemma unmap_scene:
  "sceneless (weston_view_unmap v s) = sceneless s"
  "view_mapped (weston_view_unmap v s) = (view_mapped s)(v := False)"
  "layer_views (weston_view_unmap v s) =
     (if view_mapped s v then (\<lambda>L. removeAll v (layer_views s L)) else layer_views s)"
proof -
  let ?s1 = "s\<lparr>view_mapped := (view_mapped s)(v := False),
               layer_views := (\<lambda>L. removeAll v (layer_views s L))\<rparr>"
  have *: "view_mapped s v \<Longrightarrow> seatless (weston_view_unmap v s) = seatless ?s1"
    by (simp add: weston_view_unmap_def Let_def fold_clear_focus_seatless)
  have n: "\<not> view_mapped s v \<Longrightarrow> weston_view_unmap v s = s"
    by (simp add: weston_view_unmap_def)
  show "sceneless (weston_view_unmap v s) = sceneless s"
    using seatless_sceneless [OF *] n by (cases "view_mapped s v") (simp_all add: sceneless_def)
  show "view_mapped (weston_view_unmap v s) = (view_mapped s)(v := False)"
    using seatless_frame [OF *] n by (cases "view_mapped s v") (auto simp: fun_upd_idem)
  show "layer_views (weston_view_unmap v s) =
     (if view_mapped s v then (\<lambda>L. removeAll v (layer_views s L)) else layer_views s)"
    using seatless_frame [OF *] n by (cases "view_mapped s v") auto
qed

lemma sceneless_upd [simp]:
  "sceneless (s\<lparr>layer_views := x\<rparr>) = sceneless s"
  "sceneless (s\<lparr>view_mapped := y\<rparr>) = sceneless s"
  by (simp_all add: sceneless_def)

lemma move_to_layer_scene:
  "sceneless (weston_view_move_to_layer v L s) = sceneless s"
  "layer_views (weston_view_move_to_layer v L s) M =
     (if M = L then v # removeAll v (layer_views s L) else removeAll v (layer_views s M))"
  "view_mapped (weston_view_move_to_layer v L s) = (view_mapped s)(v := layer_is_visible s L)"
  by (auto simp: weston_view_move_to_layer_def Let_def unmap_scene)

lemma view_destroy_scene:
  "sceneless (weston_view_destroy v s) = sceneless s"
  "layer_views (weston_view_destroy v s) M = removeAll v (layer_views s M)"
  "view_mapped (weston_view_destroy v s) = (view_mapped s)(v := False)"
  by (auto simp: weston_view_destroy_def Let_def unmap_scene)

lemma toplevel_move_sceneless [simp]:
  "sceneless (qdwin_toplevel_move_to_layer t L s) = sceneless s"
  by (simp add: qdwin_toplevel_move_to_layer_def Let_def fold_keeps [where g = sceneless] move_to_layer_scene(1))

lemmas sceneless_frames [simp] =
  sceneless_frame [OF move_to_layer_scene(1)] sceneless_frame [OF view_destroy_scene(1)]
  sceneless_frame [OF toplevel_move_sceneless] sceneless_frame [OF unmap_scene(1)]

end
