(* ===== verification/Geometry.thy ===== *)
theory Geometry
  imports Wm_State
begin

text \<open>
  Window geometry: panels and the work area they leave, decoration insets and the configure
  that follows from them, fullscreen, maximise and half-screen tiling with the geometry each
  of them saves and restores, placement of new windows and edge snapping. Coordinates are
  C doubles holding pixel positions; the model keeps them as rationals, and \<open>c_int\<close> is the
  cast to int.
\<close>

section \<open>Coordinates\<close>

definition c_int :: "coord \<Rightarrow> int" where
  "c_int x = (if 0 \<le> x then \<lfloor>x\<rfloor> else \<lceil>x\<rceil>)"

lemma c_int_of_int [simp]: "c_int (of_int n) = n"
  by (simp add: c_int_def)

definition weston_view_set_position :: "view \<Rightarrow> coord \<times> coord \<Rightarrow> qdwin \<Rightarrow> qdwin" where
  "weston_view_set_position v p s = s\<lparr>view_pos := (view_pos s)(v := p)\<rparr>"

definition at_int :: "int \<Rightarrow> int \<Rightarrow> coord \<times> coord" where
  "at_int x y = (of_int x, of_int y)"

definition qdwin_first_pointer :: "qdwin \<Rightarrow> (coord \<times> coord) option" where
  "qdwin_first_pointer s = find (\<lambda>_. True) (List.map_filter seat_pointer (seats s))"

definition qdwin_output_at_global :: "qdwin \<Rightarrow> coord \<Rightarrow> coord \<Rightarrow> weston_output option" where
  "qdwin_output_at_global s gx gy =
     (case find (\<lambda>o'. of_int (o_x o') \<le> gx \<and> gx < of_int (o_x o' + o_width o') \<and>
                      of_int (o_y o') \<le> gy \<and> gy < of_int (o_y o' + o_height o')) (outputs s) of
        Some o' \<Rightarrow> Some o'
      | None \<Rightarrow> qdwin_primary_output s)"

section \<open>Panels and the work area\<close>

type_synonym rect = "int \<times> int \<times> int \<times> int"

definition qdwin_panel_compute_rect :: "panel \<Rightarrow> weston_output \<Rightarrow> rect" where
  "qdwin_panel_compute_rect p o' =
     (let t = max 0 (sint (p_thickness p));
          x = o_x o'; y = o_y o'; w = o_width o'; h = o_height o'
      in if p_edge p = 1 then (x, y + h - t, w, t)
         else if p_edge p = 2 then (x, y, t, h)
         else if p_edge p = 3 then (x + w - t, y, t, h)
         else (x, y, w, t))"

definition upd_panel :: "nat \<Rightarrow> (panel \<Rightarrow> panel) \<Rightarrow> qdwin \<Rightarrow> qdwin" where
  "upd_panel i f s = s\<lparr>panels := upd_where (\<lambda>p. p_id p = i) f (panels s)\<rparr>"

definition qdwin_panel_send_geometry :: "panel \<Rightarrow> rect \<Rightarrow> qdwin \<Rightarrow> qdwin" where
  "qdwin_panel_send_geometry p r s =
     (if p_last p = Some r then s
      else let (x, y, w, h) = r
           in emit (Shell (panel_geometry (p_id p) x y w h))
                (upd_panel (p_id p) (\<lambda>q. q\<lparr>p_last := Some r\<rparr>) s))"

definition qdwin_panel_place :: "panel \<Rightarrow> qdwin \<Rightarrow> qdwin" where
  "qdwin_panel_place p s =
     (case (p_view p, p_output p \<bind> (\<lambda>i. find (\<lambda>o'. o_id o' = i) (outputs s))) of
        (Some v, Some o') \<Rightarrow>
          (let r = qdwin_panel_compute_rect p o'; (x, y, w, h) = r;
               s1 = weston_view_set_position v (at_int x y) s;
               s2 = (case p_surface p of None \<Rightarrow> s1
                     | Some sf \<Rightarrow> s1\<lparr>surface_mapped := (surface_mapped s1)(sf := True)\<rparr>)
           in qdwin_panel_send_geometry p r s2)
      | _ \<Rightarrow> s)"

definition panel_zone :: "weston_output \<Rightarrow> panel \<Rightarrow> rect \<Rightarrow> rect" where
  "panel_zone o' p r =
     (let t = sint (p_exclusive p); (x, y, w, h) = r
      in if (p_output p \<noteq> None \<and> p_output p \<noteq> Some (o_id o')) \<or> t \<le> 0 then r
         else if p_edge p = 0 then (x, y + t, w, h - t)
         else if p_edge p = 1 then (x, y, w, h - t)
         else if p_edge p = 2 then (x + t, y, w - t, h)
         else if p_edge p = 3 then (x, y, w - t, h)
         else r)"

definition qdwin_layer_surface_get_exclusive_edge :: "layer_surface \<Rightarrow> u32" where
  "qdwin_layer_surface_get_exclusive_edge ls =
     qdwin_layer_exclusive_edge (ls_anchor ls) (ls_exclusive_edge ls \<noteq> 0) (ls_exclusive_edge ls)"

definition layer_zone :: "weston_output \<Rightarrow> layer_surface \<Rightarrow> rect \<Rightarrow> rect" where
  "layer_zone o' ls r =
     (let e = qdwin_layer_surface_get_exclusive_edge ls; z = ls_exclusive_zone ls; (x, y, w, h) = r
      in if \<not> ls_mapped ls \<or> (ls_output ls \<noteq> None \<and> ls_output ls \<noteq> Some (o_id o')) \<or> z \<le> 0 then r
         else if e = ANCHOR_TOP then (let t = z + ls_margin_top ls in (x, y + t, w, h - t))
         else if e = ANCHOR_BOTTOM then (x, y, w, h - (z + ls_margin_bottom ls))
         else if e = ANCHOR_LEFT then (let t = z + ls_margin_left ls in (x + t, y, w - t, h))
         else if e = ANCHOR_RIGHT then (x, y, w - (z + ls_margin_right ls), h)
         else r)"

definition qdwin_layer_shell_subtract_zones :: "qdwin \<Rightarrow> weston_output \<Rightarrow> rect \<Rightarrow> rect" where
  "qdwin_layer_shell_subtract_zones s o' r = fold (layer_zone o') (layer_surfaces s) r"

definition qdwin_output_work_area :: "qdwin \<Rightarrow> weston_output \<Rightarrow> rect" where
  "qdwin_output_work_area s o' =
     (let r0 = (o_x o', o_y o', o_width o', o_height o');
          (x, y, w, h) = qdwin_layer_shell_subtract_zones s o' (fold (panel_zone o') (panels s) r0)
      in (x, y, max 1 w, max 1 h))"

section \<open>Insets, configure and chrome\<close>

definition content_size :: "qdwin \<Rightarrow> toplevel \<Rightarrow> int \<times> int" where
  "content_size s t = surface_size s (view_surface s (tl_view t))"

definition or_default :: "int \<Rightarrow> int \<Rightarrow> int" where
  "or_default x d = (if 0 < x then x else d)"

definition qdwin_toplevel_seed_outer_from_committed :: "qdwin \<Rightarrow> toplevel \<Rightarrow> toplevel" where
  "qdwin_toplevel_seed_outer_from_committed s t =
     (if 0 < tl_outer_width t \<and> 0 < tl_outer_height t then t
      else if tl_is_nested_proxy t
      then t\<lparr>tl_outer_width := or_default (tl_last_width t) 800,
             tl_outer_height := or_default (tl_last_height t) 600\<rparr>
      else
        let (sw, sh) = content_size s t; (gw, gh) = tl_geometry t; xw = tl_is_xwayland t;
            iw = or_default (qdwin_committed_restore_extent xw sw gw) 800;
            ih = or_default (qdwin_committed_restore_extent xw sh gh) 600
        in t\<lparr>tl_outer_width := iw + tl_inset_w t + tl_inset_e t,
             tl_outer_height := ih + tl_inset_n t + tl_inset_s t\<rparr>)"

text \<open>The configure sent for a toplevel whose outer size is known: \<open>None\<close> is undefined
  behaviour in one of the integer kernels.\<close>

definition inset_configure :: "qdwin \<Rightarrow> toplevel \<Rightarrow> (int \<times> int \<times> int \<times> int) option" where
  "inset_configure s t =
     (let (sw, sh) = content_size s t; (gw, gh) = tl_geometry t
      in do {
        iw \<leftarrow> qdwin_inset_inner_extent (tl_outer_width t) (tl_inset_w t) (tl_inset_e t);
        ih \<leftarrow> qdwin_inset_inner_extent (tl_outer_height t) (tl_inset_n t) (tl_inset_s t);
        cw \<leftarrow> (if tl_is_xwayland t
               then qdwin_client_extent_for_geometry iw sw gw (xw_frame_w (tl_xw t)) else Some iw);
        ch \<leftarrow> (if tl_is_xwayland t
               then qdwin_client_extent_for_geometry ih sh gh (xw_frame_h (tl_xw t)) else Some ih);
        Some (iw, ih, cw, ch)
      })"

definition qdwin_toplevel_apply_inset :: "u32 \<Rightarrow> qdwin \<Rightarrow> qdwin" where
  "qdwin_toplevel_apply_inset k s =
     (case qdwin_toplevel_from_handle s k of
        None \<Rightarrow> s
      | Some t0 \<Rightarrow>
          if tl_is_nested_proxy t0 then s
          else
            let t = qdwin_toplevel_seed_outer_from_committed s t0; (sw, sh) = content_size s t;
                (gw, gh) = tl_geometry t
            in (case inset_configure s t of
                  None \<Rightarrow> s\<lparr>ub := True\<rparr>
                | Some (iw, ih, cw, ch) \<Rightarrow>
                    let x = (tl_xw t)\<lparr>xw_target_w := iw, xw_target_h := ih,
                              xw_sent_w := cw, xw_sent_h := ch,
                              xw_before_w := or_default gw sw, xw_before_h := or_default gh sh,
                              xw_corrections := 0, xw_configure_pending := True\<rparr>;
                        f = (\<lambda>u. if tl_is_xwayland t then u\<lparr>tl_xw := x\<rparr> else u)
                    in emit (Window (set_size k cw ch))
                         (upd_tl k (\<lambda>u. f (qdwin_toplevel_seed_outer_from_committed s u)) s)))"

definition chrome_pos :: "toplevel \<Rightarrow> coord \<times> coord \<Rightarrow> int \<Rightarrow> int \<Rightarrow> side \<Rightarrow> coord \<times> coord" where
  "chrome_pos t p cw ch sd =
     (let (x, y) = p
      in case sd of
           QDWIN_SIDE_N \<Rightarrow> (x - of_int (tl_inset_w t), y - of_int (tl_inset_n t))
         | QDWIN_SIDE_S \<Rightarrow> (x - of_int (tl_inset_w t), y + of_int ch)
         | QDWIN_SIDE_W \<Rightarrow> (x - of_int (tl_inset_w t), y)
         | QDWIN_SIDE_E \<Rightarrow> (x + of_int cw, y))"

definition qdwin_toplevel_position_chrome :: "u32 \<Rightarrow> qdwin \<Rightarrow> qdwin" where
  "qdwin_toplevel_position_chrome k s =
     (case qdwin_toplevel_from_handle s k of
        None \<Rightarrow> s
      | Some t \<Rightarrow>
          (let p = view_pos s (tl_view t);
               (cw, ch) = (if tl_is_nested_proxy t
                           then (or_default (tl_last_width t) 800, or_default (tl_last_height t) 600)
                           else content_size s t)
           in fold (\<lambda>sd u. case tl_chrome t sd of None \<Rightarrow> u
                     | Some (_, v) \<Rightarrow> weston_view_set_position v (chrome_pos t p cw ch sd) u)
                all_sides s))"

text \<open>Resizing a nested proxy replaces its placeholder curtain by a new one.\<close>

definition qdwin_nested_proxy_set_geometry :: "u32 \<Rightarrow> int \<Rightarrow> int \<Rightarrow> qdwin \<Rightarrow> qdwin" where
  "qdwin_nested_proxy_set_geometry k w0 h0 s =
     (let w = or_default w0 800; h = or_default h0 600
      in case qdwin_toplevel_from_handle s k of
           None \<Rightarrow> s
         | Some t \<Rightarrow>
             (case tl_proxy_curtain t of
                None \<Rightarrow> s
              | Some cv \<Rightarrow>
                  if \<not> tl_is_nested_proxy t \<or> (tl_last_width t = w \<and> tl_last_height t = h) then s
                  else
                    let pos = view_pos s (tl_view t);
                        s1 = weston_view_destroy cv s;
                        v = next_id s1; sf = next_id s1 + 1;
                        s2 = s1\<lparr>next_id := next_id s1 + 2,
                                view_surface := (view_surface s1)(v := sf),
                                view_mapped := (view_mapped s1)(v := False),
                                view_pos := (view_pos s1)(v := pos),
                                surface_mapped := (surface_mapped s1)(sf := True),
                                surface_client := (surface_client s1)(sf := None),
                                surface_size := (surface_size s1)(sf := (w, h))\<rparr>;
                        s3 = weston_view_move_to_layer v
                               (if tl_pending_decision t then Held_layer else Normal_layer) s2;
                        s4 = upd_tl k (\<lambda>t. t\<lparr>tl_view := v, tl_proxy_curtain := Some v,
                                              tl_last_width := w, tl_last_height := h\<rparr>) s3
                    in send_shell 0 (toplevel_geometry k (c_int (fst pos)) (c_int (snd pos)) w h) s4))"

section \<open>Fullscreen\<close>

definition qdwin_toplevel_apply_fullscreen_geometry :: "u32 \<Rightarrow> weston_output option \<Rightarrow> qdwin \<Rightarrow> qdwin" where
  "qdwin_toplevel_apply_fullscreen_geometry k oo s =
     (case (qdwin_toplevel_from_handle s k, case oo of Some o' \<Rightarrow> Some o' | None \<Rightarrow> qdwin_primary_output s) of
        (Some t, Some o') \<Rightarrow>
          (let s1 = upd_tl k (\<lambda>t. t\<lparr>tl_outer_width := o_width o', tl_outer_height := o_height o'\<rparr>) s;
               s2 = (if tl_is_nested_proxy t
                     then qdwin_nested_proxy_set_geometry k (o_width o') (o_height o') s1
                     else emit (Window (set_fullscreen k True)) s1);
               v = (case qdwin_toplevel_from_handle s2 k of Some t' \<Rightarrow> tl_view t' | None \<Rightarrow> tl_view t);
               s3 = weston_view_set_position v
                      (at_int (o_x o' + tl_inset_w t) (o_y o' + tl_inset_n t)) s2
           in qdwin_toplevel_position_chrome k (qdwin_toplevel_apply_inset k s3))
      | _ \<Rightarrow> s)"

definition save_geometry :: "qdwin \<Rightarrow> toplevel \<Rightarrow> saved_geometry" where
  "save_geometry s t =
     (let t' = qdwin_toplevel_seed_outer_from_committed s t; (x, y) = view_pos s (tl_view t)
      in \<lparr>sg_w = tl_outer_width t', sg_h = tl_outer_height t', sg_x = x, sg_y = y\<rparr>)"

text \<open>Leaving a special state puts the saved rectangle back: size first, position, then the
  configure and the chrome.\<close>

definition restore_geometry :: "u32 \<Rightarrow> saved_geometry \<Rightarrow> qdwin \<Rightarrow> qdwin" where
  "restore_geometry k g s =
     (let s1 = upd_tl k (\<lambda>t. t\<lparr>tl_outer_width := sg_w g, tl_outer_height := sg_h g\<rparr>) s
      in case qdwin_toplevel_from_handle s1 k of
           None \<Rightarrow> s1
         | Some t \<Rightarrow>
             qdwin_toplevel_position_chrome k
               (qdwin_toplevel_apply_inset k
                 (weston_view_set_position (tl_view t) (sg_x g, sg_y g) s1)))"

definition send_state_of :: "u32 \<Rightarrow> qdwin \<Rightarrow> qdwin" where
  "send_state_of k s =
     (case qdwin_toplevel_from_handle s k of None \<Rightarrow> s | Some t \<Rightarrow> qdwin_send_toplevel_state t s)"

definition qdwin_toplevel_set_fullscreen :: "u32 \<Rightarrow> bool \<Rightarrow> weston_output option \<Rightarrow> qdwin \<Rightarrow> qdwin" where
  "qdwin_toplevel_set_fullscreen k fs oo s =
     (case qdwin_toplevel_from_handle s k of
        None \<Rightarrow> s
      | Some t \<Rightarrow>
          if tl_pending_decision t then s
          else if fs = has_ts (tl_state t) QDWIN_TS_FULLSCREEN
          then (if fs then qdwin_toplevel_apply_fullscreen_geometry k oo s else s)
          else if fs
          then (case (case oo of Some o' \<Rightarrow> Some o' | None \<Rightarrow> qdwin_primary_output s) of
                  None \<Rightarrow> s
                | Some o' \<Rightarrow>
                    (let g = save_geometry s t;
                         s1 = upd_tl k (\<lambda>u. (qdwin_toplevel_seed_outer_from_committed s u)\<lparr>tl_saved := g\<rparr>) s;
                         s2 = qdwin_toplevel_apply_fullscreen_geometry k (Some o') s1;
                         s3 = upd_tl k (\<lambda>t. t\<lparr>tl_state := tl_state t OR QDWIN_TS_FULLSCREEN\<rparr>) s2
                     in send_state_of k s3))
          else
            let g = tl_saved t;
                s1 = (if tl_is_nested_proxy t then qdwin_nested_proxy_set_geometry k (sg_w g) (sg_h g) s
                      else emit (Window (set_fullscreen k False)) s);
                s2 = restore_geometry k g s1;
                s3 = upd_tl k (\<lambda>t. t\<lparr>tl_state := tl_state t AND NOT QDWIN_TS_FULLSCREEN\<rparr>) s2
            in send_state_of k s3)"

section \<open>Maximise\<close>

definition fill_rect :: "u32 \<Rightarrow> rect \<Rightarrow> qdwin \<Rightarrow> qdwin" where
  "fill_rect k r s =
     (let (x, y, w, h) = r;
          s1 = upd_tl k (\<lambda>t. t\<lparr>tl_outer_width := w, tl_outer_height := h\<rparr>) s
      in case qdwin_toplevel_from_handle s1 k of
           None \<Rightarrow> s1
         | Some t \<Rightarrow>
             qdwin_toplevel_position_chrome k
               (qdwin_toplevel_apply_inset k
                 (weston_view_set_position (tl_view t)
                    (at_int (x + tl_inset_w t) (y + tl_inset_n t)) s1)))"

definition qdwin_toplevel_set_maximized :: "u32 \<Rightarrow> bool \<Rightarrow> qdwin \<Rightarrow> qdwin" where
  "qdwin_toplevel_set_maximized k mx s =
     (case qdwin_toplevel_from_handle s k of
        None \<Rightarrow> s
      | Some t \<Rightarrow>
          if tl_pending_decision t \<or> mx = has_ts (tl_state t) QDWIN_TS_MAXIMIZED then s
          else if mx
          then (case qdwin_primary_output s of
                  None \<Rightarrow> s
                | Some o' \<Rightarrow>
                    (let g = save_geometry s t;
                         s1 = upd_tl k (\<lambda>u. (qdwin_toplevel_seed_outer_from_committed s u)\<lparr>tl_saved := g\<rparr>) s;
                         (wx, wy, ww, wh) = qdwin_output_work_area s1 o';
                         s2 = (if tl_is_nested_proxy t then qdwin_nested_proxy_set_geometry k ww wh s1
                               else emit (Window (set_maximized k True)) s1);
                         s3 = fill_rect k (wx, wy, ww, wh) s2;
                         s4 = upd_tl k (\<lambda>t. t\<lparr>tl_state := tl_state t OR QDWIN_TS_MAXIMIZED\<rparr>) s3
                     in send_state_of k s4))
          else
            let g = tl_saved t;
                s1 = (if tl_is_nested_proxy t then qdwin_nested_proxy_set_geometry k (sg_w g) (sg_h g) s
                      else emit (Window (set_maximized k False)) s);
                s2 = restore_geometry k g s1;
                s3 = upd_tl k (\<lambda>t. t\<lparr>tl_state := tl_state t AND NOT QDWIN_TS_MAXIMIZED\<rparr>) s2
            in send_state_of k s3)"

section \<open>Tiling\<close>

abbreviation QDWIN_TILE_NONE :: u32 where "QDWIN_TILE_NONE \<equiv> 0"
abbreviation QDWIN_TILE_LEFT :: u32 where "QDWIN_TILE_LEFT \<equiv> 1"
abbreviation QDWIN_TILE_RIGHT :: u32 where "QDWIN_TILE_RIGHT \<equiv> 2"

definition qdwin_toplevel_clear_tiled :: "u32 \<Rightarrow> qdwin \<Rightarrow> qdwin" where
  "qdwin_toplevel_clear_tiled k = upd_tl k (\<lambda>t. t\<lparr>tl_tiled := QDWIN_TILE_NONE\<rparr>)"

text \<open>The half of the work area a tile takes: the left half rounds down, the right half is the
  rest. The work area is never empty, so C division is integer division here.\<close>

definition tile_rect :: "u32 \<Rightarrow> rect \<Rightarrow> rect" where
  "tile_rect edge r =
     (let (wx, wy, ww, wh) = r; left_w = ww sdiv 2
      in if edge = QDWIN_TILE_RIGHT then (wx + left_w, wy, ww - left_w, wh)
         else (wx, wy, left_w, wh))"

text \<open>Position and size of a tile; unlike maximise, a proxy is resized after it was placed.\<close>

definition place_tile :: "u32 \<Rightarrow> coord \<times> coord \<Rightarrow> int \<Rightarrow> int \<Rightarrow> qdwin \<Rightarrow> qdwin" where
  "place_tile k p w h s =
     (let s1 = upd_tl k (\<lambda>t. t\<lparr>tl_outer_width := w, tl_outer_height := h\<rparr>) s
      in case qdwin_toplevel_from_handle s1 k of
           None \<Rightarrow> s1
         | Some t \<Rightarrow>
             (let s2 = weston_view_set_position (tl_view t) p s1;
                  s3 = (if tl_is_nested_proxy t then qdwin_nested_proxy_set_geometry k w h s2
                        else qdwin_toplevel_apply_inset k s2)
              in qdwin_toplevel_position_chrome k s3))"

text \<open>The second half of the request, after the window has left a maximised or fullscreen state:
  the floating geometry is saved by the first tile only.\<close>

definition tile_half :: "u32 \<Rightarrow> u32 \<Rightarrow> qdwin \<Rightarrow> qdwin" where
  "tile_half k edge s =
     (case qdwin_toplevel_from_handle s k of
        None \<Rightarrow> s
      | Some t \<Rightarrow>
          (case qdwin_output_at_global s (fst (view_pos s (tl_view t))) (snd (view_pos s (tl_view t))) of
             None \<Rightarrow> s
           | Some o' \<Rightarrow>
               (let s1 = (if tl_tiled t = QDWIN_TILE_NONE
                          then upd_tl k (\<lambda>u. (qdwin_toplevel_seed_outer_from_committed s u)
                                               \<lparr>tl_tile_saved := save_geometry s t\<rparr>) s
                          else s);
                    (tx, ty, tw, th) = tile_rect edge (qdwin_output_work_area s1 o');
                    s2 = place_tile k (at_int (tx + tl_inset_w t) (ty + tl_inset_n t)) tw th s1
                in upd_tl k (\<lambda>t. t\<lparr>tl_tiled := edge\<rparr>) s2)))"

definition qdwin_toplevel_set_tiled :: "u32 \<Rightarrow> u32 \<Rightarrow> qdwin \<Rightarrow> qdwin" where
  "qdwin_toplevel_set_tiled k edge s =
     (case qdwin_toplevel_from_handle s k of
        None \<Rightarrow> s
      | Some t \<Rightarrow>
          if tl_pending_decision t then s
          else if edge = QDWIN_TILE_LEFT \<or> edge = QDWIN_TILE_RIGHT
          then
            let s1 = (if has_ts (tl_state t) QDWIN_TS_MAXIMIZED
                      then qdwin_toplevel_set_maximized k False s else s);
                s2 = (if has_ts (tl_state t) QDWIN_TS_FULLSCREEN
                      then qdwin_toplevel_set_fullscreen k False None s1 else s1)
            in tile_half k edge s2
          else if tl_tiled t = QDWIN_TILE_NONE then s
          else
            let g = tl_tile_saved t
            in qdwin_toplevel_clear_tiled k (place_tile k (sg_x g, sg_y g) (sg_w g) (sg_h g) s))"

section \<open>Placement of new windows\<close>

abbreviation QDWIN_PLACE_CENTER :: u32 where "QDWIN_PLACE_CENTER \<equiv> 0"
abbreviation QDWIN_PLACE_UNDER_MOUSE :: u32 where "QDWIN_PLACE_UNDER_MOUSE \<equiv> 1"
abbreviation QDWIN_PLACE_SMART :: u32 where "QDWIN_PLACE_SMART \<equiv> 2"
abbreviation QDWIN_PLACE_CASCADE :: u32 where "QDWIN_PLACE_CASCADE \<equiv> 3"

definition rect_overlap :: "rect \<Rightarrow> rect \<Rightarrow> int" where
  "rect_overlap r q =
     (let (ox, oy, sw, sh) = r; (vx, vy, tw, th) = q;
          ix = max ox vx; iy = max oy vy;
          ax = min (ox + sw) (vx + tw); ay = min (oy + sh) (vy + th)
      in if ix < ax \<and> iy < ay then (ax - ix) * (ay - iy) else 0)"

definition content_rect :: "qdwin \<Rightarrow> toplevel \<Rightarrow> rect" where
  "content_rect s t =
     (let (vx, vy) = view_pos s (tl_view t); (tw, th) = content_size s t
      in (c_int vx, c_int vy, tw, th))"

definition qdwin_placement_overlap :: "qdwin \<Rightarrow> u32 \<Rightarrow> int \<Rightarrow> int \<Rightarrow> int \<Rightarrow> int \<Rightarrow> int" where
  "qdwin_placement_overlap s k ox oy sw sh =
     (\<Sum>t \<leftarrow> [t \<leftarrow> toplevels s. tl_handle t \<noteq> k \<and> \<not> tl_is_nested_proxy t \<and> tl_mapped t].
        rect_overlap (ox, oy, sw, sh) (content_rect s t))"

text \<open>The scan over the candidate grid: a slot replaces the best one so far only with strictly
  less overlap, and a free slot ends the scan.\<close>

fun smart_scan :: "(int \<times> int \<Rightarrow> int) \<Rightarrow> (int \<times> int) list \<Rightarrow> int \<Rightarrow> int \<times> int \<Rightarrow> int \<times> int" where
  "smart_scan f [] best_overlap best = best"
| "smart_scan f (c # cs) best_overlap best =
     (if f c < best_overlap then (if f c = 0 then c else smart_scan f cs (f c) c)
      else smart_scan f cs best_overlap best)"

definition smart_grid :: "rect \<Rightarrow> int \<Rightarrow> int \<Rightarrow> (int \<times> int) list" where
  "smart_grid wa sw sh =
     (let (wx, wy, ww, wh) = wa
      in [(max wx (wx + ((ww - sw) * gx) sdiv 4), max wy (wy + ((wh - sh) * gy) sdiv 4)).
            gy \<leftarrow> [0 .. 4], gx \<leftarrow> [0 .. 4]])"

definition qdwin_compute_placement :: "qdwin \<Rightarrow> u32 \<Rightarrow> int \<times> int \<Rightarrow> weston_output \<Rightarrow> int \<times> int" where
  "qdwin_compute_placement s k sz o' =
     (let sw = or_default (fst sz) 800; sh = or_default (snd sz) 600;
          (wx, wy, ww, wh) = qdwin_output_work_area s o';
          cx = wx + (ww - sw) sdiv 2; cy = wy + (wh - sh) sdiv 2;
          pl = placement (wm_policy s);
          ov = (\<lambda>(x, y). qdwin_placement_overlap s k x y sw sh);
          (px, py) =
            (if pl = QDWIN_PLACE_CENTER then (cx, cy)
             else if pl = QDWIN_PLACE_UNDER_MOUSE
             then (case qdwin_first_pointer s of
                     None \<Rightarrow> (cx, cy)
                   | Some (mx, my) \<Rightarrow> (c_int mx - sw sdiv 2, c_int my - sh sdiv 2))
             else if pl = QDWIN_PLACE_SMART
             then (if 0 < ov (cx, cy)
                   then smart_scan ov (smart_grid (wx, wy, ww, wh) sw sh) (ov (cx, cy)) (cx, cy)
                   else (cx, cy))
             else
               let siblings = int (length [t \<leftarrow> toplevels s. tl_handle t \<noteq> k \<and> \<not> tl_is_nested_proxy t \<and> tl_mapped t]);
                   offset = (siblings * 40) mod 200
               in (cx + offset, cy + offset))
      in (max wx px, max wy py))"

section \<open>Snapping\<close>

abbreviation QDWIN_SNAP_DIST_MIN :: u32 where "QDWIN_SNAP_DIST_MIN \<equiv> 1"
abbreviation QDWIN_SNAP_DIST_MAX :: u32 where "QDWIN_SNAP_DIST_MAX \<equiv> 64"

definition qdwin_snap1 :: "coord \<Rightarrow> u32 \<Rightarrow> coord \<times> bool \<Rightarrow> coord \<times> bool" where
  "qdwin_snap1 target dst vd =
     (let (v, did) = vd
      in if \<not> did \<and> \<bar>v - target\<bar> \<le> of_nat (unat dst) then (target, True) else (v, did))"

definition outer_extent :: "qdwin \<Rightarrow> toplevel \<Rightarrow> int \<times> int" where
  "outer_extent s t =
     (let (sw, sh) = content_size s t
      in (if 0 < tl_outer_width t then tl_outer_width t else sw + tl_inset_w t + tl_inset_e t,
          if 0 < tl_outer_height t then tl_outer_height t else sh + tl_inset_n t + tl_inset_s t))"

definition snap_targets_x :: "qdwin \<Rightarrow> u32 \<Rightarrow> int \<Rightarrow> coord list" where
  "snap_targets_x s k ow =
     concat [let tleft = fst (view_pos s (tl_view t)) - of_int (tl_inset_w t)
             in [tleft + of_int (fst (outer_extent s t)), tleft - of_int ow, tleft].
             t \<leftarrow> toplevels s, tl_handle t \<noteq> k \<and> \<not> tl_is_nested_proxy t \<and> tl_mapped t
               \<and> \<not> has_ts (tl_state t) QDWIN_TS_MINIMIZED \<and> tl_workspace t = active_workspace s]"

definition snap_targets_y :: "qdwin \<Rightarrow> u32 \<Rightarrow> int \<Rightarrow> coord list" where
  "snap_targets_y s k oh =
     concat [let ttop = snd (view_pos s (tl_view t)) - of_int (tl_inset_n t)
             in [ttop + of_int (snd (outer_extent s t)), ttop - of_int oh, ttop].
             t \<leftarrow> toplevels s, tl_handle t \<noteq> k \<and> \<not> tl_is_nested_proxy t \<and> tl_mapped t
               \<and> \<not> has_ts (tl_state t) QDWIN_TS_MINIMIZED \<and> tl_workspace t = active_workspace s]"

definition snap_axis :: "u32 \<Rightarrow> coord list \<Rightarrow> coord \<Rightarrow> coord" where
  "snap_axis dst ts v = fst (fold (\<lambda>tg. qdwin_snap1 tg dst) ts (v, False))"

definition clamp_dist :: "u32 \<Rightarrow> u32" where
  "clamp_dist d = (if d < QDWIN_SNAP_DIST_MIN then QDWIN_SNAP_DIST_MIN
                   else if QDWIN_SNAP_DIST_MAX < d then QDWIN_SNAP_DIST_MAX else d)"

definition qdwin_snap_move_position :: "qdwin \<Rightarrow> toplevel \<Rightarrow> coord \<times> coord \<Rightarrow> coord \<times> coord" where
  "qdwin_snap_move_position s t p =
     (if \<not> snap_enabled (wm_policy s) then p
      else
        let dst = clamp_dist (snap_distance (wm_policy s)); (ow, oh) = outer_extent s t
        in if ow \<le> 0 \<or> oh \<le> 0 then p
           else
             let left = fst p - of_int (tl_inset_w t); top' = snd p - of_int (tl_inset_n t)
             in case qdwin_output_at_global s left top' of
                  None \<Rightarrow> p
                | Some o' \<Rightarrow>
                    (let (wx, wy, ww, wh) = qdwin_output_work_area s o';
                         left' = snap_axis dst
                           ([of_int wx, of_int (wx + ww - ow)] @ snap_targets_x s (tl_handle t) ow) left;
                         top'' = snap_axis dst
                           ([of_int wy, of_int (wy + wh - oh)] @ snap_targets_y s (tl_handle t) oh) top'
                     in (left' + of_int (tl_inset_w t), top'' + of_int (tl_inset_n t))))"

section \<open>Panels coming and going\<close>

text \<open>A maximised window is moved back to the work area when it changes.\<close>

definition refit_maximized :: "u32 \<Rightarrow> qdwin \<Rightarrow> qdwin" where
  "refit_maximized k s =
     (case (qdwin_toplevel_from_handle s k, qdwin_primary_output s) of
        (Some t, Some o') \<Rightarrow>
          if has_ts (tl_state t) QDWIN_TS_MAXIMIZED
          then
            let (wx, wy, ww, wh) = qdwin_output_work_area s o';
                s1 = upd_tl k (\<lambda>t. t\<lparr>tl_outer_width := ww, tl_outer_height := wh\<rparr>) s;
                s2 = weston_view_set_position (tl_view t) (at_int wx wy) s1
            in qdwin_toplevel_position_chrome k (qdwin_toplevel_apply_inset k s2)
          else s
      | _ \<Rightarrow> s)"

definition replace_panel :: "nat \<Rightarrow> qdwin \<Rightarrow> qdwin" where
  "replace_panel i s =
     (let s1 = upd_panel i (\<lambda>p. if p_output p = None
                 then p\<lparr>p_output := map_option o_id (qdwin_primary_output s)\<rparr> else p) s
      in case find (\<lambda>p. p_id p = i) (panels s1) of
           None \<Rightarrow> s1
         | Some p \<Rightarrow> if p_output p = None then s1 else qdwin_panel_place p s1)"

definition qdwin_panels_on_output_change :: "qdwin \<Rightarrow> qdwin" where
  "qdwin_panels_on_output_change s =
     (let s1 = fold replace_panel (map p_id (panels s)) s
      in fold refit_maximized (map tl_handle (toplevels s1)) s1)"

text \<open>The request carries the new object's number and the surface, if any.\<close>

definition qdwin_handle_attach_panel ::
  "wl_resource \<Rightarrow> surface option \<Rightarrow> u32 \<Rightarrow> u32 \<Rightarrow> u32 \<Rightarrow> qdwin \<Rightarrow> qdwin" where
  "qdwin_handle_attach_panel r sf edge thickness exclusive =
     qdwin_shell_require_bound r (\<lambda>s.
       case sf of
         None \<Rightarrow> s
       | Some sf \<Rightarrow>
           if 3 < edge then s
           else
             let i = next_id s; v = next_id s + 1;
                 p = \<lparr>p_id = i, p_surface = Some sf, p_view = Some v,
                      p_output = map_option o_id (qdwin_primary_output s), p_edge = edge,
                      p_thickness = thickness, p_exclusive = exclusive, p_last = None\<rparr>;
                 s1 = s\<lparr>next_id := next_id s + 2, view_surface := (view_surface s)(v := sf),
                        view_mapped := (view_mapped s)(v := False)\<rparr>;
                 s2 = weston_view_move_to_layer v Panel_layer s1;
                 s3 = s2\<lparr>panels := p # panels s2\<rparr>
             in qdwin_panels_on_output_change (qdwin_panel_place p s3))"

definition destroy_view_opt :: "view option \<Rightarrow> qdwin \<Rightarrow> qdwin" where
  "destroy_view_opt vo s = (case vo of None \<Rightarrow> s | Some v \<Rightarrow> weston_view_destroy v s)"

definition qdwin_panel_surface_destroyed :: "nat \<Rightarrow> qdwin \<Rightarrow> qdwin" where
  "qdwin_panel_surface_destroyed i s =
     (case find (\<lambda>p. p_id p = i) (panels s) of
        None \<Rightarrow> s
      | Some p \<Rightarrow>
          (let s1 = destroy_view_opt (p_view p) s;
               s2 = upd_panel i (\<lambda>p. p\<lparr>p_view := None, p_surface := None\<rparr>) s1
           in qdwin_panels_on_output_change (emit (Shell (panel_dismissed i)) s2)))"

definition qdwin_panel_resource_destroyed :: "nat \<Rightarrow> qdwin \<Rightarrow> qdwin" where
  "qdwin_panel_resource_destroyed i s =
     (case find (\<lambda>p. p_id p = i) (panels s) of
        None \<Rightarrow> s
      | Some p \<Rightarrow>
          (let s1 = destroy_view_opt (p_view p) s
           in qdwin_panels_on_output_change (s1\<lparr>panels := [q \<leftarrow> panels s1. p_id q \<noteq> i]\<rparr>)))"

section \<open>Requests\<close>

text \<open>The shape the window requests of the shell share: refused while the session is locked,
  then a look-up of the handle. An unknown handle is only logged by some requests and a
  protocol error for others.\<close>

definition unlocked_request :: "wl_resource \<Rightarrow> (qdwin \<Rightarrow> qdwin) \<Rightarrow> qdwin \<Rightarrow> qdwin" where
  "unlocked_request r body =
     qdwin_shell_require_bound r (\<lambda>s.
       if locked s then emit (Post_error (res_id r) ERROR_LOCKED) s else body s)"

definition with_handle :: "u32 \<Rightarrow> (qdwin \<Rightarrow> qdwin) \<Rightarrow> (toplevel \<Rightarrow> qdwin \<Rightarrow> qdwin) \<Rightarrow> qdwin \<Rightarrow> qdwin" where
  "with_handle k missing body s =
     (case qdwin_toplevel_from_handle s k of None \<Rightarrow> missing s | Some t \<Rightarrow> body t s)"

definition qdwin_handle_request_maximize :: "wl_resource \<Rightarrow> u32 \<Rightarrow> u32 \<Rightarrow> qdwin \<Rightarrow> qdwin" where
  "qdwin_handle_request_maximize r k m =
     unlocked_request r (with_handle k id (\<lambda>_. qdwin_toplevel_set_maximized k (m \<noteq> 0)))"

definition qdwin_handle_request_fullscreen :: "wl_resource \<Rightarrow> u32 \<Rightarrow> u32 \<Rightarrow> qdwin \<Rightarrow> qdwin" where
  "qdwin_handle_request_fullscreen r k f =
     unlocked_request r
       (with_handle k (emit (Post_error (res_id r) ERROR_INVALID_HANDLE))
          (\<lambda>_. qdwin_toplevel_set_fullscreen k (f \<noteq> 0) None))"

definition qdwin_handle_request_tile :: "wl_resource \<Rightarrow> u32 \<Rightarrow> u32 \<Rightarrow> qdwin \<Rightarrow> qdwin" where
  "qdwin_handle_request_tile r k edge =
     unlocked_request r
       (with_handle k (emit (Post_error (res_id r) ERROR_INVALID_HANDLE))
          (\<lambda>_. qdwin_toplevel_set_tiled k edge))"

definition clamp_to_output :: "qdwin \<Rightarrow> int \<Rightarrow> int \<Rightarrow> int \<times> int" where
  "clamp_to_output s x y =
     (case (case find (\<lambda>o'. o_x o' \<le> x \<and> x < o_x o' + o_width o' \<and>
                            o_y o' \<le> y \<and> y < o_y o' + o_height o') (outputs s) of
              Some o' \<Rightarrow> Some o' | None \<Rightarrow> qdwin_primary_output s) of
        None \<Rightarrow> (x, y)
      | Some o' \<Rightarrow>
          (min (max x (o_x o')) (o_x o' + o_width o' - 1),
           min (max y (o_y o')) (o_y o' + o_height o' - 1)))"

definition qdwin_handle_request_set_position :: "wl_resource \<Rightarrow> u32 \<Rightarrow> int \<Rightarrow> int \<Rightarrow> qdwin \<Rightarrow> qdwin" where
  "qdwin_handle_request_set_position r k x y =
     unlocked_request r (with_handle k id (\<lambda>t s.
       if tl_pending_decision t \<or> has_ts (tl_state t) (QDWIN_TS_MAXIMIZED OR QDWIN_TS_FULLSCREEN)
          \<or> tl_tiled t \<noteq> QDWIN_TILE_NONE \<or> move_grab s = Some k
       then s
       else
         let (cx, cy) = clamp_to_output s x y;
             s1 = weston_view_set_position (tl_view t) (at_int (cx + tl_inset_w t) (cy + tl_inset_n t)) s
         in send_shell 0 (toplevel_geometry k cx cy (tl_last_width t) (tl_last_height t))
              (qdwin_toplevel_position_chrome k s1)))"

definition qdwin_surface_maximized_requested :: "u32 \<Rightarrow> bool \<Rightarrow> qdwin \<Rightarrow> qdwin" where
  "qdwin_surface_maximized_requested k m s =
     (if locked s then s else qdwin_toplevel_set_maximized k m s)"

definition qdwin_surface_fullscreen_requested :: "u32 \<Rightarrow> bool \<Rightarrow> weston_output option \<Rightarrow> qdwin \<Rightarrow> qdwin" where
  "qdwin_surface_fullscreen_requested = qdwin_toplevel_set_fullscreen"

section \<open>Lemmas\<close>

lemma find_upd_where:
  assumes "\<And>x. g x = k \<Longrightarrow> g (f x) = k"
  shows "find (\<lambda>x. g x = j) (upd_where (\<lambda>x. g x = k) f xs) =
         (if j = k then map_option f (find (\<lambda>x. g x = k) xs) else find (\<lambda>x. g x = j) xs)"
  using assms by (induction xs) auto

lemma from_handle_upd_tl:
  assumes "\<And>t. tl_handle t = k \<Longrightarrow> tl_handle (f t) = k"
  shows "qdwin_toplevel_from_handle (upd_tl k f s) j =
         (if j = k then map_option f (qdwin_toplevel_from_handle s k)
          else qdwin_toplevel_from_handle s j)"
  using find_upd_where [of tl_handle k f j] assms
  by (simp add: qdwin_toplevel_from_handle_def upd_tl_def)

lemma seed_handle [simp]: "tl_handle (qdwin_toplevel_seed_outer_from_committed s t) = tl_handle t"
  by (simp add: qdwin_toplevel_seed_outer_from_committed_def Let_def case_prod_beta)

lemma from_handle_handle: "qdwin_toplevel_from_handle s k = Some t \<Longrightarrow> tl_handle t = k"
  by (auto simp: qdwin_toplevel_from_handle_def find_Some_iff)

lemma from_handle_mem: "qdwin_toplevel_from_handle s k = Some t \<Longrightarrow> t \<in> set (toplevels s)"
  by (auto simp: qdwin_toplevel_from_handle_def find_Some_iff)

lemma from_handle_emit [simp]:
  "qdwin_toplevel_from_handle (emit e s) k = qdwin_toplevel_from_handle s k"
  "qdwin_toplevel_from_handle (send_shell n f s) k = qdwin_toplevel_from_handle s k"
  by (simp_all add: qdwin_toplevel_from_handle_def)

lemma from_handle_set_position [simp]:
  "qdwin_toplevel_from_handle (weston_view_set_position v p s) k = qdwin_toplevel_from_handle s k"
  by (simp add: qdwin_toplevel_from_handle_def weston_view_set_position_def)

lemma view_pos_set_position [simp]:
  "view_pos (weston_view_set_position v p s) = (view_pos s)(v := p)"
  by (simp add: weston_view_set_position_def)

lemma work_area_cong:
  assumes "panels a = panels b" and "layer_surfaces a = layer_surfaces b"
  shows "qdwin_output_work_area a o' = qdwin_output_work_area b o'"
  using assms by (simp add: qdwin_output_work_area_def qdwin_layer_shell_subtract_zones_def)

lemma position_chrome_from_handle [simp]:
  "qdwin_toplevel_from_handle (qdwin_toplevel_position_chrome k s) j = qdwin_toplevel_from_handle s j"
proof -
  have "qdwin_toplevel_from_handle (fold (\<lambda>sd u. case c sd of None \<Rightarrow> u
            | Some (a, v) \<Rightarrow> weston_view_set_position v (q sd) u) xs s) j
        = qdwin_toplevel_from_handle s j" for c :: "side \<Rightarrow> (surface \<times> view) option" and q xs
    by (rule fold_keeps [where g = "\<lambda>s. qdwin_toplevel_from_handle s j"]) (auto split: option.split)
  then show ?thesis
    by (simp add: qdwin_toplevel_position_chrome_def Let_def case_prod_beta split: option.split)
qed

lemma chrome_view_mem: "tl_chrome t sd = Some (a, w) \<Longrightarrow> w \<in> set (chrome_views t)"
  by (cases sd) (simp_all add: chrome_views_def all_sides_def List.map_filter_simps split: option.split)

lemma position_chrome_view_pos:
  assumes "qdwin_toplevel_from_handle s k = Some t" and "v \<notin> set (chrome_views t)"
  shows "view_pos (qdwin_toplevel_position_chrome k s) v = view_pos s v"
proof -
  have *: "w \<noteq> v" if "tl_chrome t sd = Some (a, w)" for sd a w
    using chrome_view_mem [OF that] assms(2) by blast
  have "view_pos (fold (\<lambda>sd u. case tl_chrome t sd of None \<Rightarrow> u
            | Some (a, w) \<Rightarrow> weston_view_set_position w (q sd) u) xs s) v = view_pos s v" for q xs
    by (rule fold_keeps [where g = "\<lambda>s. view_pos s v"]) (auto split: option.split dest: *)
  then show ?thesis
    using assms(1) by (simp add: qdwin_toplevel_position_chrome_def Let_def case_prod_beta)
qed

lemma apply_inset_sized:
  assumes "qdwin_toplevel_from_handle s k = Some t"
    and "0 < tl_outer_width t" and "0 < tl_outer_height t"
  shows "\<exists>x. qdwin_toplevel_from_handle (qdwin_toplevel_apply_inset k s) k = Some (t\<lparr>tl_xw := x\<rparr>)"
    and "view_pos (qdwin_toplevel_apply_inset k s) = view_pos s"
proof -
  have h: "tl_handle t = k"
    using assms(1) by (rule from_handle_handle)
  have self: "\<exists>x. t = t\<lparr>tl_xw := x\<rparr>"
    by (rule exI [of _ "tl_xw t"]) simp
  have seed: "qdwin_toplevel_seed_outer_from_committed s t = t"
    using assms by (simp add: qdwin_toplevel_seed_outer_from_committed_def)
  have ub: "qdwin_toplevel_from_handle (s\<lparr>ub := True\<rparr>) k = Some t"
    using assms(1) by (simp add: qdwin_toplevel_from_handle_def)
  show "\<exists>x. qdwin_toplevel_from_handle (qdwin_toplevel_apply_inset k s) k = Some (t\<lparr>tl_xw := x\<rparr>)"
    using assms(1) h ub self
    by (auto simp: qdwin_toplevel_apply_inset_def seed seed_handle Let_def from_handle_upd_tl
             split: option.split prod.split)
  show "view_pos (qdwin_toplevel_apply_inset k s) = view_pos s"
    using assms(1) by (auto simp: qdwin_toplevel_apply_inset_def seed Let_def split: option.split prod.split)
qed

lemma placed_sized:
  fixes p :: "coord \<times> coord"
  assumes "qdwin_toplevel_from_handle s k = Some t" and "0 < tl_outer_width t" and "0 < tl_outer_height t"
    and "tl_view t \<notin> set (chrome_views t)"
  defines "s' \<equiv> qdwin_toplevel_position_chrome k
                   (qdwin_toplevel_apply_inset k (weston_view_set_position (tl_view t) p s))"
  shows "\<exists>x. qdwin_toplevel_from_handle s' k = Some (t\<lparr>tl_xw := x\<rparr>)"
    and "view_pos s' (tl_view t) = p"
proof -
  let ?s1 = "weston_view_set_position (tl_view t) p s"
  have f: "qdwin_toplevel_from_handle ?s1 k = Some t"
    using assms(1) by simp
  obtain x where x: "qdwin_toplevel_from_handle (qdwin_toplevel_apply_inset k ?s1) k = Some (t\<lparr>tl_xw := x\<rparr>)"
    using apply_inset_sized(1) [OF f assms(2,3)] by blast
  show "\<exists>x. qdwin_toplevel_from_handle s' k = Some (t\<lparr>tl_xw := x\<rparr>)"
    using x by (auto simp: s'_def)
  have "tl_view t \<notin> set (chrome_views (t\<lparr>tl_xw := x\<rparr>))"
    using assms(4) by (simp add: chrome_views_def)
  then show "view_pos s' (tl_view t) = p"
    using position_chrome_view_pos [OF x] apply_inset_sized(2) [OF f assms(2,3)] by (simp add: s'_def)
qed

lemma chrome_views_upd [simp]:
  "chrome_views (t\<lparr>tl_outer_width := a\<rparr>) = chrome_views t"
  "chrome_views (t\<lparr>tl_outer_height := b\<rparr>) = chrome_views t"
  "chrome_views (t\<lparr>tl_xw := x\<rparr>) = chrome_views t"
  "chrome_views (t\<lparr>tl_saved := g\<rparr>) = chrome_views t"
  "chrome_views (t\<lparr>tl_tile_saved := g\<rparr>) = chrome_views t"
  "chrome_views (t\<lparr>tl_state := w\<rparr>) = chrome_views t"
  "chrome_views (t\<lparr>tl_tiled := e\<rparr>) = chrome_views t"
  by (simp_all add: chrome_views_def)

lemma fill_rect_sized:
  assumes "qdwin_toplevel_from_handle s k = Some t" and "0 < w" and "0 < h"
    and "tl_view t \<notin> set (chrome_views t)"
  shows "\<exists>a. qdwin_toplevel_from_handle (fill_rect k (x, y, w, h) s) k
              = Some (t\<lparr>tl_outer_width := w, tl_outer_height := h, tl_xw := a\<rparr>)"
    and "view_pos (fill_rect k (x, y, w, h) s) (tl_view t) = at_int (x + tl_inset_w t) (y + tl_inset_n t)"
proof -
  let ?f = "\<lambda>t :: toplevel. t\<lparr>tl_outer_width := w, tl_outer_height := h\<rparr>"
  have f: "qdwin_toplevel_from_handle (upd_tl k ?f s) k = Some (?f t)"
    using assms(1) by (simp add: from_handle_upd_tl)
  note p = placed_sized [OF f, of "at_int (x + tl_inset_w t) (y + tl_inset_n t)"]
  show "\<exists>a. qdwin_toplevel_from_handle (fill_rect k (x, y, w, h) s) k
              = Some (t\<lparr>tl_outer_width := w, tl_outer_height := h, tl_xw := a\<rparr>)"
    using p(1) assms f by (simp add: fill_rect_def Let_def)
  show "view_pos (fill_rect k (x, y, w, h) s) (tl_view t) = at_int (x + tl_inset_w t) (y + tl_inset_n t)"
    using p(2) assms f by (simp add: fill_rect_def Let_def)
qed

lemma restore_geometry_sized:
  assumes "qdwin_toplevel_from_handle s k = Some t" and "0 < sg_w g" and "0 < sg_h g"
    and "tl_view t \<notin> set (chrome_views t)"
  shows "\<exists>a. qdwin_toplevel_from_handle (restore_geometry k g s) k
              = Some (t\<lparr>tl_outer_width := sg_w g, tl_outer_height := sg_h g, tl_xw := a\<rparr>)"
    and "view_pos (restore_geometry k g s) (tl_view t) = (sg_x g, sg_y g)"
proof -
  let ?f = "\<lambda>t :: toplevel. t\<lparr>tl_outer_width := sg_w g, tl_outer_height := sg_h g\<rparr>"
  have f: "qdwin_toplevel_from_handle (upd_tl k ?f s) k = Some (?f t)"
    using assms(1) by (simp add: from_handle_upd_tl)
  note p = placed_sized [OF f, of "(sg_x g, sg_y g)"]
  show "\<exists>a. qdwin_toplevel_from_handle (restore_geometry k g s) k
              = Some (t\<lparr>tl_outer_width := sg_w g, tl_outer_height := sg_h g, tl_xw := a\<rparr>)"
    using p(1) assms f by (simp add: restore_geometry_def Let_def)
  show "view_pos (restore_geometry k g s) (tl_view t) = (sg_x g, sg_y g)"
    using p(2) assms f by (simp add: restore_geometry_def Let_def)
qed

lemma work_area_pos:
  "qdwin_output_work_area s o' = (x, y, w, h) \<Longrightarrow> 0 < w \<and> 0 < h"
  by (auto simp: qdwin_output_work_area_def Let_def split: prod.splits)

lemma clear_bit: "w AND b = 0 \<Longrightarrow> (w OR b) AND NOT b = (w :: u32)"
  by (intro bit_word_eqI) (auto simp: bit_simps bit_eq_iff)

lemma has_ts_set [simp]:
  "has_ts (w OR QDWIN_TS_MAXIMIZED) QDWIN_TS_MAXIMIZED"
  "has_ts (w OR QDWIN_TS_FULLSCREEN) QDWIN_TS_FULLSCREEN"
  by (simp_all add: has_ts_def bit.conj_disj_distrib2)

lemma has_ts_clear:
  "\<not> has_ts w QDWIN_TS_MAXIMIZED \<Longrightarrow> (w OR QDWIN_TS_MAXIMIZED) AND - 2 = w"
  "\<not> has_ts w QDWIN_TS_FULLSCREEN \<Longrightarrow> (w OR QDWIN_TS_FULLSCREEN) AND - 3 = w"
  using clear_bit [of w 1] clear_bit [of w 2] by (simp_all add: has_ts_def)

lemma seed_id [simp]:
  "0 < tl_outer_width t \<Longrightarrow> 0 < tl_outer_height t \<Longrightarrow> qdwin_toplevel_seed_outer_from_committed s t = t"
  by (simp add: qdwin_toplevel_seed_outer_from_committed_def)

lemma seatless_send_state_of [simp]: "seatless (send_state_of k s) = seatless s"
  by (simp add: send_state_of_def qdwin_send_toplevel_state_def split: option.split)

lemmas send_state_of_frames [simp] = seatless_frame [OF seatless_send_state_of]

lemma send_state_of_from_handle [simp]:
  "qdwin_toplevel_from_handle (send_state_of k s) j = qdwin_toplevel_from_handle s j"
  by (simp add: qdwin_toplevel_from_handle_def)

text \<open>A window that maximise and fullscreen act on: an ordinary one, past the admin decision,
  with a known outer size, whose content view is not one of its own chrome views.\<close>

definition floatable :: "toplevel \<Rightarrow> bool" where
  "floatable t \<longleftrightarrow> \<not> tl_is_nested_proxy t \<and> \<not> tl_pending_decision t \<and>
     0 < tl_outer_width t \<and> 0 < tl_outer_height t \<and> tl_view t \<notin> set (chrome_views t)"

lemma maximize_on:
  assumes "qdwin_toplevel_from_handle s k = Some t" and "floatable t"
    and "\<not> has_ts (tl_state t) QDWIN_TS_MAXIMIZED"
    and "qdwin_primary_output s = Some o'" and wa: "qdwin_output_work_area s o' = (wx, wy, ww, wh)"
  shows "\<exists>a. qdwin_toplevel_from_handle (qdwin_toplevel_set_maximized k True s) k =
           Some (t\<lparr>tl_saved := save_geometry s t, tl_outer_width := ww, tl_outer_height := wh,
                   tl_xw := a, tl_state := tl_state t OR QDWIN_TS_MAXIMIZED\<rparr>)"
    and "view_pos (qdwin_toplevel_set_maximized k True s) (tl_view t) =
           at_int (wx + tl_inset_w t) (wy + tl_inset_n t)"
proof -
  have h: "tl_handle t = k"
    using assms(1) by (rule from_handle_handle)
  have pos: "0 < ww" "0 < wh"
    using work_area_pos [OF wa] by auto
  let ?t = "t\<lparr>tl_saved := save_geometry s t\<rparr>"
  let ?s1 = "upd_tl k (\<lambda>u. (qdwin_toplevel_seed_outer_from_committed s u)\<lparr>tl_saved := save_geometry s t\<rparr>) s"
  have wa1: "qdwin_output_work_area ?s1 o' = (wx, wy, ww, wh)"
    using wa by (subst work_area_cong [of _ s]) simp_all
  let ?s2 = "emit (Window (set_maximized k True)) ?s1"
  have f: "qdwin_toplevel_from_handle ?s2 k = Some ?t"
    using assms(1,2) h by (simp add: from_handle_upd_tl seed_handle floatable_def)
  have v: "tl_view ?t \<notin> set (chrome_views ?t)"
    using assms(2) by (simp add: floatable_def)
  have eq: "qdwin_toplevel_set_maximized k True s =
      send_state_of k (upd_tl k (\<lambda>t. t\<lparr>tl_state := tl_state t OR QDWIN_TS_MAXIMIZED\<rparr>)
        (fill_rect k (wx, wy, ww, wh) ?s2))"
    using assms(1-4) wa1 by (simp add: qdwin_toplevel_set_maximized_def floatable_def Let_def)
  note fr = fill_rect_sized [OF f pos v, of wx wy]
  show "\<exists>a. qdwin_toplevel_from_handle (qdwin_toplevel_set_maximized k True s) k =
           Some (t\<lparr>tl_saved := save_geometry s t, tl_outer_width := ww, tl_outer_height := wh,
                   tl_xw := a, tl_state := tl_state t OR QDWIN_TS_MAXIMIZED\<rparr>)"
    using fr(1) unfolding eq by (auto simp: from_handle_upd_tl)
  show "view_pos (qdwin_toplevel_set_maximized k True s) (tl_view t) =
           at_int (wx + tl_inset_w t) (wy + tl_inset_n t)"
    using fr(2) unfolding eq by simp
qed

lemma maximize_off:
  assumes "qdwin_toplevel_from_handle s k = Some t" and "floatable t"
    and "has_ts (tl_state t) QDWIN_TS_MAXIMIZED"
    and "0 < sg_w (tl_saved t)" and "0 < sg_h (tl_saved t)"
  shows "\<exists>a. qdwin_toplevel_from_handle (qdwin_toplevel_set_maximized k False s) k =
           Some (t\<lparr>tl_outer_width := sg_w (tl_saved t), tl_outer_height := sg_h (tl_saved t),
                   tl_xw := a, tl_state := tl_state t AND NOT QDWIN_TS_MAXIMIZED\<rparr>)"
    and "view_pos (qdwin_toplevel_set_maximized k False s) (tl_view t) =
           (sg_x (tl_saved t), sg_y (tl_saved t))"
proof -
  let ?s1 = "emit (Window (set_maximized k False)) s"
  have f: "qdwin_toplevel_from_handle ?s1 k = Some t"
    using assms(1) by simp
  have v: "tl_view t \<notin> set (chrome_views t)"
    using assms(2) by (simp add: floatable_def)
  have eq: "qdwin_toplevel_set_maximized k False s =
      send_state_of k (upd_tl k (\<lambda>t. t\<lparr>tl_state := tl_state t AND NOT QDWIN_TS_MAXIMIZED\<rparr>)
        (restore_geometry k (tl_saved t) ?s1))"
    using assms(1-3) by (simp add: qdwin_toplevel_set_maximized_def floatable_def Let_def)
  note rg = restore_geometry_sized [OF f assms(4,5) v]
  show "\<exists>a. qdwin_toplevel_from_handle (qdwin_toplevel_set_maximized k False s) k =
           Some (t\<lparr>tl_outer_width := sg_w (tl_saved t), tl_outer_height := sg_h (tl_saved t),
                   tl_xw := a, tl_state := tl_state t AND NOT QDWIN_TS_MAXIMIZED\<rparr>)"
    using rg(1) unfolding eq by (auto simp: from_handle_upd_tl)
  show "view_pos (qdwin_toplevel_set_maximized k False s) (tl_view t) =
           (sg_x (tl_saved t), sg_y (tl_saved t))"
    using rg(2) unfolding eq by simp
qed

lemma fullscreen_on:
  assumes "qdwin_toplevel_from_handle s k = Some t" and "floatable t"
    and "\<not> has_ts (tl_state t) QDWIN_TS_FULLSCREEN"
    and "qdwin_primary_output s = Some o'" and pos: "0 < o_width o'" "0 < o_height o'"
  shows "\<exists>a. qdwin_toplevel_from_handle (qdwin_toplevel_set_fullscreen k True None s) k =
           Some (t\<lparr>tl_saved := save_geometry s t, tl_outer_width := o_width o', tl_outer_height := o_height o',
                   tl_xw := a, tl_state := tl_state t OR QDWIN_TS_FULLSCREEN\<rparr>)"
    and "view_pos (qdwin_toplevel_set_fullscreen k True None s) (tl_view t) =
           at_int (o_x o' + tl_inset_w t) (o_y o' + tl_inset_n t)"
proof -
  have h: "tl_handle t = k"
    using assms(1) by (rule from_handle_handle)
  let ?f = "\<lambda>t :: toplevel. t\<lparr>tl_outer_width := o_width o', tl_outer_height := o_height o'\<rparr>"
  let ?t = "t\<lparr>tl_saved := save_geometry s t\<rparr>"
  let ?s1 = "upd_tl k (\<lambda>u. (qdwin_toplevel_seed_outer_from_committed s u)\<lparr>tl_saved := save_geometry s t\<rparr>) s"
  let ?s2 = "emit (Window (set_fullscreen k True)) (upd_tl k ?f ?s1)"
  have f: "qdwin_toplevel_from_handle ?s2 k = Some (?f ?t)"
    and f1: "qdwin_toplevel_from_handle ?s1 k = Some ?t"
    using assms(1,2) h by (simp_all add: from_handle_upd_tl seed_handle floatable_def)
  have v: "tl_view (?f ?t) \<notin> set (chrome_views (?f ?t))"
    using assms(2) by (simp add: floatable_def)
  have eq: "qdwin_toplevel_set_fullscreen k True None s =
      send_state_of k (upd_tl k (\<lambda>t. t\<lparr>tl_state := tl_state t OR QDWIN_TS_FULLSCREEN\<rparr>)
        (qdwin_toplevel_position_chrome k (qdwin_toplevel_apply_inset k
           (weston_view_set_position (tl_view (?f ?t)) (at_int (o_x o' + tl_inset_w t) (o_y o' + tl_inset_n t)) ?s2))))"
    using assms(1-4) f f1
    by (simp add: qdwin_toplevel_set_fullscreen_def floatable_def Let_def qdwin_toplevel_apply_fullscreen_geometry_def)
  note pl = placed_sized [OF f _ _ v, of "at_int (o_x o' + tl_inset_w t) (o_y o' + tl_inset_n t)"]
  show "\<exists>a. qdwin_toplevel_from_handle (qdwin_toplevel_set_fullscreen k True None s) k =
           Some (t\<lparr>tl_saved := save_geometry s t, tl_outer_width := o_width o', tl_outer_height := o_height o',
                   tl_xw := a, tl_state := tl_state t OR QDWIN_TS_FULLSCREEN\<rparr>)"
    using pl(1) pos unfolding eq by (auto simp: from_handle_upd_tl)
  show "view_pos (qdwin_toplevel_set_fullscreen k True None s) (tl_view t) =
           at_int (o_x o' + tl_inset_w t) (o_y o' + tl_inset_n t)"
    using pl(2) pos unfolding eq by simp
qed

lemma fullscreen_off:
  assumes "qdwin_toplevel_from_handle s k = Some t" and "floatable t"
    and "has_ts (tl_state t) QDWIN_TS_FULLSCREEN"
    and "0 < sg_w (tl_saved t)" and "0 < sg_h (tl_saved t)"
  shows "\<exists>a. qdwin_toplevel_from_handle (qdwin_toplevel_set_fullscreen k False None s) k =
           Some (t\<lparr>tl_outer_width := sg_w (tl_saved t), tl_outer_height := sg_h (tl_saved t),
                   tl_xw := a, tl_state := tl_state t AND NOT QDWIN_TS_FULLSCREEN\<rparr>)"
    and "view_pos (qdwin_toplevel_set_fullscreen k False None s) (tl_view t) =
           (sg_x (tl_saved t), sg_y (tl_saved t))"
proof -
  let ?s1 = "emit (Window (set_fullscreen k False)) s"
  have f: "qdwin_toplevel_from_handle ?s1 k = Some t"
    using assms(1) by simp
  have v: "tl_view t \<notin> set (chrome_views t)"
    using assms(2) by (simp add: floatable_def)
  have eq: "qdwin_toplevel_set_fullscreen k False None s =
      send_state_of k (upd_tl k (\<lambda>t. t\<lparr>tl_state := tl_state t AND NOT QDWIN_TS_FULLSCREEN\<rparr>)
        (restore_geometry k (tl_saved t) ?s1))"
    using assms(1-3) by (simp add: qdwin_toplevel_set_fullscreen_def floatable_def Let_def)
  note rg = restore_geometry_sized [OF f assms(4,5) v]
  show "\<exists>a. qdwin_toplevel_from_handle (qdwin_toplevel_set_fullscreen k False None s) k =
           Some (t\<lparr>tl_outer_width := sg_w (tl_saved t), tl_outer_height := sg_h (tl_saved t),
                   tl_xw := a, tl_state := tl_state t AND NOT QDWIN_TS_FULLSCREEN\<rparr>)"
    using rg(1) unfolding eq by (auto simp: from_handle_upd_tl)
  show "view_pos (qdwin_toplevel_set_fullscreen k False None s) (tl_view t) =
           (sg_x (tl_saved t), sg_y (tl_saved t))"
    using rg(2) unfolding eq by simp
qed

lemma save_geometry_floatable:
  "floatable t \<Longrightarrow> save_geometry s t =
     \<lparr>sg_w = tl_outer_width t, sg_h = tl_outer_height t,
      sg_x = fst (view_pos s (tl_view t)), sg_y = snd (view_pos s (tl_view t))\<rparr>"
  by (simp add: save_geometry_def floatable_def case_prod_beta)

text \<open>A concrete desktop for the examples: one output of 1920 by 1080 and one ordinary window.\<close>

definition demo_output :: weston_output where
  "demo_output = \<lparr>o_id = 0, o_name = ''Virtual-1'', o_x = 0, o_y = 0, o_width = 1920,
     o_height = 1080, o_destroying = False\<rparr>"

definition demo_toplevel :: toplevel where
  "demo_toplevel = zero_toplevel\<lparr>tl_handle := 1, tl_view := 10, tl_desktop_surface := True,
     tl_outer_width := 640, tl_outer_height := 480, tl_inset_n := 30, tl_decorated := True,
     tl_mapped := True\<rparr>"

definition demo_state :: qdwin where
  "demo_state = (wet_shell_init 1000 False None)\<lparr>outputs := [demo_output],
     toplevels := [demo_toplevel], view_pos := (\<lambda>_. (100, 60)), next_id := 20\<rparr>"

lemma demo_facts:
  "qdwin_toplevel_from_handle demo_state 1 = Some demo_toplevel"
  "qdwin_primary_output demo_state = Some demo_output"
  "qdwin_output_work_area demo_state demo_output = (0, 0, 1920, 1080)"
  "floatable demo_toplevel" "tl_state demo_toplevel = 0" "tl_tiled demo_toplevel = 0"
  by (simp_all add: demo_state_def demo_toplevel_def demo_output_def zero_toplevel_def wet_shell_init_def
      qdwin_toplevel_from_handle_def qdwin_primary_output_def qdwin_output_work_area_def
      qdwin_layer_shell_subtract_zones_def floatable_def chrome_views_def all_sides_def
      List.map_filter_simps)

section \<open>What geometry does not touch\<close>

definition geoless :: "qdwin \<Rightarrow> qdwin" where
  "geoless s = s\<lparr>toplevels := [], view_pos := (\<lambda>_. (0, 0)), layer_views := (\<lambda>_. []),
     view_mapped := (\<lambda>_. False), view_surface := (\<lambda>_. 0), surface_mapped := (\<lambda>_. False),
     surface_client := (\<lambda>_. None), surface_size := (\<lambda>_. (0, 0)), next_id := 0, seats := [],
     seat_trackers := [], ub := False, out := []\<rparr>"

text \<open>The part of a toplevel that geometry leaves alone; of the state word it may change the
  maximised and the fullscreen bit only.\<close>

definition tl_frame :: "toplevel \<Rightarrow> toplevel" where
  "tl_frame t = t\<lparr>tl_view := 0, tl_proxy_curtain := None, tl_last_width := 0, tl_last_height := 0,
     tl_outer_width := 0, tl_outer_height := 0, tl_xw := zero_xw, tl_saved := zero_geometry,
     tl_tile_saved := zero_geometry, tl_tiled := 0, tl_state := tl_state t AND NOT 3\<rparr>"

definition geo_frame :: "qdwin \<Rightarrow> qdwin \<times> toplevel list" where
  "geo_frame s = (geoless s, map tl_frame (toplevels s))"

lemma geoless_frame:
  assumes "geoless a = geoless b"
  shows "nested_mode a = nested_mode b"
    and "next_handle a = next_handle b"
    and "display_serial a = display_serial b"
    and "outputs a = outputs b"
    and "layer_position a = layer_position b"
    and "shell_bound a = shell_bound b"
    and "shell_resource a = shell_resource b"
    and "shell_pid a = shell_pid b"
    and "shell_uid a = shell_uid b"
    and "allowed_uid a = allowed_uid b"
    and "locker_resource a = locker_resource b"
    and "locker_pid a = locker_pid b"
    and "locker_uid a = locker_uid b"
    and "locker_starttime a = locker_starttime b"
    and "locked a = locked b"
    and "lock_surface a = lock_surface b"
    and "lock_view a = lock_view b"
    and "lock_view_is_toplevel a = lock_view_is_toplevel b"
    and "lock_toplevel a = lock_toplevel b"
    and "lock_resource a = lock_resource b"
    and "lock_resource_is_locker a = lock_resource_is_locker b"
    and "lock_reattach a = lock_reattach b"
    and "lock_curtain a = lock_curtain b"
    and "overlay_grab_active a = overlay_grab_active b"
    and "overlay_grab_role a = overlay_grab_role b"
    and "overlay_grab_kbd a = overlay_grab_kbd b"
    and "switcher_grab_active a = switcher_grab_active b"
    and "switcher_grab_kbd a = switcher_grab_kbd b"
    and "launchers a = launchers b"
    and "view_streams a = view_streams b"
    and "dead_streams a = dead_streams b"
    and "next_stream_port a = next_stream_port b"
    and "allowed_locker_uid a = allowed_locker_uid b"
    and "allowed_locker_entrypoint a = allowed_locker_entrypoint b"
    and "allowed_locker_exe a = allowed_locker_exe b"
    and "allowed_locker_label a = allowed_locker_label b"
    and "secctx_clients a = secctx_clients b"
    and "panels a = panels b"
    and "layer_surfaces a = layer_surfaces b"
    and "wm_policy a = wm_policy b"
    and "ffm_pending_handle a = ffm_pending_handle b"
    and "ffm_armed a = ffm_armed b"
    and "move_grab a = move_grab b"
    and "workspace_count a = workspace_count b"
    and "active_workspace a = active_workspace b"
    and "workspace_names a = workspace_names b"
    and "ext_ws_managers a = ext_ws_managers b"
    and "ws_handle_refs a = ws_handle_refs b"
  using assms by (cases a; cases b; simp add: geoless_def)+

lemma geo_frame_cong:
  "geoless a = geoless b \<Longrightarrow> toplevels a = toplevels b \<Longrightarrow> geo_frame a = geo_frame b"
  by (simp add: geo_frame_def)

lemma sceneless_geo: "sceneless a = sceneless b \<Longrightarrow> geo_frame a = geo_frame b"
  by (cases a; cases b; simp add: geo_frame_def geoless_def sceneless_def)

lemma geo_frame_basic [simp]:
  "geo_frame (emit e s) = geo_frame s" "geo_frame (send_shell n f s) = geo_frame s"
  "geo_frame (weston_view_set_position v p s) = geo_frame s" "geo_frame (s\<lparr>ub := b\<rparr>) = geo_frame s"
  "geo_frame (weston_view_move_to_layer v L s) = geo_frame s"
  "geo_frame (weston_view_destroy v s) = geo_frame s" "geo_frame (send_state_of k s) = geo_frame s"
proof -
  show em: "geo_frame (emit e s) = geo_frame s" for e s
    by (rule sceneless_geo [OF seatless_sceneless]) simp
  show ss: "geo_frame (send_shell n f s) = geo_frame s" for n f s
    by (simp add: send_shell_def em)
  show "geo_frame (weston_view_set_position v p s) = geo_frame s" "geo_frame (s\<lparr>ub := b\<rparr>) = geo_frame s"
    by (simp_all add: geo_frame_def geoless_def weston_view_set_position_def)
  show "geo_frame (weston_view_move_to_layer v L s) = geo_frame s"
    "geo_frame (weston_view_destroy v s) = geo_frame s"
    by (rule sceneless_geo, simp add: move_to_layer_scene view_destroy_scene)+
  show "geo_frame (send_state_of k s) = geo_frame s"
    by (simp add: send_state_of_def qdwin_send_toplevel_state_def ss split: option.split)
qed

lemma geo_frame_upd_tl:
  assumes "\<And>t. tl_frame (f t) = tl_frame t"
  shows "geo_frame (upd_tl k f s) = geo_frame s"
  using assms by (simp add: geo_frame_def geoless_def upd_tl_def)

lemma tl_frame_upd [simp]:
  "tl_frame (t\<lparr>tl_view := v\<rparr>) = tl_frame t" "tl_frame (t\<lparr>tl_proxy_curtain := c\<rparr>) = tl_frame t"
  "tl_frame (t\<lparr>tl_last_width := a\<rparr>) = tl_frame t" "tl_frame (t\<lparr>tl_last_height := a\<rparr>) = tl_frame t"
  "tl_frame (t\<lparr>tl_outer_width := a\<rparr>) = tl_frame t" "tl_frame (t\<lparr>tl_outer_height := a\<rparr>) = tl_frame t"
  "tl_frame (t\<lparr>tl_xw := x\<rparr>) = tl_frame t" "tl_frame (t\<lparr>tl_saved := g\<rparr>) = tl_frame t"
  "tl_frame (t\<lparr>tl_tile_saved := g\<rparr>) = tl_frame t" "tl_frame (t\<lparr>tl_tiled := e\<rparr>) = tl_frame t"
  by (simp_all add: tl_frame_def)

lemma tl_frame_state [simp]:
  "tl_frame (t\<lparr>tl_state := tl_state t OR QDWIN_TS_MAXIMIZED\<rparr>) = tl_frame t"
  "tl_frame (t\<lparr>tl_state := tl_state t OR QDWIN_TS_FULLSCREEN\<rparr>) = tl_frame t"
  "tl_frame (t\<lparr>tl_state := tl_state t AND - 2\<rparr>) = tl_frame t"
  "tl_frame (t\<lparr>tl_state := tl_state t AND - 3\<rparr>) = tl_frame t"
proof -
  have "(w OR b) AND NOT 3 = w AND NOT 3" if "b = 1 \<or> b = 2" for w b :: u32
    using that by (auto simp: bit.conj_disj_distrib2)
  moreover have "(w AND b) AND - 4 = w AND - 4" if "b = - 2 \<or> b = - 3" for w b :: u32
    using that by (auto simp: and.assoc)
  ultimately show
    "tl_frame (t\<lparr>tl_state := tl_state t OR QDWIN_TS_MAXIMIZED\<rparr>) = tl_frame t"
    "tl_frame (t\<lparr>tl_state := tl_state t OR QDWIN_TS_FULLSCREEN\<rparr>) = tl_frame t"
    "tl_frame (t\<lparr>tl_state := tl_state t AND - 2\<rparr>) = tl_frame t"
    "tl_frame (t\<lparr>tl_state := tl_state t AND - 3\<rparr>) = tl_frame t"
    by (simp_all add: tl_frame_def)
qed

lemma tl_frame_seed [simp]: "tl_frame (qdwin_toplevel_seed_outer_from_committed s t) = tl_frame t"
  by (simp add: qdwin_toplevel_seed_outer_from_committed_def Let_def case_prod_beta)

lemma geo_frame_position_chrome [simp]: "geo_frame (qdwin_toplevel_position_chrome k s) = geo_frame s"
proof -
  have "geo_frame (fold (\<lambda>sd u. case c sd of None \<Rightarrow> u
            | Some (a, v) \<Rightarrow> weston_view_set_position v (q sd) u) xs s) = geo_frame s"
    for c :: "side \<Rightarrow> (surface \<times> view) option" and q xs
    by (rule fold_keeps [where g = geo_frame]) (auto split: option.split)
  then show ?thesis
    by (simp add: qdwin_toplevel_position_chrome_def Let_def case_prod_beta split: option.split)
qed

lemma geo_frame_apply_inset [simp]: "geo_frame (qdwin_toplevel_apply_inset k s) = geo_frame s"
  by (auto simp: qdwin_toplevel_apply_inset_def Let_def geo_frame_upd_tl split: option.split prod.split)

lemma geo_frame_proxy_set_geometry [simp]:
  "geo_frame (qdwin_nested_proxy_set_geometry k w h s) = geo_frame s"
proof -
  have "geo_frame (u\<lparr>next_id := a, view_surface := b, view_mapped := c, view_pos := d,
                     surface_mapped := e, surface_client := f, surface_size := g\<rparr>) = geo_frame u"
    for u a b c d e f g
    by (simp add: geo_frame_def geoless_def)
  then show ?thesis
    by (auto simp: qdwin_nested_proxy_set_geometry_def Let_def geo_frame_upd_tl split: option.split)
qed

lemma geo_frame_place [simp]:
  "geo_frame (restore_geometry k g s) = geo_frame s"
  "geo_frame (fill_rect k r s) = geo_frame s"
  "geo_frame (place_tile k p w h s) = geo_frame s"
  "geo_frame (qdwin_toplevel_apply_fullscreen_geometry k oo s) = geo_frame s"
  by (auto simp: restore_geometry_def fill_rect_def place_tile_def Let_def geo_frame_upd_tl
      qdwin_toplevel_apply_fullscreen_geometry_def split: option.split prod.split)

lemma geo_frame_set_fullscreen [simp]:
  "geo_frame (qdwin_toplevel_set_fullscreen k fs oo s) = geo_frame s"
  by (auto simp: qdwin_toplevel_set_fullscreen_def Let_def geo_frame_upd_tl split: option.split)

lemma geo_frame_set_maximized [simp]:
  "geo_frame (qdwin_toplevel_set_maximized k mx s) = geo_frame s"
  by (auto simp: qdwin_toplevel_set_maximized_def Let_def geo_frame_upd_tl split: option.split prod.split)

lemma geo_frame_tile_half [simp]: "geo_frame (tile_half k e s) = geo_frame s"
  by (auto simp: tile_half_def Let_def geo_frame_upd_tl split: option.split prod.split)

lemma geo_frame_set_tiled [simp]: "geo_frame (qdwin_toplevel_set_tiled k e s) = geo_frame s"
  by (simp add: qdwin_toplevel_set_tiled_def qdwin_toplevel_clear_tiled_def Let_def geo_frame_upd_tl
      split: option.split)

lemma geo_frame_fields:
  assumes "geo_frame a = geo_frame b"
  shows "geoless a = geoless b" and "map tl_frame (toplevels a) = map tl_frame (toplevels b)"
  using assms by (simp_all add: geo_frame_def)

lemmas geo_frames [simp] =
  geoless_frame [OF geo_frame_fields(1) [OF geo_frame_set_fullscreen]]
  geoless_frame [OF geo_frame_fields(1) [OF geo_frame_set_maximized]]
  geoless_frame [OF geo_frame_fields(1) [OF geo_frame_set_tiled]]
  geoless_frame [OF geo_frame_fields(1) [OF geo_frame_tile_half]]

section \<open>Tiles\<close>

lemma place_tile_sized:
  assumes "qdwin_toplevel_from_handle s k = Some t" and "0 < w" and "0 < h" and "floatable t"
  shows "\<exists>a. qdwin_toplevel_from_handle (place_tile k p w h s) k
              = Some (t\<lparr>tl_outer_width := w, tl_outer_height := h, tl_xw := a\<rparr>)"
    and "view_pos (place_tile k p w h s) (tl_view t) = p"
proof -
  let ?f = "\<lambda>t :: toplevel. t\<lparr>tl_outer_width := w, tl_outer_height := h\<rparr>"
  have f: "qdwin_toplevel_from_handle (upd_tl k ?f s) k = Some (?f t)"
    using assms(1) by (simp add: from_handle_upd_tl)
  note pl = placed_sized [OF f, of p]
  show "\<exists>a. qdwin_toplevel_from_handle (place_tile k p w h s) k
              = Some (t\<lparr>tl_outer_width := w, tl_outer_height := h, tl_xw := a\<rparr>)"
    using pl(1) assms f by (simp add: place_tile_def Let_def floatable_def)
  show "view_pos (place_tile k p w h s) (tl_view t) = p"
    using pl(2) assms f by (simp add: place_tile_def Let_def floatable_def)
qed

definition tileable_outputs :: "qdwin \<Rightarrow> bool" where
  "tileable_outputs s \<longleftrightarrow> qdwin_primary_output s \<noteq> None \<and>
     list_all (\<lambda>o'. case qdwin_output_work_area s o' of (_, _, w, _) \<Rightarrow> 2 \<le> w) (outputs s)"

lemma tileable_outputs_cong:
  assumes "geo_frame a = geo_frame b"
  shows "tileable_outputs a = tileable_outputs b"
  using geoless_frame [OF geo_frame_fields(1) [OF assms]] work_area_cong [of a b]
  by (simp add: tileable_outputs_def qdwin_primary_output_def cong: list.pred_cong)

lemma output_at_global_mem:
  assumes "tileable_outputs s"
  obtains o' wx wy ww wh where "qdwin_output_at_global s x y = Some o'"
    and "qdwin_output_work_area s o' = (wx, wy, ww, wh)" and "2 \<le> ww" and "0 < wh"
proof -
  obtain q where q: "find (\<lambda>o'. \<not> o_destroying o') (outputs s) = Some q"
    using assms by (auto simp: tileable_outputs_def qdwin_primary_output_def)
  have "\<exists>o'. qdwin_output_at_global s x y = Some o' \<and> o' \<in> set (outputs s)"
    unfolding qdwin_output_at_global_def qdwin_primary_output_def
    using find_Some_mem [OF q] q by (auto split: option.split dest: find_Some_mem)
  then obtain o' where o': "qdwin_output_at_global s x y = Some o'" "o' \<in> set (outputs s)"
    by blast
  obtain wx wy ww wh where wa: "qdwin_output_work_area s o' = (wx, wy, ww, wh)"
    using prod_cases4 by blast
  have "2 \<le> ww" "0 < wh"
    using assms o'(2) wa work_area_pos [OF wa] by (auto simp: tileable_outputs_def list_all_iff)
  then show thesis
    using that o'(1) wa by blast
qed

lemma tile_half_sized:
  assumes "qdwin_toplevel_from_handle s k = Some t" and "floatable t" and "tileable_outputs s"
  obtains t' where "qdwin_toplevel_from_handle (tile_half k e s) k = Some t'" and "floatable t'"
    and "tl_tiled t' = e" and "tl_state t' = tl_state t" and "tl_view t' = tl_view t"
    and "tl_tile_saved t' = (if tl_tiled t = QDWIN_TILE_NONE then save_geometry s t else tl_tile_saved t)"
proof -
  let ?p = "view_pos s (tl_view t)"
  obtain o' wx wy ww wh where o': "qdwin_output_at_global s (fst ?p) (snd ?p) = Some o'"
      and wa: "qdwin_output_work_area s o' = (wx, wy, ww, wh)" and ww: "2 \<le> ww" and wh: "0 < wh"
    using output_at_global_mem [OF assms(3)] by blast
  have h: "tl_handle t = k"
    using assms(1) by (rule from_handle_handle)
  let ?g = "if tl_tiled t = QDWIN_TILE_NONE then save_geometry s t else tl_tile_saved t"
  let ?s1 = "if tl_tiled t = QDWIN_TILE_NONE
             then upd_tl k (\<lambda>u. (qdwin_toplevel_seed_outer_from_committed s u)
                                  \<lparr>tl_tile_saved := save_geometry s t\<rparr>) s else s"
  have f: "qdwin_toplevel_from_handle ?s1 k = Some (t\<lparr>tl_tile_saved := ?g\<rparr>)"
    using assms(1,2) h by (simp add: from_handle_upd_tl floatable_def)
  have wa1: "qdwin_output_work_area ?s1 o' = (wx, wy, ww, wh)"
    using wa by (subst work_area_cong [of _ s]) simp_all
  obtain tx ty tw th where tr: "tile_rect e (wx, wy, ww, wh) = (tx, ty, tw, th)"
    using prod_cases4 by blast
  have sz: "0 < tw" "0 < th"
    using tr ww wh by (auto simp: tile_rect_def Let_def sdiv_two split: if_splits)
  have fl: "floatable (t\<lparr>tl_tile_saved := ?g\<rparr>)"
    using assms(2) by (simp add: floatable_def)
  obtain a where a: "qdwin_toplevel_from_handle
      (place_tile k (at_int (tx + tl_inset_w t) (ty + tl_inset_n t)) tw th ?s1) k
      = Some (t\<lparr>tl_tile_saved := ?g, tl_outer_width := tw, tl_outer_height := th, tl_xw := a\<rparr>)"
    using place_tile_sized(1) [OF f sz fl] by blast
  show thesis
  proof (rule that)
    show "qdwin_toplevel_from_handle (tile_half k e s) k = Some (t\<lparr>tl_tile_saved := ?g,
        tl_outer_width := tw, tl_outer_height := th, tl_xw := a, tl_tiled := e\<rparr>)"
      using a assms(1) o' wa1 tr by (simp add: tile_half_def Let_def from_handle_upd_tl)
  qed (use sz assms(2) in \<open>simp_all add: floatable_def\<close>)
qed

lemma set_tiled_half:
  assumes "qdwin_toplevel_from_handle s k = Some t" and "floatable t"
    and "\<not> has_ts (tl_state t) QDWIN_TS_MAXIMIZED" and "\<not> has_ts (tl_state t) QDWIN_TS_FULLSCREEN"
    and "e = QDWIN_TILE_LEFT \<or> e = QDWIN_TILE_RIGHT"
  shows "qdwin_toplevel_set_tiled k e s = tile_half k e s"
  using assms by (auto simp: qdwin_toplevel_set_tiled_def floatable_def)

lemma tile_sequence:
  assumes "qdwin_toplevel_from_handle s k = Some t" and "floatable t" and "tileable_outputs s"
    and "\<not> has_ts (tl_state t) QDWIN_TS_MAXIMIZED" and "\<not> has_ts (tl_state t) QDWIN_TS_FULLSCREEN"
    and "set es \<subseteq> {QDWIN_TILE_LEFT, QDWIN_TILE_RIGHT}" and "tl_tiled t \<noteq> QDWIN_TILE_NONE"
  shows "\<exists>t'. qdwin_toplevel_from_handle (fold (qdwin_toplevel_set_tiled k) es s) k = Some t' \<and> floatable t' \<and>
     tl_tiled t' \<noteq> QDWIN_TILE_NONE \<and> tl_state t' = tl_state t \<and> tl_view t' = tl_view t \<and>
     tl_tile_saved t' = tl_tile_saved t"
  using assms
proof (induction es arbitrary: s t)
  case Nil
  then show ?case by simp
next
  case (Cons e es)
  have e: "e = QDWIN_TILE_LEFT \<or> e = QDWIN_TILE_RIGHT"
    using Cons.prems(6) by simp
  obtain t' where t': "qdwin_toplevel_from_handle (tile_half k e s) k = Some t'" "floatable t'"
      "tl_tiled t' = e" "tl_state t' = tl_state t" "tl_view t' = tl_view t"
      "tl_tile_saved t' = (if tl_tiled t = QDWIN_TILE_NONE then save_geometry s t else tl_tile_saved t)"
    using tile_half_sized [OF Cons.prems(1-3)] by blast
  have to: "tileable_outputs (tile_half k e s)"
    using Cons.prems(3) tileable_outputs_cong [OF geo_frame_tile_half] by blast
  show ?case
    using Cons.IH [OF t'(1,2) to] t' e Cons.prems(4-7) set_tiled_half [OF Cons.prems(1,2,4,5) e] by auto
qed

section \<open>Properties\<close>



text \<open>C34: maximise and fullscreen share one saved-geometry slot. A window that is maximised, made
  fullscreen and taken out of both states again keeps the maximised rectangle: its floating
  geometry is lost.\<close>

theorem fullscreen_over_maximize_loses_floating_geometry:
  assumes "qdwin_toplevel_from_handle s k = Some t" and "floatable t"
    and "\<not> has_ts (tl_state t) QDWIN_TS_MAXIMIZED" and "\<not> has_ts (tl_state t) QDWIN_TS_FULLSCREEN"
    and "qdwin_primary_output s = Some o'" and "qdwin_output_work_area s o' = (wx, wy, ww, wh)"
    and "0 < o_width o'" and "0 < o_height o'"
  shows "\<exists>t4. (let s1 = qdwin_toplevel_set_maximized k True s;
                  s2 = qdwin_toplevel_set_fullscreen k True None s1;
                  s3 = qdwin_toplevel_set_fullscreen k False None s2;
                  s4 = qdwin_toplevel_set_maximized k False s3
     in qdwin_toplevel_from_handle s4 k = Some t4 \<and> tl_state t4 = tl_state t \<and>
        (tl_outer_width t4, tl_outer_height t4) = (ww, wh) \<and>
        view_pos s4 (tl_view t4) = at_int (wx + tl_inset_w t) (wy + tl_inset_n t))"
proof -
  let ?s1 = "qdwin_toplevel_set_maximized k True s"
  let ?s2 = "qdwin_toplevel_set_fullscreen k True None ?s1"
  let ?s3 = "qdwin_toplevel_set_fullscreen k False None ?s2"
  have b: "\<not> has_ts (tl_state t OR QDWIN_TS_MAXIMIZED) QDWIN_TS_FULLSCREEN"
    using assms(4) by (simp add: has_ts_def bit.conj_disj_distrib2)
  have pos: "0 < ww" "0 < wh"
    using work_area_pos [OF assms(6)] by auto
  obtain t1 where t1: "qdwin_toplevel_from_handle ?s1 k = Some t1"
      and f1: "floatable t1" and o1: "tl_outer_width t1 = ww" "tl_outer_height t1 = wh"
      and st1: "tl_state t1 = tl_state t OR QDWIN_TS_MAXIMIZED" and v1: "tl_view t1 = tl_view t"
    using maximize_on(1) [OF assms(1-3,5,6)] assms(2) pos by (auto simp: floatable_def)
  have p1: "view_pos ?s1 (tl_view t1) = at_int (wx + tl_inset_w t) (wy + tl_inset_n t)"
    using maximize_on(2) [OF assms(1-3,5,6)] v1 by simp
  have n1: "\<not> has_ts (tl_state t1) QDWIN_TS_FULLSCREEN"
    using b st1 by simp
  have po1: "qdwin_primary_output ?s1 = Some o'"
    using assms(5) by (simp add: qdwin_primary_output_def)
  obtain t2 where t2: "qdwin_toplevel_from_handle ?s2 k = Some t2" and f2: "floatable t2"
      and sv2: "tl_saved t2 = save_geometry ?s1 t1" and v2: "tl_view t2 = tl_view t1"
      and st2: "tl_state t2 = tl_state t1 OR QDWIN_TS_FULLSCREEN"
    using fullscreen_on(1) [OF t1 f1 n1 po1 assms(7,8)] f1 assms(7,8) by (auto simp: floatable_def)
  have g2: "tl_saved t2 = \<lparr>sg_w = ww, sg_h = wh, sg_x = fst (at_int (wx + tl_inset_w t) (wy + tl_inset_n t)),
                           sg_y = snd (at_int (wx + tl_inset_w t) (wy + tl_inset_n t))\<rparr>"
    using sv2 f1 o1 p1 by (simp add: save_geometry_floatable)
  obtain t3 where t3: "qdwin_toplevel_from_handle ?s3 k = Some t3" and f3: "floatable t3"
      and sv3: "tl_saved t3 = tl_saved t2" and v3: "tl_view t3 = tl_view t2"
      and st3: "tl_state t3 = tl_state t1"
    using fullscreen_off(1) [OF t2 f2] g2 pos st2 f2 has_ts_clear(2) [OF n1] by (auto simp: floatable_def)
  show ?thesis
    using maximize_off [OF t3 f3] g2 sv3 st3 st1 pos v1 v2 v3 has_ts_clear(1) [OF assms(3)]
    by (auto simp: Let_def)
qed

theorem fullscreen_over_maximize_loses_floating_geometry_witness:
  "\<exists>t4. (let s1 = qdwin_toplevel_set_maximized 1 True demo_state;
             s2 = qdwin_toplevel_set_fullscreen 1 True None s1;
             s3 = qdwin_toplevel_set_fullscreen 1 False None s2;
             s4 = qdwin_toplevel_set_maximized 1 False s3
     in qdwin_toplevel_from_handle s4 1 = Some t4 \<and> tl_state t4 = tl_state demo_toplevel \<and>
        (tl_outer_width t4, tl_outer_height t4) = (1920, 1080) \<and>
        view_pos s4 (tl_view t4) = at_int (0 + tl_inset_w demo_toplevel) (0 + tl_inset_n demo_toplevel))"
  by (rule fullscreen_over_maximize_loses_floating_geometry [OF demo_facts(1,4) _ _ demo_facts(2,3)])
    (simp_all add: demo_facts has_ts_def demo_output_def)

text \<open>C22: after any non-empty sequence of half-screen tilings of a floating window, the request to
  restore gives back the outer size and the position the window had before the first one.\<close>

theorem tile_sequence_restores:
  assumes "qdwin_toplevel_from_handle s k = Some t" and "floatable t" and "tileable_outputs s"
    and "\<not> has_ts (tl_state t) QDWIN_TS_MAXIMIZED" and "\<not> has_ts (tl_state t) QDWIN_TS_FULLSCREEN"
    and "tl_tiled t = QDWIN_TILE_NONE"
    and "es \<noteq> []" and "set es \<subseteq> {QDWIN_TILE_LEFT, QDWIN_TILE_RIGHT}"
  shows "\<exists>t'. (let s' = qdwin_toplevel_set_tiled k QDWIN_TILE_NONE (fold (qdwin_toplevel_set_tiled k) es s)
     in qdwin_toplevel_from_handle s' k = Some t' \<and> tl_tiled t' = QDWIN_TILE_NONE \<and>
        (tl_outer_width t', tl_outer_height t') = (tl_outer_width t, tl_outer_height t) \<and>
        tl_view t' = tl_view t \<and> view_pos s' (tl_view t') = view_pos s (tl_view t))"
proof -
  obtain e es' where es: "es = e # es'" and e: "e = QDWIN_TILE_LEFT \<or> e = QDWIN_TILE_RIGHT"
    using assms(7,8) by (cases es) auto
  obtain t1 where t1: "qdwin_toplevel_from_handle (tile_half k e s) k = Some t1" "floatable t1"
      "tl_tiled t1 = e" "tl_state t1 = tl_state t" "tl_view t1 = tl_view t"
      "tl_tile_saved t1 = (if tl_tiled t = QDWIN_TILE_NONE then save_geometry s t else tl_tile_saved t)"
    using tile_half_sized [OF assms(1-3)] by blast
  have "tileable_outputs (tile_half k e s)"
    using assms(3) tileable_outputs_cong [OF geo_frame_tile_half] by blast
  then obtain t2 where t2: "qdwin_toplevel_from_handle (fold (qdwin_toplevel_set_tiled k) es s) k = Some t2"
      "floatable t2" "tl_tiled t2 \<noteq> QDWIN_TILE_NONE" "tl_view t2 = tl_view t" "tl_tile_saved t2 = save_geometry s t"
    using tile_sequence [OF t1(1,2), of es'] t1 e assms(4-6,8) es set_tiled_half [OF assms(1,2,4,5) e] by auto
  let ?s = "fold (qdwin_toplevel_set_tiled k) es s" and ?g = "save_geometry s t"
  have g: "0 < sg_w ?g" "0 < sg_h ?g"
    using assms(2) by (simp_all add: save_geometry_floatable) (simp_all add: floatable_def)
  have eq: "qdwin_toplevel_set_tiled k QDWIN_TILE_NONE ?s =
      qdwin_toplevel_clear_tiled k (place_tile k (sg_x ?g, sg_y ?g) (sg_w ?g) (sg_h ?g) ?s)"
    using t2 by (simp add: qdwin_toplevel_set_tiled_def floatable_def Let_def)
  note pl = place_tile_sized [OF t2(1) g t2(2), of "(sg_x ?g, sg_y ?g)"]
  show ?thesis
    unfolding eq using pl t2(4) assms(2)
    by (auto simp: Let_def qdwin_toplevel_clear_tiled_def from_handle_upd_tl save_geometry_floatable)
qed

theorem tile_sequence_restores_witness:
  "\<exists>t'. (let s' = qdwin_toplevel_set_tiled 1 QDWIN_TILE_NONE
                   (fold (qdwin_toplevel_set_tiled 1) [QDWIN_TILE_LEFT, QDWIN_TILE_RIGHT] demo_state)
     in qdwin_toplevel_from_handle s' 1 = Some t' \<and> tl_tiled t' = QDWIN_TILE_NONE \<and>
        (tl_outer_width t', tl_outer_height t') = (tl_outer_width demo_toplevel, tl_outer_height demo_toplevel) \<and>
        tl_view t' = tl_view demo_toplevel \<and>
        view_pos s' (tl_view t') = view_pos demo_state (tl_view demo_toplevel))"
proof -
  have "tileable_outputs demo_state"
    unfolding tileable_outputs_def using demo_facts(2,3) by (simp add: demo_state_def)
  then show ?thesis
    by (intro tile_sequence_restores [OF demo_facts(1,4)]) (simp_all add: demo_facts has_ts_def)
qed

text \<open>The two half-screen tiles partition the work area: they abut without a gap, together
  have its width, and differ by at most one pixel.\<close>

theorem tile_halves_partition:
  assumes "qdwin_output_work_area s o' = (wx, wy, ww, wh)"
  shows "\<exists>lw rw. tile_rect QDWIN_TILE_LEFT (qdwin_output_work_area s o') = (wx, wy, lw, wh) \<and>
     tile_rect QDWIN_TILE_RIGHT (qdwin_output_work_area s o') = (wx + lw, wy, rw, wh) \<and>
     lw + rw = ww \<and> 0 \<le> lw \<and> lw \<le> rw \<and> rw \<le> lw + 1"
  using assms work_area_pos [OF assms] by (auto simp: tile_rect_def Let_def sdiv_two)

theorem tile_halves_partition_witness:
  "\<exists>lw rw. tile_rect QDWIN_TILE_LEFT (qdwin_output_work_area demo_state demo_output) = (0, 0, lw, 1080) \<and>
     tile_rect QDWIN_TILE_RIGHT (qdwin_output_work_area demo_state demo_output) = (0 + lw, 0, rw, 1080) \<and>
     lw + rw = 1920 \<and> 0 \<le> lw \<and> lw \<le> rw \<and> rw \<le> lw + 1"
  by (rule tile_halves_partition [OF demo_facts(3)])

lemma overlap_nonneg: "0 \<le> qdwin_placement_overlap s k x y w h"
proof -
  have r: "0 \<le> rect_overlap r q" for r q
    by (auto simp: rect_overlap_def Let_def split: prod.split)
  show ?thesis
    unfolding qdwin_placement_overlap_def by (rule sum_list_nonneg) (auto intro: r)
qed

lemma smart_scan_min:
  assumes "\<And>c. 0 \<le> f c" and "f best = b"
  shows "f (smart_scan f cs b best) \<le> b \<and> (\<forall>c \<in> set cs. f (smart_scan f cs b best) \<le> f c)"
  using assms(2)
proof (induction cs arbitrary: b best)
  case Nil
  then show ?case by simp
next
  case (Cons c cs)
  show ?case
    using Cons.IH [of c "f c"] Cons.IH [OF Cons.prems] assms(1) Cons.prems by fastforce
qed

lemma smart_scan_in: "smart_scan f cs b best \<in> insert best (set cs)"
proof (induction cs arbitrary: b best)
  case (Cons c cs)
  show ?case
    using Cons.IH [of b best] Cons.IH [of "f c" c] by auto
qed simp



lemma unsigned_nonneg [simp]: "0 \<le> (unsigned (d :: u32) :: rat)"
  by (metis of_nat_0_le_iff of_nat_unat)

lemma snap_fold:
  assumes "fold (\<lambda>tg. qdwin_snap1 tg d) ts (w, did) = (w', did')"
    and "if did then \<bar>w - v\<bar> \<le> of_nat (unat d) else w = v"
  shows "\<bar>w' - v\<bar> \<le> of_nat (unat d)"
  using assms
proof (induction ts arbitrary: w did)
  case Nil
  then show ?case by (auto split: if_splits)
next
  case (Cons t ts)
  obtain w1 d1 where s1: "qdwin_snap1 t d (w, did) = (w1, d1)"
    by fastforce
  have "if d1 then \<bar>w1 - v\<bar> \<le> of_nat (unat d) else w1 = v"
    using s1 Cons.prems(2) by (auto simp: qdwin_snap1_def abs_minus_commute split: if_splits)
  then show ?case
    using Cons.IH [of w1 d1] Cons.prems(1) s1 by simp
qed

lemma snap_axis_near: "\<bar>snap_axis d ts v - v\<bar> \<le> of_nat (unat d)"
  unfolding snap_axis_def using snap_fold [of d ts v False _ _ v] by (metis (full_types) prod.collapse)

lemma clamp_dist_le: "unat (clamp_dist d) \<le> 64"
  by (auto simp: clamp_dist_def word_less_nat_alt)

text \<open>C29: snapping moves a dragged window by at most the snap distance on each axis, and never by
  more than 64 pixels, whatever distance the shell has set.\<close>

theorem snap_move_bounded:
  "\<bar>fst (qdwin_snap_move_position s t p) - fst p\<bar> \<le> of_nat (unat (clamp_dist (snap_distance (wm_policy s)))) \<and>
   \<bar>snd (qdwin_snap_move_position s t p) - snd p\<bar> \<le> of_nat (unat (clamp_dist (snap_distance (wm_policy s)))) \<and>
   unat (clamp_dist (snap_distance (wm_policy s))) \<le> 64"
proof -
  have near: "\<bar>snap_axis d ts (a - b) + b - a\<bar> \<le> of_nat (unat d)" for d ts a b
    using snap_axis_near [of d ts "a - b"] by (simp add: algebra_simps)
  show ?thesis
    using near clamp_dist_le
    by (auto simp: qdwin_snap_move_position_def Let_def split: prod.split option.split)
qed


definition demo_shell :: wl_resource where
  "demo_shell = \<lparr>res_id = 3, res_client = \<lparr>cl_id = 1, cl_pid = 100, cl_uid = 1000\<rparr>, res_version = 34\<rparr>"

definition demo_bound :: qdwin where
  "demo_bound = demo_state\<lparr>shell_bound := True, shell_resource := Some demo_shell\<rparr>"


text \<open>C35: when a panel comes or goes, a maximised window is refitted with its content, not its
  outer rectangle, at the corner of the work area: a decorated window that maximise had
  placed below its title bar is shifted so that the title bar lies above the work area.\<close>

theorem panel_change_drops_inset:
  assumes "qdwin_toplevel_from_handle s k = Some t" and "floatable t"
    and "has_ts (tl_state t) QDWIN_TS_MAXIMIZED"
    and "qdwin_primary_output s = Some o'" and "qdwin_output_work_area s o' = (wx, wy, ww, wh)"
    and "0 < tl_inset_n t"
  shows "view_pos (refit_maximized k s) (tl_view t) = at_int wx wy \<and>
         view_pos (refit_maximized k s) (tl_view t) \<noteq> at_int (wx + tl_inset_w t) (wy + tl_inset_n t)"
proof -
  have pos: "0 < ww" "0 < wh"
    using work_area_pos [OF assms(5)] by auto
  let ?f = "\<lambda>t :: toplevel. t\<lparr>tl_outer_width := ww, tl_outer_height := wh\<rparr>"
  have f: "qdwin_toplevel_from_handle (upd_tl k ?f s) k = Some (?f t)"
    using assms(1) by (simp add: from_handle_upd_tl)
  have "view_pos (refit_maximized k s) (tl_view t) = at_int wx wy"
    using placed_sized(2) [OF f, of "at_int wx wy"] assms pos
    by (simp add: refit_maximized_def Let_def floatable_def)
  then show ?thesis
    using assms(6) by (simp add: at_int_def)
qed

theorem panel_change_drops_inset_witness:
  "(let t = demo_toplevel\<lparr>tl_state := QDWIN_TS_MAXIMIZED\<rparr>; s = demo_state\<lparr>toplevels := [t]\<rparr>
    in view_pos (refit_maximized 1 s) (tl_view t) = at_int 0 0 \<and>
       view_pos (refit_maximized 1 s) (tl_view t) \<noteq> at_int (0 + tl_inset_w t) (0 + tl_inset_n t))"
proof -
  let ?t = "demo_toplevel\<lparr>tl_state := QDWIN_TS_MAXIMIZED\<rparr>"
  let ?s = "demo_state\<lparr>toplevels := [?t]\<rparr>"
  have "qdwin_toplevel_from_handle ?s 1 = Some ?t" "floatable ?t" "has_ts (tl_state ?t) QDWIN_TS_MAXIMIZED"
    "qdwin_primary_output ?s = Some demo_output" "0 < tl_inset_n ?t"
    using demo_facts by (simp_all add: qdwin_toplevel_from_handle_def qdwin_primary_output_def has_ts_def
        floatable_def) (simp_all add: demo_toplevel_def)
  moreover have "qdwin_output_work_area ?s demo_output = (0, 0, 1920, 1080)"
    using demo_facts(3) by (subst work_area_cong [of _ demo_state]) simp_all
  ultimately show ?thesis
    unfolding Let_def by (intro panel_change_drops_inset)
qed

end
