(* ===== verification/Windows.thy ===== *)
theory Windows
  imports Geometry
begin

text \<open>
  Windows on the scene: which of them are visible, how they leave the holding layer, how they
  are decorated, minimised, raised and closed, and how keyboard focus follows: autofocus of
  a new window, recovery after the focused one went away, click-to-focus and
  focus-follows-mouse.
\<close>

section \<open>Visibility\<close>

definition qdwin_toplevel_is_locker_ui :: "qdwin \<Rightarrow> toplevel \<Rightarrow> bool" where
  "qdwin_toplevel_is_locker_ui s t \<longleftrightarrow>
     tl_desktop_surface t \<and> \<not> tl_is_nested_proxy t \<and> locker_resource s \<noteq> None \<and> 0 < locker_pid s \<and>
     tl_peer t = Some (locker_pid s, locker_uid s)"

definition qdwin_toplevel_is_visible :: "qdwin \<Rightarrow> toplevel \<Rightarrow> bool" where
  "qdwin_toplevel_is_visible s t \<longleftrightarrow>
     tl_decorated t \<and> \<not> has_ts (tl_state t) QDWIN_TS_MINIMIZED \<and>
     tl_workspace t = active_workspace s \<and> surface_mapped s (view_surface s (tl_view t))"

definition qdwin_toplevel_apply_workspace_visibility :: "toplevel \<Rightarrow> qdwin \<Rightarrow> qdwin" where
  "qdwin_toplevel_apply_workspace_visibility t s =
     (if nested_mode s \<or> qdwin_toplevel_is_locker_ui s t \<or> \<not> tl_decorated t
         \<or> has_ts (tl_state t) QDWIN_TS_MINIMIZED
      then s
      else qdwin_toplevel_move_to_layer t
             (if tl_workspace t = active_workspace s then Normal_layer else Workspace_hidden_layer) s)"

section \<open>Focus listeners and recovery\<close>

definition qdwin_install_focus_listener_if_needed :: "nat \<Rightarrow> qdwin \<Rightarrow> qdwin" where
  "qdwin_install_focus_listener_if_needed i s =
     (case (qdwin_seat_tracker_for_seat s i, weston_seat_get_keyboard s i) of
        (Some tr, Some k) \<Rightarrow>
          if tr_listener tr \<noteq> None then s
          else qdwin_seat_emit_focus_now i
                 (upd_tracker i (\<lambda>t. t\<lparr>tr_listener := Some (kb_id k), tr_last_focused := UINT32_MAX\<rparr>) s)
      | _ \<Rightarrow> s)"

definition qdwin_seat_tracker_rebind_focus_listener :: "nat \<Rightarrow> qdwin \<Rightarrow> qdwin" where
  "qdwin_seat_tracker_rebind_focus_listener i s =
     (case qdwin_seat_tracker_for_seat s i of
        None \<Rightarrow> s
      | Some tr \<Rightarrow>
          if tr_listener tr \<noteq> None \<and> tr_listener tr = map_option kb_id (weston_seat_get_keyboard s i) then s
          else
            let s1 = upd_tracker i (\<lambda>t. t\<lparr>tr_listener := None\<rparr>) s
            in if weston_seat_get_keyboard s i = None then s1
               else qdwin_install_focus_listener_if_needed i s1)"

definition qdwin_seat_focus_recover_idle_cb :: "nat \<Rightarrow> qdwin \<Rightarrow> qdwin" where
  "qdwin_seat_focus_recover_idle_cb i s0 =
     (let s = upd_tracker i (\<lambda>t. t\<lparr>tr_recover_idle := False\<rparr>) s0
      in if locked s \<or> weston_seat_get_keyboard s i = None
            \<or> (case kbd_focus s i of None \<Rightarrow> False | Some x \<Rightarrow> surface_mapped s x)
         then s
         else case find (qdwin_toplevel_is_visible s) (toplevels s) of
                None \<Rightarrow> s
              | Some t \<Rightarrow> weston_view_activate_input (tl_view t) i s)"

definition qdwin_replay_seat_focus_for_shell :: "qdwin \<Rightarrow> qdwin" where
  "qdwin_replay_seat_focus_for_shell s =
     fold (\<lambda>i u. let h = focused_handle u i
                 in qdwin_emit_seat_focus_changed i h (upd_tracker i (\<lambda>t. t\<lparr>tr_last_focused := h\<rparr>) u))
       (map tr_seat (seat_trackers s)) s"

text \<open>Autofocus on every seat with a keyboard that is not on the window already.\<close>

definition autofocus_seat :: "toplevel \<Rightarrow> nat \<Rightarrow> qdwin \<Rightarrow> qdwin" where
  "autofocus_seat t i s =
     (if weston_seat_get_keyboard s i \<noteq> None \<and> kbd_focus s i \<noteq> Some (view_surface s (tl_view t))
      then qdwin_seat_emit_focus_now i
             (weston_view_activate_input (tl_view t) i (qdwin_seat_tracker_rebind_focus_listener i s))
      else s)"

definition qdwin_toplevel_autofocus_if_ready :: "u32 \<Rightarrow> qdwin \<Rightarrow> qdwin" where
  "qdwin_toplevel_autofocus_if_ready k s =
     (case qdwin_toplevel_from_handle s k of
        None \<Rightarrow> s
      | Some t \<Rightarrow>
          if locked s \<or> \<not> tl_decorated t \<or> tl_workspace t \<noteq> active_workspace s
             \<or> \<not> surface_mapped s (view_surface s (tl_view t))
          then s
          else fold (autofocus_seat t) (map seat_id (seats s)) s)"

text \<open>The release from the holding layer. \<open>decision\<close> says that the cause is the shell's verdict on
  a nested proxy; any other cause leaves an undecided proxy held.\<close>

definition qdwin_toplevel_release_holding :: "u32 \<Rightarrow> bool \<Rightarrow> qdwin \<Rightarrow> qdwin" where
  "qdwin_toplevel_release_holding k decision s =
     (case qdwin_toplevel_from_handle s k of
        None \<Rightarrow> s
      | Some t \<Rightarrow>
          if tl_decorated t \<or> (tl_pending_decision t \<and> \<not> decision) then s
          else
            let s1 = upd_tl k (\<lambda>t. t\<lparr>tl_decorated := True\<rparr>) s;
                s2 = fold (\<lambda>v. weston_view_move_to_layer v Normal_layer) (tl_views t) s1;
                s3 = (if tl_workspace t \<noteq> active_workspace s
                      then qdwin_toplevel_move_to_layer t Workspace_hidden_layer s2 else s2)
            in qdwin_toplevel_autofocus_if_ready k s3)"

section \<open>Decoration\<close>

definition qdwin_toplevel_border_rgba :: "toplevel option \<Rightarrow> u32 \<Rightarrow> u32" where
  "qdwin_toplevel_border_rgba t fallback =
     (case t of None \<Rightarrow> fallback
      | Some t \<Rightarrow> (case tl_border_rgba t of None \<Rightarrow> fallback | Some c \<Rightarrow> c))"

definition qdwin_handle_set_border_color :: "wl_resource \<Rightarrow> u32 \<Rightarrow> u32 \<Rightarrow> qdwin \<Rightarrow> qdwin" where
  "qdwin_handle_set_border_color r k rgba =
     qdwin_shell_require_bound r
       (with_handle k (emit (Post_error (res_id r) ERROR_INVALID_HANDLE))
         (\<lambda>_ s. qdwin_toplevel_release_holding k False
                   (upd_tl k (\<lambda>t. t\<lparr>tl_border_rgba := Some rgba\<rparr>) s)))"

definition qdwin_chrome_detach :: "u32 \<Rightarrow> side \<Rightarrow> qdwin \<Rightarrow> qdwin" where
  "qdwin_chrome_detach k sd s =
     (case qdwin_toplevel_from_handle s k of
        None \<Rightarrow> s
      | Some t \<Rightarrow>
          (case tl_chrome t sd of
             None \<Rightarrow> s
           | Some (sf, v) \<Rightarrow>
               upd_tl k (\<lambda>t. t\<lparr>tl_chrome := (tl_chrome t)(sd := None)\<rparr>) (weston_view_destroy v s)))"

text \<open>A chrome view lands on the layer of its window, as far as the code can tell from the
  decorated flag and the workspace.\<close>

definition chrome_layer :: "qdwin \<Rightarrow> toplevel \<Rightarrow> layer" where
  "chrome_layer s t =
     (if \<not> tl_decorated t then Held_layer
      else if tl_workspace t \<noteq> active_workspace s then Workspace_hidden_layer else Normal_layer)"

definition qdwin_chrome_attach_side :: "u32 \<Rightarrow> side \<Rightarrow> surface option \<Rightarrow> qdwin \<Rightarrow> qdwin" where
  "qdwin_chrome_attach_side k sd sfo s =
     (case (sfo, qdwin_toplevel_from_handle s k) of
        (_, None) \<Rightarrow> s
      | (None, Some _) \<Rightarrow> qdwin_chrome_detach k sd s
      | (Some sf, Some t) \<Rightarrow>
          if map_option fst (tl_chrome t sd) = Some sf then s
          else
            let s1 = qdwin_chrome_detach k sd s; v = next_id s1;
                s2 = upd_tl k (\<lambda>t. t\<lparr>tl_chrome := (tl_chrome t)(sd := Some (sf, v))\<rparr>)
                       (s1\<lparr>next_id := next_id s1 + 1, view_surface := (view_surface s1)(v := sf),
                           view_mapped := (view_mapped s1)(v := False)\<rparr>);
                s3 = weston_view_move_to_layer v (chrome_layer s1 t) s2
            in s3\<lparr>surface_mapped := (surface_mapped s3)(sf := True)\<rparr>)"

definition chrome_extent :: "qdwin \<Rightarrow> toplevel \<Rightarrow> side \<Rightarrow> int \<times> int" where
  "chrome_extent s t sd = (case tl_chrome t sd of None \<Rightarrow> (0, 0) | Some (sf, _) \<Rightarrow> surface_size s sf)"

definition derive_insets :: "qdwin \<Rightarrow> toplevel \<Rightarrow> toplevel" where
  "derive_insets s t = t\<lparr>tl_inset_n := snd (chrome_extent s t QDWIN_SIDE_N),
     tl_inset_e := fst (chrome_extent s t QDWIN_SIDE_E),
     tl_inset_s := snd (chrome_extent s t QDWIN_SIDE_S),
     tl_inset_w := fst (chrome_extent s t QDWIN_SIDE_W)\<rparr>"

definition has_inset :: "qdwin \<Rightarrow> u32 \<Rightarrow> bool" where
  "has_inset s k \<longleftrightarrow> (case qdwin_toplevel_from_handle s k of None \<Rightarrow> False
     | Some t \<Rightarrow> tl_inset_n t \<noteq> 0 \<or> tl_inset_e t \<noteq> 0 \<or> tl_inset_s t \<noteq> 0 \<or> tl_inset_w t \<noteq> 0)"

definition qdwin_handle_attach_decoration ::
  "wl_resource \<Rightarrow> u32 \<Rightarrow> (side \<Rightarrow> surface option) \<Rightarrow> qdwin \<Rightarrow> qdwin" where
  "qdwin_handle_attach_decoration r k sides =
     qdwin_shell_require_bound r
       (with_handle k (emit (Post_error (res_id r) ERROR_INVALID_HANDLE))
         (\<lambda>_ s. let s1 = fold (\<lambda>sd. qdwin_chrome_attach_side k sd (sides sd)) all_sides s;
                    s2 = upd_tl k (derive_insets s1) s1;
                    s3 = qdwin_toplevel_release_holding k False s2;
                    s4 = (if has_inset s3 k then qdwin_toplevel_apply_inset k s3 else s3)
                in qdwin_toplevel_position_chrome k s4))"

section \<open>Close, minimise, raise\<close>

definition qdwin_toplevel_secctx_engine :: "toplevel \<Rightarrow> string option" where
  "qdwin_toplevel_secctx_engine t =
     (if tl_is_nested_proxy t \<or> \<not> tl_desktop_surface t then None else map_option sc_engine (tl_secctx t))"

definition qdwin_handle_request_close :: "wl_resource \<Rightarrow> u32 \<Rightarrow> qdwin \<Rightarrow> qdwin" where
  "qdwin_handle_request_close r k =
     unlocked_request r (with_handle k id (\<lambda>t.
       if tl_is_nested_proxy t then emit (Window (proxy_close_requested k))
       else if qdwin_toplevel_secctx_engine t = Some ''qdistro.mm'' then id
       else emit (Window (close_window k))))"

definition qdwin_toplevel_set_minimized :: "u32 \<Rightarrow> qdwin \<Rightarrow> qdwin" where
  "qdwin_toplevel_set_minimized k s =
     (case qdwin_toplevel_from_handle s k of
        None \<Rightarrow> s
      | Some t \<Rightarrow>
          if tl_pending_decision t \<or> has_ts (tl_state t) QDWIN_TS_MINIMIZED then s
          else send_state_of k
                 (upd_tl k (\<lambda>t. t\<lparr>tl_state := tl_state t OR QDWIN_TS_MINIMIZED\<rparr>)
                    (qdwin_toplevel_move_to_layer t Minimized_layer s)))"

definition qdwin_handle_request_minimize :: "wl_resource \<Rightarrow> u32 \<Rightarrow> qdwin \<Rightarrow> qdwin" where
  "qdwin_handle_request_minimize r k =
     unlocked_request r (with_handle k id (\<lambda>_. qdwin_toplevel_set_minimized k))"

definition qdwin_surface_minimized_requested :: "u32 \<Rightarrow> qdwin \<Rightarrow> qdwin" where
  "qdwin_surface_minimized_requested k s = (if locked s then s else qdwin_toplevel_set_minimized k s)"

definition unminimized :: "toplevel \<Rightarrow> toplevel" where
  "unminimized t = t\<lparr>tl_state := tl_state t AND NOT QDWIN_TS_MINIMIZED\<rparr>"

definition qdwin_handle_request_raise :: "wl_resource \<Rightarrow> u32 \<Rightarrow> qdwin \<Rightarrow> qdwin" where
  "qdwin_handle_request_raise r k =
     unlocked_request r (with_handle k id (\<lambda>t s.
       if tl_pending_decision t then s
       else if has_ts (tl_state t) QDWIN_TS_MINIMIZED
       then send_state_of k
              (qdwin_toplevel_apply_workspace_visibility (unminimized t) (upd_tl k unminimized s))
       else if tl_workspace t = active_workspace s then qdwin_toplevel_move_to_layer t Normal_layer s
       else qdwin_toplevel_apply_workspace_visibility t s))"

section \<open>Pointer-driven focus\<close>

definition in_box :: "coord \<times> coord \<Rightarrow> coord \<times> coord \<Rightarrow> int \<times> int \<Rightarrow> bool" where
  "in_box p q sz \<longleftrightarrow> fst q \<le> fst p \<and> fst p < fst q + of_int (fst sz) \<and>
                     snd q \<le> snd p \<and> snd p < snd q + of_int (snd sz)"

definition chrome_side_hit :: "qdwin \<Rightarrow> coord \<times> coord \<Rightarrow> toplevel \<Rightarrow> side \<Rightarrow> bool" where
  "chrome_side_hit s p t sd \<longleftrightarrow>
     (case tl_chrome t sd of None \<Rightarrow> False
      | Some (sf, v) \<Rightarrow> 0 < fst (surface_size s sf) \<and> 0 < snd (surface_size s sf)
                       \<and> in_box p (view_pos s v) (surface_size s sf))"

definition qdwin_chrome_at_pos :: "qdwin \<Rightarrow> coord \<times> coord \<Rightarrow> (toplevel \<times> side) option" where
  "qdwin_chrome_at_pos s p =
     find (\<lambda>(t, sd). chrome_side_hit s p t sd)
       [(t, sd). t \<leftarrow> toplevels s, \<not> tl_pending_decision t, sd \<leftarrow> all_sides]"

definition content_hit :: "qdwin \<Rightarrow> coord \<times> coord \<Rightarrow> view \<Rightarrow> toplevel option" where
  "content_hit s p v =
     (case find (\<lambda>t. tl_view t = v) (toplevels s) of
        None \<Rightarrow> None
      | Some t \<Rightarrow>
          let sz = surface_size s (view_surface s v)
          in if tl_pending_decision t \<or> fst sz \<le> 0 \<or> snd sz \<le> 0 \<or> \<not> in_box p (view_pos s v) sz
             then None else Some t)"

definition qdwin_toplevel_at_pos :: "qdwin \<Rightarrow> coord \<times> coord \<Rightarrow> toplevel option" where
  "qdwin_toplevel_at_pos s p =
     (case qdwin_chrome_at_pos s p of
        Some (t, _) \<Rightarrow> Some t
      | None \<Rightarrow> find (\<lambda>_. True) (List.map_filter (content_hit s p) (layer_views s Normal_layer)))"

text \<open>The click-to-focus block of the default pointer grab, for a left press on seat \<open>i\<close> at \<open>p\<close>
  that did not land on a layer surface.\<close>

definition click_to_focus :: "nat \<Rightarrow> coord \<times> coord \<Rightarrow> qdwin \<Rightarrow> qdwin" where
  "click_to_focus i p s =
     (case qdwin_toplevel_at_pos s p of
        None \<Rightarrow> s
      | Some t \<Rightarrow>
          let s1 = (if raise_on_click (wm_policy s) then qdwin_toplevel_move_to_layer t Normal_layer s else s);
              sf = view_surface s (tl_view t)
          in if weston_seat_get_keyboard s1 i \<noteq> None \<and> kbd_focus s1 i \<noteq> Some sf
             then qdwin_emit_seat_focus_changed i (tl_handle t) (weston_keyboard_set_focus i (Some sf) s1)
             else s1)"

definition qdwin_toplevel_raise :: "toplevel \<Rightarrow> qdwin \<Rightarrow> qdwin" where
  "qdwin_toplevel_raise t s =
     (if tl_pending_decision t \<or> has_ts (tl_state t) QDWIN_TS_MINIMIZED \<or> tl_workspace t \<noteq> active_workspace s
      then s else qdwin_toplevel_move_to_layer t Normal_layer s)"

definition qdwin_toplevel_focus :: "toplevel \<Rightarrow> bool \<Rightarrow> qdwin \<Rightarrow> qdwin" where
  "qdwin_toplevel_focus t raise s =
     (if locked s \<or> tl_pending_decision t \<or> \<not> surface_mapped s (view_surface s (tl_view t))
         \<or> tl_workspace t \<noteq> active_workspace s
      then s
      else
        let s1 = (if raise then qdwin_toplevel_raise t s else s); sf = view_surface s (tl_view t)
        in fold (\<lambda>i u. if weston_seat_get_keyboard u i \<noteq> None \<and> kbd_focus u i \<noteq> Some sf
                       then qdwin_emit_seat_focus_changed i (tl_handle t) (weston_keyboard_set_focus i (Some sf) u)
                       else u) (map seat_id (seats s1)) s1)"

abbreviation QDWIN_FOCUS_FOLLOW_MOUSE :: u32 where "QDWIN_FOCUS_FOLLOW_MOUSE \<equiv> 1"
abbreviation QDWIN_FFM_DELAY_MAX :: u32 where "QDWIN_FFM_DELAY_MAX \<equiv> 1000"

definition qdwin_ffm_cancel :: "qdwin \<Rightarrow> qdwin" where
  "qdwin_ffm_cancel s = s\<lparr>ffm_pending_handle := 0, ffm_armed := None\<rparr>"

definition qdwin_ffm_timer_cb :: "qdwin \<Rightarrow> qdwin" where
  "qdwin_ffm_timer_cb s0 =
     (let s = s0\<lparr>ffm_armed := None\<rparr>
      in if locked s \<or> move_grab s \<noteq> None \<or> focus_policy (wm_policy s) \<noteq> QDWIN_FOCUS_FOLLOW_MOUSE then s
         else case qdwin_first_pointer s \<bind> qdwin_toplevel_at_pos s of
                None \<Rightarrow> s
              | Some t \<Rightarrow> if tl_handle t \<noteq> ffm_pending_handle s then s
                         else qdwin_toplevel_focus t (raise_on_hover (wm_policy s)) s)"

definition qdwin_ffm_consider :: "nat \<Rightarrow> coord \<times> coord \<Rightarrow> qdwin \<Rightarrow> qdwin" where
  "qdwin_ffm_consider i p s =
     (if locked s \<or> move_grab s \<noteq> None \<or> focus_policy (wm_policy s) \<noteq> QDWIN_FOCUS_FOLLOW_MOUSE then s
      else case qdwin_toplevel_at_pos s p of
             None \<Rightarrow> qdwin_ffm_cancel s
           | Some t \<Rightarrow>
               if weston_seat_get_keyboard s i \<noteq> None \<and> kbd_focus s i = Some (view_surface s (tl_view t))
               then qdwin_ffm_cancel s
               else if ffm_delay_ms (wm_policy s) = 0
               then qdwin_toplevel_focus t (raise_on_hover (wm_policy s)) (s\<lparr>ffm_pending_handle := 0\<rparr>)
               else if ffm_pending_handle s \<noteq> tl_handle t
               then s\<lparr>ffm_pending_handle := tl_handle t,
                      ffm_armed := Some (min (ffm_delay_ms (wm_policy s)) QDWIN_FFM_DELAY_MAX)\<rparr>
               else s)"

definition qdwin_handle_set_wm_policy ::
  "wl_resource \<Rightarrow> u32 \<Rightarrow> u32 \<Rightarrow> u32 \<Rightarrow> u32 \<Rightarrow> u32 \<Rightarrow> u32 \<Rightarrow> u32 \<Rightarrow> qdwin \<Rightarrow> qdwin" where
  "qdwin_handle_set_wm_policy r fp delay rclick rhover pl snap sdist =
     qdwin_shell_require_bound r (\<lambda>s.
       let p = \<lparr>focus_policy = (if fp = QDWIN_FOCUS_FOLLOW_MOUSE then QDWIN_FOCUS_FOLLOW_MOUSE else 0),
                ffm_delay_ms = (if QDWIN_FFM_DELAY_MAX < delay then QDWIN_FFM_DELAY_MAX else delay),
                raise_on_click = (rclick \<noteq> 0), raise_on_hover = (rhover \<noteq> 0),
                placement = (if pl \<in> {QDWIN_PLACE_CENTER, QDWIN_PLACE_UNDER_MOUSE, QDWIN_PLACE_SMART, QDWIN_PLACE_CASCADE}
                             then pl else QDWIN_PLACE_SMART),
                snap_enabled = (snap \<noteq> 0), snap_distance = clamp_dist sdist\<rparr>;
           s1 = s\<lparr>wm_policy := p\<rparr>
       in if focus_policy p \<noteq> QDWIN_FOCUS_FOLLOW_MOUSE then qdwin_ffm_cancel s1 else s1)"

section \<open>Where the views end up\<close>

text \<open>Moving a list of views to a layer: each of them is on that layer and on no other, mapped
  exactly when the layer is visible; every other view stays where it was.\<close>

lemma fold_move_sceneless [simp]:
  "sceneless (fold (\<lambda>v. weston_view_move_to_layer v L) vs s) = sceneless s"
  by (rule fold_keeps) (simp add: move_to_layer_scene)

lemma fold_move_views:
  "set (layer_views (fold (\<lambda>v. weston_view_move_to_layer v L) vs s) M) =
     (if M = L then set vs \<union> set (layer_views s L) else set (layer_views s M) - set vs)"
  by (induction vs arbitrary: s) (auto simp: move_to_layer_scene)

lemma fold_move_mapped:
  "view_mapped (fold (\<lambda>v. weston_view_move_to_layer v L) vs s) v =
     (if v \<in> set vs then layer_is_visible s L else view_mapped s v)"
proof (induction vs arbitrary: s)
  case (Cons a vs)
  have "layer_is_visible (weston_view_move_to_layer a L s) L = layer_is_visible s L"
    by (simp add: layer_is_visible_def)
  then show ?case
    using Cons.IH [of "weston_view_move_to_layer a L s"] by (simp add: move_to_layer_scene)
qed simp

definition target_layer :: "toplevel \<Rightarrow> layer \<Rightarrow> layer" where
  "target_layer t L = (if tl_pending_decision t \<and> L = Normal_layer then Held_layer else L)"

lemma toplevel_move_views:
  "set (layer_views (qdwin_toplevel_move_to_layer t L s) M) =
     (if M = target_layer t L then set (tl_views t) \<union> set (layer_views s M)
      else set (layer_views s M) - set (tl_views t))"
  "view_mapped (qdwin_toplevel_move_to_layer t L s) v =
     (if v \<in> set (tl_views t) then layer_is_visible s (target_layer t L) else view_mapped s v)"
  by (simp_all only: qdwin_toplevel_move_to_layer_def Let_def target_layer_def fold_move_views fold_move_mapped)
    simp

lemma tl_view_in [simp]: "tl_view t \<in> set (tl_views t)"
  by (simp add: tl_views_def)

lemma seats_emit [simp]: "seats (emit e s) = seats s" "seats (send_shell n f s) = seats s"
  by (simp_all add: emit_def send_shell_def)

lemma seats_emit_focus_now [simp]: "seats (qdwin_seat_emit_focus_now i s) = seats s"
  by (simp add: qdwin_seat_emit_focus_now_def Let_def qdwin_emit_seat_focus_changed_def upd_tracker_def
      split: option.split)

lemma kbd_focus_cong: "seats a = seats b \<Longrightarrow> kbd_focus a i = kbd_focus b i"
  "seats a = seats b \<Longrightarrow> weston_seat_get_keyboard a i = weston_seat_get_keyboard b i"
  by (simp_all add: kbd_focus_def weston_seat_get_keyboard_def seat_of_def)

text \<open>A surface that no client owns cannot hold the keyboard focus.\<close>

definition focusable :: "qdwin \<Rightarrow> surface option \<Rightarrow> surface option" where
  "focusable s so = (case so of None \<Rightarrow> None | Some x \<Rightarrow> if surface_client s x = None then None else Some x)"

lemma kbd_focus_set_focus:
  "kbd_focus (weston_keyboard_set_focus i so s) j =
     (if j = i \<and> weston_seat_get_keyboard s i \<noteq> None then focusable s so else kbd_focus s j)"
  "weston_seat_get_keyboard (weston_keyboard_set_focus i so s) j = None \<longleftrightarrow> weston_seat_get_keyboard s j = None"
proof -
  have keep: "seats (qdwin_on_keyboard_focus_changed j u) = seats u" for j u
    by (simp add: qdwin_on_keyboard_focus_changed_def)
  have fk: "seats (fold (\<lambda>tr. qdwin_on_keyboard_focus_changed (tr_seat tr)) xs u) = seats u"
    for xs :: "seat_tracker list" and u
    by (rule fold_keeps) (simp add: keep)
  let ?f = "\<lambda>x. x\<lparr>seat_kbd := map_option (\<lambda>k. k\<lparr>kb_focus := focusable s so\<rparr>) (seat_kbd x)\<rparr>"
  have st: "seats (weston_keyboard_set_focus i so s) =
      (if weston_seat_get_keyboard s i = None then seats s else upd_where (\<lambda>x. seat_id x = i) ?f (seats s))"
    by (auto simp: weston_keyboard_set_focus_def Let_def fk upd_kbd_def upd_seat_def focusable_def
        split: option.split)
  have so: "seat_of (weston_keyboard_set_focus i so s) j =
      (if weston_seat_get_keyboard s i = None \<or> j \<noteq> i then seat_of s j else map_option ?f (seat_of s i))"
    using find_upd_where [of seat_id i ?f j "seats s"] by (auto simp: seat_of_def st)
  show "kbd_focus (weston_keyboard_set_focus i so s) j =
     (if j = i \<and> weston_seat_get_keyboard s i \<noteq> None then focusable s so else kbd_focus s j)"
    by (auto simp: kbd_focus_def weston_seat_get_keyboard_def so bind_eq_Some_conv split: option.splits)
  show "weston_seat_get_keyboard (weston_keyboard_set_focus i so s) j = None \<longleftrightarrow> weston_seat_get_keyboard s j = None"
    by (auto simp: weston_seat_get_keyboard_def so split: bind_splits option.splits if_splits)
qed

lemma kbd_focus_set:
  assumes "weston_seat_get_keyboard s i \<noteq> None" and "surface_client s x \<noteq> None"
  shows "kbd_focus (weston_keyboard_set_focus i (Some x) s) i = Some x"
  using assms by (auto simp: kbd_focus_set_focus focusable_def)

lemma move_visible_seats:
  "layer_is_visible s L \<Longrightarrow> seats (weston_view_move_to_layer v L s) = seats s"
  by (simp add: weston_view_move_to_layer_def Let_def)

lemma toplevel_move_visible_seats:
  assumes "layer_is_visible s (target_layer t L)"
  shows "seats (qdwin_toplevel_move_to_layer t L s) = seats s"
proof -
  have "layer_is_visible u M \<Longrightarrow> seats (fold (\<lambda>v. weston_view_move_to_layer v M) vs u) = seats u" for vs M u
    by (induction vs arbitrary: u) (auto simp: move_visible_seats layer_is_visible_def)
  then show ?thesis
    using assms by (simp add: qdwin_toplevel_move_to_layer_def Let_def target_layer_def)
qed

lemma chrome_at_pos_undecided:
  "qdwin_chrome_at_pos s p = Some (t, sd) \<Longrightarrow> t \<in> set (toplevels s) \<and> \<not> tl_pending_decision t"
  unfolding qdwin_chrome_at_pos_def by (drule find_Some_mem) auto

section \<open>Properties\<close>

text \<open>C33: the hit test for chrome looks at every window, also at minimised ones and at those of other
  workspaces. A left press on the place where the title bar of such a window was puts the
  invisible window onto the visible normal layer and gives it the keyboard focus.\<close>

theorem click_on_hidden_chrome_shows_window:
  assumes "qdwin_chrome_at_pos s p = Some (t, sd)" and "\<not> qdwin_toplevel_is_visible s t"
    and "raise_on_click (wm_policy s)" and "layer_is_visible s Normal_layer"
    and "weston_seat_get_keyboard s i \<noteq> None"
    and "surface_client s (view_surface s (tl_view t)) \<noteq> None"
  shows "set (tl_views t) \<subseteq> set (layer_views (click_to_focus i p s) Normal_layer) \<and>
         kbd_focus (click_to_focus i p s) i = Some (view_surface s (tl_view t))"
proof -
  have np: "\<not> tl_pending_decision t"
    using chrome_at_pos_undecided [OF assms(1)] by simp
  let ?s1 = "qdwin_toplevel_move_to_layer t Normal_layer s" and ?sf = "view_surface s (tl_view t)"
  have tg: "target_layer t Normal_layer = Normal_layer"
    using np by (simp add: target_layer_def)
  have seats: "seats ?s1 = seats s"
    using assms(4) tg by (simp add: toplevel_move_visible_seats)
  have kb: "weston_seat_get_keyboard ?s1 i \<noteq> None"
    using assms(5) seats by (simp add: weston_seat_get_keyboard_def seat_of_def)
  have lv: "set (tl_views t) \<subseteq> set (layer_views ?s1 Normal_layer)"
    using tg by (simp add: toplevel_move_views)
  have emitf: "kbd_focus (qdwin_emit_seat_focus_changed i h u) i = kbd_focus u i" for h u
    by (simp add: qdwin_emit_seat_focus_changed_def send_shell_def emit_def kbd_focus_def
        weston_seat_get_keyboard_def seat_of_def)
  have emitl: "layer_views (qdwin_emit_seat_focus_changed i h u) = layer_views u" for h u
    by (simp add: qdwin_emit_seat_focus_changed_def)
  have at: "qdwin_toplevel_at_pos s p = Some t"
    using assms(1) by (simp add: qdwin_toplevel_at_pos_def)
  show ?thesis
    using assms(3,6) kb lv kbd_focus_set [OF kb, of ?sf]
    by (simp add: click_to_focus_def at Let_def emitf emitl)
qed

definition demo_seat :: weston_seat where
  "demo_seat = \<lparr>seat_id = 0, seat_name = ''seat0'',
     seat_kbd = Some \<lparr>kb_id = 0, kb_devices = 1, kb_focus = None, kb_grab = Default_grab\<rparr>,
     seat_pointer = Some (0, 0)\<rparr>"

definition demo_hidden :: toplevel where
  "demo_hidden = demo_toplevel\<lparr>tl_state := QDWIN_TS_MINIMIZED, tl_workspace := 2,
     tl_chrome := (\<lambda>sd. if sd = QDWIN_SIDE_N then Some (31, 32) else None)\<rparr>"

definition demo_click :: qdwin where
  "demo_click = demo_state\<lparr>toplevels := [demo_hidden], seats := [demo_seat],
     surface_size := (\<lambda>_. (640, 30)), surface_client := (\<lambda>_. Some 5)\<rparr>"

theorem click_on_hidden_chrome_shows_window_witness:
  "set (tl_views demo_hidden) \<subseteq> set (layer_views (click_to_focus 0 (110, 70) demo_click) Normal_layer) \<and>
   kbd_focus (click_to_focus 0 (110, 70) demo_click) 0 = Some (view_surface demo_click (tl_view demo_hidden))"
proof (rule click_on_hidden_chrome_shows_window)
  show "qdwin_chrome_at_pos demo_click (110, 70) = Some (demo_hidden, QDWIN_SIDE_N)"
    by (simp add: qdwin_chrome_at_pos_def demo_click_def demo_hidden_def demo_state_def demo_toplevel_def
        zero_toplevel_def all_sides_def chrome_side_hit_def in_box_def)
qed (simp_all add: demo_click_def demo_hidden_def demo_state_def wet_shell_init_def
    qdwin_wm_policy_set_defaults_def layer_is_visible_def weston_seat_get_keyboard_def seat_of_def
    demo_seat_def qdwin_toplevel_is_visible_def has_ts_def)

text \<open>Minimising a window and raising it again: in between, none of its views is mapped; after
  the raise the minimised bit is clear and its views are on the normal layer if the window
  belongs to the active workspace, and parked on the hidden layer otherwise.\<close>

theorem minimize_raise:
  assumes "shell_bound s" and "shell_resource s = Some r" and "\<not> locked s" and "\<not> nested_mode s"
    and "layer_position s Minimized_layer = None"
    and "qdwin_toplevel_from_handle s k = Some t" and "\<not> tl_pending_decision t" and "tl_decorated t"
    and "\<not> qdwin_toplevel_is_locker_ui s t" and "\<not> has_ts (tl_state t) QDWIN_TS_MINIMIZED"
  shows "(let s1 = qdwin_handle_request_minimize r k s; s2 = qdwin_handle_request_raise r k s1
     in (\<forall>v \<in> set (tl_views t). \<not> view_mapped s1 v \<and> v \<in> set (layer_views s1 Minimized_layer)) \<and>
        qdwin_toplevel_from_handle s2 k = Some t \<and>
        (\<forall>v \<in> set (tl_views t). v \<in> set (layer_views s2
           (if tl_workspace t = active_workspace s then Normal_layer else Workspace_hidden_layer))))"
proof -
  let ?m = "qdwin_toplevel_move_to_layer t Minimized_layer s"
  let ?f = "\<lambda>t :: toplevel. t\<lparr>tl_state := tl_state t OR QDWIN_TS_MINIMIZED\<rparr>"
  let ?s1 = "send_state_of k (upd_tl k ?f ?m)"
  have s1: "qdwin_handle_request_minimize r k s = ?s1"
    using assms by (simp add: qdwin_handle_request_minimize_def unlocked_request_def
        qdwin_shell_require_bound_def with_handle_def qdwin_toplevel_set_minimized_def)
  have m: "qdwin_toplevel_from_handle ?m k = Some t"
    using assms(6) by (simp add: qdwin_toplevel_from_handle_def)
  have f1: "qdwin_toplevel_from_handle ?s1 k = Some (?f t)"
    using m by (simp add: from_handle_upd_tl)
  have un: "unminimized (?f t) = t"
    using assms(10) clear_bit [of "tl_state t" 4] by (simp add: unminimized_def has_ts_def)
  have hs: "has_ts (tl_state t OR QDWIN_TS_MINIMIZED) QDWIN_TS_MINIMIZED"
    by (simp add: has_ts_def bit.conj_disj_distrib2)
  let ?u = "upd_tl k unminimized ?s1"
  let ?L = "if tl_workspace t = active_workspace s then Normal_layer else Workspace_hidden_layer"
  have s2: "qdwin_handle_request_raise r k ?s1 = send_state_of k (qdwin_toplevel_move_to_layer t ?L ?u)"
    using assms f1 un hs
    by (auto simp: qdwin_handle_request_raise_def unlocked_request_def qdwin_shell_require_bound_def
        with_handle_def qdwin_toplevel_apply_workspace_visibility_def qdwin_toplevel_is_locker_ui_def)
  have f2: "qdwin_toplevel_from_handle (qdwin_toplevel_move_to_layer t ?L ?u) k = Some t"
  proof -
    have "qdwin_toplevel_from_handle ?u k = Some t"
      using from_handle_upd_tl [of k unminimized ?s1 k] un unfolding f1 by (simp add: unminimized_def)
    then show ?thesis
      by (simp add: qdwin_toplevel_from_handle_def)
  qed
  show ?thesis
    unfolding Let_def s1 s2 using assms(5,7) f2
    by (auto simp: toplevel_move_views target_layer_def layer_is_visible_def)
qed

definition demo_plain :: qdwin where
  "demo_plain = demo_bound\<lparr>seats := [demo_seat], surface_client := (\<lambda>_. Some 5)\<rparr>"

theorem minimize_raise_witness:
  "(let s1 = qdwin_handle_request_minimize demo_shell 1 demo_plain; s2 = qdwin_handle_request_raise demo_shell 1 s1
     in (\<forall>v \<in> set (tl_views demo_toplevel). \<not> view_mapped s1 v \<and> v \<in> set (layer_views s1 Minimized_layer)) \<and>
        qdwin_toplevel_from_handle s2 1 = Some demo_toplevel \<and>
        (\<forall>v \<in> set (tl_views demo_toplevel). v \<in> set (layer_views s2
           (if tl_workspace demo_toplevel = active_workspace demo_plain then Normal_layer else Workspace_hidden_layer))))"
  by (rule minimize_raise)
    (simp_all add: demo_plain_def demo_bound_def demo_state_def wet_shell_init_def demo_toplevel_def zero_toplevel_def
      qdwin_toplevel_from_handle_def qdwin_toplevel_is_locker_ui_def has_ts_def)

text \<open>Chrome attached to a minimised window of the active workspace goes to the visible normal
  layer, although the window itself is parked on the minimised layer.\<close>

theorem chrome_of_minimized_window_shown:
  assumes "qdwin_toplevel_from_handle s k = Some t" and "tl_decorated t"
    and "has_ts (tl_state t) QDWIN_TS_MINIMIZED" and "tl_workspace t = active_workspace s"
    and "tl_chrome t sd = None" and "layer_is_visible s Normal_layer"
  shows "next_id s \<in> set (layer_views (qdwin_chrome_attach_side k sd (Some sf) s) Normal_layer) \<and>
         view_mapped (qdwin_chrome_attach_side k sd (Some sf) s) (next_id s) \<and>
         surface_mapped (qdwin_chrome_attach_side k sd (Some sf) s) sf"
  using assms
  by (simp add: qdwin_chrome_attach_side_def qdwin_chrome_detach_def Let_def chrome_layer_def
      move_to_layer_scene upd_tl_def layer_is_visible_def)

theorem chrome_of_minimized_window_shown_witness:
  "(let s = demo_state\<lparr>toplevels := [demo_toplevel\<lparr>tl_state := QDWIN_TS_MINIMIZED\<rparr>]\<rparr>
    in next_id s \<in> set (layer_views (qdwin_chrome_attach_side 1 QDWIN_SIDE_N (Some 31) s) Normal_layer) \<and>
       view_mapped (qdwin_chrome_attach_side 1 QDWIN_SIDE_N (Some 31) s) (next_id s) \<and>
       surface_mapped (qdwin_chrome_attach_side 1 QDWIN_SIDE_N (Some 31) s) 31)"
  unfolding Let_def
  by (rule chrome_of_minimized_window_shown [where t = "demo_toplevel\<lparr>tl_state := QDWIN_TS_MINIMIZED\<rparr>"])
    (simp_all add: qdwin_toplevel_from_handle_def demo_state_def demo_toplevel_def zero_toplevel_def
      wet_shell_init_def has_ts_def layer_is_visible_def)

end
