(* ===== verification/Workspace.thy ===== *)
theory Workspace
  imports Windows
begin

text \<open>
  Workspaces: switching, creating and removing them with the windows they hold, keyboard
  focus after a change, and the server side of the public ext-workspace protocol, whose
  requests are staged per manager and take effect on commit. Group membership events and
  the constant identifier, coordinate and capability events of a handle are not recorded
  in the trace; memory exhaustion is not modelled.
\<close>

section \<open>Focus after a change\<close>

definition refocus_seat :: "toplevel option \<Rightarrow> nat \<Rightarrow> qdwin \<Rightarrow> qdwin" where
  "refocus_seat want i s =
     (if weston_seat_get_keyboard s i = None then s
      else if (case qdwin_toplevel_by_surface s (kbd_focus s i) of
                 None \<Rightarrow> False | Some t \<Rightarrow> qdwin_toplevel_is_visible s t)
      then s
      else qdwin_seat_emit_focus_now i
             (case want of
                Some t \<Rightarrow> weston_view_activate_input (tl_view t) i s
              | None \<Rightarrow> weston_keyboard_set_focus i None s))"

definition qdwin_workspace_refocus_seats :: "qdwin \<Rightarrow> qdwin" where
  "qdwin_workspace_refocus_seats s =
     (if locked s then s
      else fold (refocus_seat (find (qdwin_toplevel_is_visible s) (toplevels s))) (map seat_id (seats s)) s)"

section \<open>Handles of the workspace protocol\<close>

fun show_nat :: "nat \<Rightarrow> string" where
  "show_nat n = (if n < 10 then [char_of (48 + n)] else show_nat (n div 10) @ [char_of (48 + n mod 10)])"

declare show_nat.simps [simp del]

definition workspace_label :: "qdwin \<Rightarrow> nat \<Rightarrow> string" where
  "workspace_label s i =
     (case (if i < QDWIN_MAX_WORKSPACES then workspace_names s i else None) of
        Some (c # cs) \<Rightarrow> c # cs
      | _ \<Rightarrow> show_nat (i + 1))"

definition upd_wsm :: "nat \<Rightarrow> (ext_ws_manager \<Rightarrow> ext_ws_manager) \<Rightarrow> qdwin \<Rightarrow> qdwin" where
  "upd_wsm m f s = s\<lparr>ext_ws_managers := upd_where (\<lambda>x. wsm_id x = m) f (ext_ws_managers s)\<rparr>"

definition find_wsm :: "qdwin \<Rightarrow> nat \<Rightarrow> ext_ws_manager option" where
  "find_wsm s m = find (\<lambda>x. wsm_id x = m) (ext_ws_managers s)"

definition qdwin_ext_ws_send_handle_details :: "nat \<Rightarrow> nat \<Rightarrow> qdwin \<Rightarrow> qdwin" where
  "qdwin_ext_ws_send_handle_details h i s =
     emit (Ws (ws_state h (i = active_workspace s))) (emit (Ws (ws_name h (workspace_label s i))) s)"

definition qdwin_ext_ws_manager_create_handles :: "nat \<Rightarrow> qdwin \<Rightarrow> qdwin" where
  "qdwin_ext_ws_manager_create_handles m s =
     (let n = min (workspace_count s) QDWIN_MAX_WORKSPACES; b = next_id s;
          s1 = s\<lparr>next_id := b + n,
                 ws_handle_refs := (\<lambda>h. if b \<le> h \<and> h < b + n then Some (Some m, h - b) else ws_handle_refs s h)\<rparr>;
          s2 = upd_wsm m (\<lambda>x. x\<lparr>wsm_handles := map (\<lambda>i. Some (b + i)) [0..<n]\<rparr>) s1
      in fold (\<lambda>i u. qdwin_ext_ws_send_handle_details (b + i) i (emit (Ws (ws_workspace m (b + i))) u)) [0..<n] s2)"

definition qdwin_ext_ws_manager_destroy_handles :: "nat \<Rightarrow> qdwin \<Rightarrow> qdwin" where
  "qdwin_ext_ws_manager_destroy_handles m s =
     (case find_wsm s m of
        None \<Rightarrow> s
      | Some x \<Rightarrow>
          let hs = List.map_filter id (wsm_handles x);
              s1 = s\<lparr>ws_handle_refs := (\<lambda>h. if h \<in> set hs then map_option (\<lambda>(_, i). (None, i)) (ws_handle_refs s h)
                                            else ws_handle_refs s h)\<rparr>
          in upd_wsm m (\<lambda>x. x\<lparr>wsm_handles := []\<rparr>) (fold (\<lambda>h. emit (Ws (ws_removed h))) hs s1))"

definition qdwin_ext_ws_manager_resync :: "nat \<Rightarrow> qdwin \<Rightarrow> qdwin" where
  "qdwin_ext_ws_manager_resync m s =
     (case find_wsm s m of
        None \<Rightarrow> s
      | Some x \<Rightarrow>
          if wsm_stopped x then s
          else emit (Ws (ws_done m))
                 (qdwin_ext_ws_manager_create_handles m (qdwin_ext_ws_manager_destroy_handles m s)))"

definition qdwin_ext_ws_resync_all :: "qdwin \<Rightarrow> qdwin" where
  "qdwin_ext_ws_resync_all s = fold qdwin_ext_ws_manager_resync (map wsm_id (ext_ws_managers s)) s"

definition live_handles :: "qdwin \<Rightarrow> ext_ws_manager \<Rightarrow> (nat \<times> nat) list" where
  "live_handles s x =
     [(i, the (wsm_handles x ! i)). i \<leftarrow> [0..<min (length (wsm_handles x)) (workspace_count s)],
        wsm_handles x ! i \<noteq> None]"

definition qdwin_ext_ws_broadcast_state :: "qdwin \<Rightarrow> qdwin" where
  "qdwin_ext_ws_broadcast_state s =
     fold (\<lambda>x u. if wsm_stopped x \<or> live_handles s x = [] then u
                 else emit (Ws (ws_done (wsm_id x)))
                        (fold (\<lambda>(i, h). emit (Ws (ws_state h (i = active_workspace s)))) (live_handles s x) u))
       (ext_ws_managers s) s"

definition qdwin_ext_ws_broadcast_name :: "nat \<Rightarrow> qdwin \<Rightarrow> qdwin" where
  "qdwin_ext_ws_broadcast_name i s =
     (if QDWIN_MAX_WORKSPACES \<le> i then s
      else fold (\<lambda>x u. if wsm_stopped x \<or> length (wsm_handles x) \<le> i then u
                       else case wsm_handles x ! i of
                              None \<Rightarrow> u
                            | Some h \<Rightarrow> emit (Ws (ws_done (wsm_id x))) (emit (Ws (ws_name h (workspace_label s i))) u))
             (ext_ws_managers s) s)"

section \<open>Workspace operations\<close>

definition apply_all_visibility :: "qdwin \<Rightarrow> qdwin" where
  "apply_all_visibility s = fold qdwin_toplevel_apply_workspace_visibility (toplevels s) s"

definition qdwin_set_active_workspace :: "nat \<Rightarrow> qdwin \<Rightarrow> qdwin" where
  "qdwin_set_active_workspace i s =
     (if workspace_count s \<le> i then s
      else qdwin_ext_ws_broadcast_state
             (if i = active_workspace s then s
              else qdwin_workspace_refocus_seats (apply_all_visibility (s\<lparr>active_workspace := i\<rparr>))))"

definition qdwin_workspace_create :: "qdwin \<Rightarrow> qdwin" where
  "qdwin_workspace_create s =
     (if QDWIN_MAX_WORKSPACES \<le> workspace_count s then s
      else qdwin_ext_ws_resync_all (s\<lparr>workspace_count := workspace_count s + 1\<rparr>))"

text \<open>Where a window of workspace \<open>w\<close> goes when workspace \<open>i\<close> is removed.\<close>

definition shift_workspace :: "nat \<Rightarrow> nat \<Rightarrow> nat" where
  "shift_workspace i w =
     (if w = i then (if 0 < i then i - 1 else 0) else if i < w then w - 1 else w)"

definition remove_active :: "nat \<Rightarrow> nat \<Rightarrow> nat \<Rightarrow> nat" where
  "remove_active i count a =
     (let a1 = (if i < a then a - 1 else if a = i \<and> 0 < i then a - 1 else a)
      in if count \<le> a1 then count - 1 else a1)"

definition qdwin_workspace_remove :: "nat \<Rightarrow> qdwin \<Rightarrow> qdwin" where
  "qdwin_workspace_remove i s =
     (if workspace_count s \<le> 1 \<or> workspace_count s \<le> i then s
      else
        let n = workspace_count s - 1;
            s1 = s\<lparr>toplevels := map (\<lambda>t. t\<lparr>tl_workspace := shift_workspace i (tl_workspace t)\<rparr>) (toplevels s),
                   workspace_count := n, active_workspace := remove_active i n (active_workspace s)\<rparr>;
            s2 = qdwin_workspace_refocus_seats (apply_all_visibility s1);
            s3 = fold qdwin_emit_toplevel_workspace (toplevels s2) s2
        in qdwin_ext_ws_resync_all s3)"

section \<open>Requests\<close>

definition qdwin_ext_ws_pending_add :: "nat \<Rightarrow> ext_ws_op \<Rightarrow> qdwin \<Rightarrow> qdwin" where
  "qdwin_ext_ws_pending_add m op = upd_wsm m (\<lambda>x. x\<lparr>wsm_pending := wsm_pending x @ [op]\<rparr>)"

definition qdwin_ext_ws_pending_clear :: "nat \<Rightarrow> qdwin \<Rightarrow> qdwin" where
  "qdwin_ext_ws_pending_clear m = upd_wsm m (\<lambda>x. x\<lparr>wsm_pending := []\<rparr>)"

fun apply_ws_op :: "ext_ws_op \<Rightarrow> qdwin \<Rightarrow> qdwin" where
  "apply_ws_op (Op_activate i) = qdwin_set_active_workspace i"
| "apply_ws_op Op_create = qdwin_workspace_create"
| "apply_ws_op (Op_remove i) = qdwin_workspace_remove i"

definition qdwin_ext_ws_manager_flush :: "nat \<Rightarrow> qdwin \<Rightarrow> qdwin" where
  "qdwin_ext_ws_manager_flush m s =
     (case find_wsm s m of
        None \<Rightarrow> s
      | Some x \<Rightarrow> if wsm_stopped x then qdwin_ext_ws_pending_clear m s
                  else qdwin_ext_ws_pending_clear m (fold apply_ws_op (wsm_pending x) s))"

definition with_ws_handle :: "nat \<Rightarrow> (nat \<Rightarrow> nat \<Rightarrow> qdwin \<Rightarrow> qdwin) \<Rightarrow> qdwin \<Rightarrow> qdwin" where
  "with_ws_handle h f s = (case ws_handle_refs s h of Some (Some m, i) \<Rightarrow> f m i s | _ \<Rightarrow> s)"

definition qdwin_ext_ws_handle_activate :: "nat \<Rightarrow> qdwin \<Rightarrow> qdwin" where
  "qdwin_ext_ws_handle_activate h = with_ws_handle h (\<lambda>m i. qdwin_ext_ws_pending_add m (Op_activate i))"

definition qdwin_ext_ws_handle_remove :: "nat \<Rightarrow> qdwin \<Rightarrow> qdwin" where
  "qdwin_ext_ws_handle_remove h = with_ws_handle h (\<lambda>m i. qdwin_ext_ws_pending_add m (Op_remove i))"

definition qdwin_ext_ws_handle_resource_destroy :: "nat \<Rightarrow> qdwin \<Rightarrow> qdwin" where
  "qdwin_ext_ws_handle_resource_destroy h s =
     (let s1 = with_ws_handle h (\<lambda>m i. upd_wsm m (\<lambda>x.
                 if i < length (wsm_handles x) \<and> wsm_handles x ! i = Some h
                 then x\<lparr>wsm_handles := (wsm_handles x)[i := None]\<rparr> else x)) s
      in s1\<lparr>ws_handle_refs := (ws_handle_refs s1)(h := None)\<rparr>)"

text \<open>The group object carries the manager; it is found by its number.\<close>

definition qdwin_ext_ws_group_create_workspace :: "nat \<Rightarrow> qdwin \<Rightarrow> qdwin" where
  "qdwin_ext_ws_group_create_workspace g s =
     (case find (\<lambda>x. wsm_group x = Some g) (ext_ws_managers s) of
        None \<Rightarrow> s
      | Some x \<Rightarrow> qdwin_ext_ws_pending_add (wsm_id x) Op_create s)"

definition qdwin_ext_ws_group_resource_destroy :: "nat \<Rightarrow> qdwin \<Rightarrow> qdwin" where
  "qdwin_ext_ws_group_resource_destroy g s =
     s\<lparr>ext_ws_managers := upd_where (\<lambda>x. wsm_group x = Some g) (\<lambda>x. x\<lparr>wsm_group := None\<rparr>) (ext_ws_managers s)\<rparr>"

definition qdwin_ext_ws_manager_commit :: "nat \<Rightarrow> qdwin \<Rightarrow> qdwin" where
  "qdwin_ext_ws_manager_commit = qdwin_ext_ws_manager_flush"

definition qdwin_ext_ws_manager_resource_destroy :: "nat \<Rightarrow> qdwin \<Rightarrow> qdwin" where
  "qdwin_ext_ws_manager_resource_destroy m s =
     (case find_wsm s m of
        None \<Rightarrow> s
      | Some x \<Rightarrow>
          let hs = List.map_filter id (wsm_handles x)
          in s\<lparr>ext_ws_managers := [y \<leftarrow> ext_ws_managers s. wsm_id y \<noteq> m],
               ws_handle_refs := (\<lambda>h. if h \<in> set hs then map_option (\<lambda>(_, i). (None, i)) (ws_handle_refs s h)
                                      else ws_handle_refs s h)\<rparr>)"

definition qdwin_ext_ws_manager_stop :: "nat \<Rightarrow> qdwin \<Rightarrow> qdwin" where
  "qdwin_ext_ws_manager_stop m s =
     (case find_wsm s m of
        None \<Rightarrow> s
      | Some _ \<Rightarrow>
          qdwin_ext_ws_manager_resource_destroy m
            (emit (Ws (ws_finished m))
              (qdwin_ext_ws_pending_clear m (upd_wsm m (\<lambda>x. x\<lparr>wsm_stopped := True\<rparr>) s))))"

definition bind_ext_workspace_manager :: "qdwin \<Rightarrow> qdwin" where
  "bind_ext_workspace_manager s =
     (let m = next_id s;
          x = \<lparr>wsm_id = m, wsm_group = Some (m + 1), wsm_handles = [], wsm_pending = [], wsm_stopped = False\<rparr>;
          s1 = s\<lparr>next_id := m + 2, ext_ws_managers := x # ext_ws_managers s\<rparr>
      in emit (Ws (ws_done m)) (qdwin_ext_ws_manager_create_handles m s1))"

definition qdwin_handle_move_toplevel_to_workspace :: "wl_resource \<Rightarrow> u32 \<Rightarrow> u32 \<Rightarrow> qdwin \<Rightarrow> qdwin" where
  "qdwin_handle_move_toplevel_to_workspace r k i =
     qdwin_shell_require_bound r
       (with_handle k (emit (Post_error (res_id r) ERROR_INVALID_HANDLE))
         (\<lambda>t s. if workspace_count s \<le> unat i then s
                else
                  let t' = t\<lparr>tl_workspace := unat i\<rparr>
                  in qdwin_emit_toplevel_workspace t'
                       (if tl_workspace t = unat i then s
                        else qdwin_workspace_refocus_seats
                               (qdwin_toplevel_apply_workspace_visibility t'
                                  (upd_tl k (\<lambda>t. t\<lparr>tl_workspace := unat i\<rparr>) s)))))"

abbreviation QDWIN_WORKSPACE_NAME_MAX :: nat where "QDWIN_WORKSPACE_NAME_MAX \<equiv> 256"

definition qdwin_handle_set_workspace_name :: "wl_resource \<Rightarrow> u32 \<Rightarrow> string option \<Rightarrow> qdwin \<Rightarrow> qdwin" where
  "qdwin_handle_set_workspace_name r idx nm =
     qdwin_shell_require_bound r (\<lambda>s.
       let i = unat idx
       in if QDWIN_MAX_WORKSPACES \<le> i then s
          else case nm of
                 Some (c # cs) \<Rightarrow>
                   if workspace_names s i = Some (c # cs) then s
                   else qdwin_ext_ws_broadcast_name i
                          (s\<lparr>workspace_names := (workspace_names s)(i := Some (take QDWIN_WORKSPACE_NAME_MAX (c # cs)))\<rparr>)
               | _ \<Rightarrow>
                   if workspace_names s i = None then s
                   else qdwin_ext_ws_broadcast_name i (s\<lparr>workspace_names := (workspace_names s)(i := None)\<rparr>))"

section \<open>What the workspace operations do not touch\<close>

text \<open>\<open>wsless\<close> blanks the protocol side, \<open>ws_rest\<close> in addition the workspace counters, the
  stacking, the seats and the workspace number of each window.\<close>

definition wsless :: "qdwin \<Rightarrow> qdwin" where
  "wsless s = s\<lparr>ext_ws_managers := [], ws_handle_refs := (\<lambda>_. None), next_id := 0, out := []\<rparr>"

definition ws_rest :: "qdwin \<Rightarrow> qdwin" where
  "ws_rest s = s\<lparr>ext_ws_managers := [], ws_handle_refs := (\<lambda>_. None), next_id := 0, out := [],
     seats := [], seat_trackers := [], layer_views := (\<lambda>_. []), view_mapped := (\<lambda>_. False),
     workspace_count := 0, active_workspace := 0,
     toplevels := map (\<lambda>t. t\<lparr>tl_workspace := 0\<rparr>) (toplevels s)\<rparr>"

lemma wsless_frame:
  assumes "wsless a = wsless b"
  shows "nested_mode a = nested_mode b"
    and "next_handle a = next_handle b"
    and "outputs a = outputs b"
    and "layer_position a = layer_position b"
    and "view_surface a = view_surface b"
    and "view_pos a = view_pos b"
    and "surface_mapped a = surface_mapped b"
    and "surface_client a = surface_client b"
    and "surface_size a = surface_size b"
    and "display_serial a = display_serial b"
    and "shell_bound a = shell_bound b"
    and "shell_resource a = shell_resource b"
    and "shell_pid a = shell_pid b"
    and "shell_uid a = shell_uid b"
    and "allowed_uid a = allowed_uid b"
    and "locker_resource a = locker_resource b"
    and "locker_pid a = locker_pid b"
    and "locker_uid a = locker_uid b"
    and "locker_starttime a = locker_starttime b"
    and "locked a = locked b"
    and "lock_surface a = lock_surface b"
    and "lock_view a = lock_view b"
    and "lock_view_is_toplevel a = lock_view_is_toplevel b"
    and "lock_toplevel a = lock_toplevel b"
    and "lock_resource a = lock_resource b"
    and "lock_resource_is_locker a = lock_resource_is_locker b"
    and "lock_reattach a = lock_reattach b"
    and "lock_curtain a = lock_curtain b"
    and "overlay_grab_active a = overlay_grab_active b"
    and "overlay_grab_role a = overlay_grab_role b"
    and "overlay_grab_kbd a = overlay_grab_kbd b"
    and "switcher_grab_active a = switcher_grab_active b"
    and "switcher_grab_kbd a = switcher_grab_kbd b"
    and "launchers a = launchers b"
    and "view_streams a = view_streams b"
    and "dead_streams a = dead_streams b"
    and "next_stream_port a = next_stream_port b"
    and "allowed_locker_uid a = allowed_locker_uid b"
    and "allowed_locker_entrypoint a = allowed_locker_entrypoint b"
    and "allowed_locker_exe a = allowed_locker_exe b"
    and "allowed_locker_label a = allowed_locker_label b"
    and "secctx_clients a = secctx_clients b"
    and "ub a = ub b"
    and "panels a = panels b"
    and "layer_surfaces a = layer_surfaces b"
    and "wm_policy a = wm_policy b"
    and "ffm_pending_handle a = ffm_pending_handle b"
    and "ffm_armed a = ffm_armed b"
    and "move_grab a = move_grab b"
    and "workspace_names a = workspace_names b"
    and "toplevels a = toplevels b"
    and "layer_views a = layer_views b"
    and "view_mapped a = view_mapped b"
    and "workspace_count a = workspace_count b"
    and "active_workspace a = active_workspace b"
    and "seats a = seats b"
    and "seat_trackers a = seat_trackers b"
  using assms by (cases a; cases b; simp add: wsless_def)+

lemma ws_rest_frame:
  assumes "ws_rest a = ws_rest b"
  shows "nested_mode a = nested_mode b"
    and "next_handle a = next_handle b"
    and "outputs a = outputs b"
    and "layer_position a = layer_position b"
    and "view_surface a = view_surface b"
    and "view_pos a = view_pos b"
    and "surface_mapped a = surface_mapped b"
    and "surface_client a = surface_client b"
    and "surface_size a = surface_size b"
    and "display_serial a = display_serial b"
    and "shell_bound a = shell_bound b"
    and "shell_resource a = shell_resource b"
    and "shell_pid a = shell_pid b"
    and "shell_uid a = shell_uid b"
    and "allowed_uid a = allowed_uid b"
    and "locker_resource a = locker_resource b"
    and "locker_pid a = locker_pid b"
    and "locker_uid a = locker_uid b"
    and "locker_starttime a = locker_starttime b"
    and "locked a = locked b"
    and "lock_surface a = lock_surface b"
    and "lock_view a = lock_view b"
    and "lock_view_is_toplevel a = lock_view_is_toplevel b"
    and "lock_toplevel a = lock_toplevel b"
    and "lock_resource a = lock_resource b"
    and "lock_resource_is_locker a = lock_resource_is_locker b"
    and "lock_reattach a = lock_reattach b"
    and "lock_curtain a = lock_curtain b"
    and "overlay_grab_active a = overlay_grab_active b"
    and "overlay_grab_role a = overlay_grab_role b"
    and "overlay_grab_kbd a = overlay_grab_kbd b"
    and "switcher_grab_active a = switcher_grab_active b"
    and "switcher_grab_kbd a = switcher_grab_kbd b"
    and "launchers a = launchers b"
    and "view_streams a = view_streams b"
    and "dead_streams a = dead_streams b"
    and "next_stream_port a = next_stream_port b"
    and "allowed_locker_uid a = allowed_locker_uid b"
    and "allowed_locker_entrypoint a = allowed_locker_entrypoint b"
    and "allowed_locker_exe a = allowed_locker_exe b"
    and "allowed_locker_label a = allowed_locker_label b"
    and "secctx_clients a = secctx_clients b"
    and "ub a = ub b"
    and "panels a = panels b"
    and "layer_surfaces a = layer_surfaces b"
    and "wm_policy a = wm_policy b"
    and "ffm_pending_handle a = ffm_pending_handle b"
    and "ffm_armed a = ffm_armed b"
    and "move_grab a = move_grab b"
    and "workspace_names a = workspace_names b"
  using assms by (cases a; cases b; simp add: ws_rest_def)+

lemma ws_rest_toplevels:
  assumes "ws_rest a = ws_rest b" and "\<And>t. f (t\<lparr>tl_workspace := 0\<rparr>) = f t"
  shows "map f (toplevels a) = map f (toplevels b)"
proof -
  have "map (\<lambda>t. t\<lparr>tl_workspace := 0\<rparr>) (toplevels a) = map (\<lambda>t. t\<lparr>tl_workspace := 0\<rparr>) (toplevels b)"
    using assms(1) by (cases a; cases b; simp add: ws_rest_def)
  then have "map f (map (\<lambda>t. t\<lparr>tl_workspace := 0\<rparr>) (toplevels a)) = map f (map (\<lambda>t. t\<lparr>tl_workspace := 0\<rparr>) (toplevels b))"
    by (rule arg_cong)
  then show ?thesis
    by (simp add: assms(2) comp_def)
qed

lemma wsless_ws_rest: "wsless a = wsless b \<Longrightarrow> ws_rest a = ws_rest b"
  by (cases a; cases b; simp add: wsless_def ws_rest_def)

lemma sceneless_ws_rest: "sceneless a = sceneless b \<Longrightarrow> ws_rest a = ws_rest b"
  by (cases a; cases b; simp add: sceneless_def ws_rest_def)

lemma wsless_emit [simp]: "wsless (emit e s) = wsless s"
  by (simp add: wsless_def emit_def)

lemma wsless_upd_wsm [simp]: "wsless (upd_wsm m f s) = wsless s"
  by (simp add: wsless_def upd_wsm_def)

lemma wsless_refs [simp]: "wsless (s\<lparr>ws_handle_refs := r\<rparr>) = wsless s"
  "wsless (s\<lparr>next_id := n\<rparr>) = wsless s" "wsless (s\<lparr>ext_ws_managers := x\<rparr>) = wsless s"
  by (simp_all add: wsless_def)

lemma wsless_details [simp]: "wsless (qdwin_ext_ws_send_handle_details h i s) = wsless s"
  by (simp add: qdwin_ext_ws_send_handle_details_def)

lemma wsless_create_handles [simp]: "wsless (qdwin_ext_ws_manager_create_handles m s) = wsless s"
  by (simp add: qdwin_ext_ws_manager_create_handles_def Let_def fold_keeps [where g = wsless])

lemma wsless_destroy_handles [simp]: "wsless (qdwin_ext_ws_manager_destroy_handles m s) = wsless s"
  by (simp add: qdwin_ext_ws_manager_destroy_handles_def Let_def fold_keeps [where g = wsless]
      split: option.split)

lemma wsless_resync [simp]: "wsless (qdwin_ext_ws_manager_resync m s) = wsless s"
  by (simp add: qdwin_ext_ws_manager_resync_def split: option.split)

lemma wsless_resync_all [simp]: "wsless (qdwin_ext_ws_resync_all s) = wsless s"
  by (simp add: qdwin_ext_ws_resync_all_def fold_keeps [where g = wsless])

lemma wsless_broadcast_state [simp]: "wsless (qdwin_ext_ws_broadcast_state s) = wsless s"
proof -
  have "wsless (fold (\<lambda>(i, h). emit (Ws (ws_state h (f i)))) xs u) = wsless u" for f xs u
    by (rule fold_keeps) auto
  then show ?thesis
    by (auto simp: qdwin_ext_ws_broadcast_state_def intro!: fold_keeps [where g = wsless])
qed

lemma wsless_broadcast_name [simp]: "wsless (qdwin_ext_ws_broadcast_name i s) = wsless s"
  by (auto simp: qdwin_ext_ws_broadcast_name_def intro!: fold_keeps [where g = wsless] split: option.split)

lemmas wsless_frames [simp] =
  wsless_frame [OF wsless_resync_all] wsless_frame [OF wsless_broadcast_state]
  wsless_frame [OF wsless_broadcast_name] wsless_frame [OF wsless_create_handles]
  wsless_frame [OF wsless_upd_wsm]

lemma seatless_refocus_seat [simp]: "seatless (refocus_seat w i s) = seatless s"
  by (simp add: refocus_seat_def split: option.split)

lemma seatless_refocus [simp]: "seatless (qdwin_workspace_refocus_seats s) = seatless s"
  by (simp add: qdwin_workspace_refocus_seats_def fold_keeps [where g = seatless])

lemmas refocus_frames [simp] = seatless_frame [OF seatless_refocus]

lemma sceneless_apply_visibility [simp]:
  "sceneless (qdwin_toplevel_apply_workspace_visibility t s) = sceneless s"
  by (simp add: qdwin_toplevel_apply_workspace_visibility_def)

lemma sceneless_apply_all [simp]: "sceneless (apply_all_visibility s) = sceneless s"
  by (simp add: apply_all_visibility_def fold_keeps [where g = sceneless])

lemmas apply_visibility_frames [simp] =
  sceneless_frame [OF sceneless_apply_visibility] sceneless_frame [OF sceneless_apply_all]

lemma seatless_emit_toplevel_workspaces [simp]:
  "seatless (fold qdwin_emit_toplevel_workspace ts s) = seatless s"
  by (simp add: fold_keeps [where g = seatless] qdwin_emit_toplevel_workspace_def)

lemmas emit_toplevel_workspaces_frames [simp] = seatless_frame [OF seatless_emit_toplevel_workspaces]

section \<open>The workspace invariant\<close>

definition ws_inv :: "qdwin \<Rightarrow> bool" where
  "ws_inv s \<longleftrightarrow> 1 \<le> workspace_count s \<and> workspace_count s \<le> QDWIN_MAX_WORKSPACES \<and>
     active_workspace s < workspace_count s \<and>
     list_all (\<lambda>t. tl_workspace t < workspace_count s) (toplevels s)"

lemma ws_inv_cong:
  assumes "workspace_count a = workspace_count b" and "active_workspace a = active_workspace b"
    and "map tl_workspace (toplevels a) = map tl_workspace (toplevels b)"
  shows "ws_inv a = ws_inv b"
proof -
  have *: "list_all (\<lambda>t. tl_workspace t < n) ts = list_all (\<lambda>w. w < n) (map tl_workspace ts)"
    for n and ts :: "toplevel list"
    by (simp add: list.pred_map comp_def)
  show ?thesis
    unfolding ws_inv_def * by (simp only: assms)
qed

lemma ws_inv_wsless: assumes "wsless a = wsless b" shows "ws_inv a = ws_inv b"
  by (rule ws_inv_cong) (simp_all only: wsless_frame [OF assms])

lemma ws_inv_sceneless: assumes "sceneless a = sceneless b" shows "ws_inv a = ws_inv b"
  by (rule ws_inv_cong) (simp_all only: sceneless_frame [OF assms])

lemma ws_inv_seatless: "seatless a = seatless b \<Longrightarrow> ws_inv a = ws_inv b"
  by (rule ws_inv_sceneless [OF seatless_sceneless])

lemma ws_inv_set_active: "ws_inv s \<Longrightarrow> ws_inv (qdwin_set_active_workspace i s)"
proof -
  assume inv: "ws_inv s"
  have "ws_inv (qdwin_workspace_refocus_seats (apply_all_visibility (s\<lparr>active_workspace := i\<rparr>)))"
    if "i < workspace_count s"
  proof -
    have "ws_inv (s\<lparr>active_workspace := i\<rparr>)"
      using inv that by (simp add: ws_inv_def)
    then show ?thesis
      by (simp add: ws_inv_seatless [OF seatless_refocus] ws_inv_sceneless [OF sceneless_apply_all])
  qed
  then show ?thesis
    using inv by (simp add: qdwin_set_active_workspace_def ws_inv_wsless [OF wsless_broadcast_state])
qed

lemma ws_inv_create: "ws_inv s \<Longrightarrow> ws_inv (qdwin_workspace_create s)"
  by (auto simp: qdwin_workspace_create_def ws_inv_wsless [OF wsless_resync_all] ws_inv_def list_all_iff)

lemma shift_less:
  "w < n \<Longrightarrow> i < n \<Longrightarrow> 1 < n \<Longrightarrow> shift_workspace i w < n - Suc 0"
  by (auto simp: shift_workspace_def)

lemma remove_active_shift:
  "a < n \<Longrightarrow> i < n \<Longrightarrow> 1 < n \<Longrightarrow> remove_active i (n - Suc 0) a = shift_workspace i a"
  by (auto simp: remove_active_def shift_workspace_def Let_def)

lemma ws_inv_remove: "ws_inv s \<Longrightarrow> ws_inv (qdwin_workspace_remove i s)"
proof (cases "workspace_count s \<le> 1 \<or> workspace_count s \<le> i")
  case False
  assume inv: "ws_inv s"
  let ?n = "workspace_count s - 1"
  let ?s1 = "s\<lparr>toplevels := map (\<lambda>t. t\<lparr>tl_workspace := shift_workspace i (tl_workspace t)\<rparr>) (toplevels s),
               workspace_count := ?n, active_workspace := remove_active i ?n (active_workspace s)\<rparr>"
  have "ws_inv ?s1"
    using inv False by (auto simp: ws_inv_def list_all_iff remove_active_shift shift_less)
  then have "ws_inv (qdwin_workspace_refocus_seats (apply_all_visibility ?s1))"
    by (simp add: ws_inv_seatless [OF seatless_refocus] ws_inv_sceneless [OF sceneless_apply_all])
  then show ?thesis
    using False by (simp add: qdwin_workspace_remove_def Let_def ws_inv_wsless [OF wsless_resync_all]
        ws_inv_seatless [OF seatless_emit_toplevel_workspaces])
qed (auto simp: qdwin_workspace_remove_def)

lemma ws_inv_flush: "ws_inv s \<Longrightarrow> ws_inv (qdwin_ext_ws_manager_flush m s)"
proof -
  assume inv: "ws_inv s"
  have step: "ws_inv (apply_ws_op op u)" if "ws_inv u" for op u
    using that by (cases op) (simp_all add: ws_inv_set_active ws_inv_create ws_inv_remove)
  have "ws_inv (fold apply_ws_op ops s)" for ops
    using inv by (rule fold_invariant_set) (rule step)
  then show ?thesis
    using inv by (simp add: qdwin_ext_ws_manager_flush_def qdwin_ext_ws_pending_clear_def
        ws_inv_wsless [OF wsless_upd_wsm] split: option.split)
qed

lemma ws_inv_move:
  "ws_inv s \<Longrightarrow> ws_inv (qdwin_handle_move_toplevel_to_workspace r k i s)"
proof -
  assume inv: "ws_inv s"
  have upd: "ws_inv (upd_tl k (\<lambda>t. t\<lparr>tl_workspace := unat i\<rparr>) s)" if "unat i < workspace_count s"
    using inv that by (auto simp: ws_inv_def upd_tl_def list_all_iff set_upd_where)
  have em: "ws_inv (qdwin_emit_toplevel_workspace t u) = ws_inv u" "ws_inv (emit e u) = ws_inv u" for t e u
    by (rule ws_inv_seatless, simp add: qdwin_emit_toplevel_workspace_def)+
  show ?thesis
    using inv upd
    by (auto simp: qdwin_handle_move_toplevel_to_workspace_def qdwin_shell_require_bound_def with_handle_def
        Let_def em ws_inv_seatless [OF seatless_refocus] ws_inv_sceneless [OF sceneless_apply_visibility]
        split: option.split)
qed

lemma wsless_set_name:
  "wsless (qdwin_handle_set_workspace_name r i nm s) = wsless (s\<lparr>workspace_names :=
     workspace_names (qdwin_handle_set_workspace_name r i nm s)\<rparr>)"
proof -
  have *: "wsless (qdwin_ext_ws_broadcast_name j (s\<lparr>workspace_names := f\<rparr>)) = wsless (s\<lparr>workspace_names := f\<rparr>)" for j f
    by simp
  have e: "wsless (emit x s) = wsless (s\<lparr>workspace_names := workspace_names s\<rparr>)" for x
    by simp
  show ?thesis
    by (auto simp: qdwin_handle_set_workspace_name_def qdwin_shell_require_bound_def Let_def
        split: option.split list.split)
qed

section \<open>The component\<close>

datatype ws_request =
    Ws_bind
  | Ws_handle_activate nat
  | Ws_handle_remove nat
  | Ws_handle_destroyed nat
  | Ws_group_create nat
  | Ws_group_destroyed nat
  | Ws_commit nat
  | Ws_stop nat
  | Ws_manager_destroyed nat
  | Sh_move wl_resource u32 u32
  | Sh_name wl_resource u32 "string option"

fun ws_step :: "ws_request \<Rightarrow> qdwin \<Rightarrow> qdwin" where
  "ws_step Ws_bind = bind_ext_workspace_manager"
| "ws_step (Ws_handle_activate h) = qdwin_ext_ws_handle_activate h"
| "ws_step (Ws_handle_remove h) = qdwin_ext_ws_handle_remove h"
| "ws_step (Ws_handle_destroyed h) = qdwin_ext_ws_handle_resource_destroy h"
| "ws_step (Ws_group_create g) = qdwin_ext_ws_group_create_workspace g"
| "ws_step (Ws_group_destroyed g) = qdwin_ext_ws_group_resource_destroy g"
| "ws_step (Ws_commit m) = qdwin_ext_ws_manager_commit m"
| "ws_step (Ws_stop m) = qdwin_ext_ws_manager_stop m"
| "ws_step (Ws_manager_destroyed m) = qdwin_ext_ws_manager_resource_destroy m"
| "ws_step (Sh_move r k i) = qdwin_handle_move_toplevel_to_workspace r k i"
| "ws_step (Sh_name r i nm) = qdwin_handle_set_workspace_name r i nm"

text \<open>The requests that take effect at once; every other one only stages or concerns objects.\<close>

fun ws_effective :: "ws_request \<Rightarrow> bool" where
  "ws_effective (Ws_commit m) = True"
| "ws_effective (Sh_move r k i) = True"
| "ws_effective (Sh_name r i nm) = True"
| "ws_effective _ = False"

lemma wsless_staging:
  assumes "\<not> ws_effective e"
  shows "wsless (ws_step e s) = wsless s"
proof -
  have d: "wsless (qdwin_ext_ws_manager_resource_destroy m u) = wsless u" for m u
    by (simp add: qdwin_ext_ws_manager_resource_destroy_def Let_def split: option.split)
  show ?thesis
    using assms
    by (cases e) (simp_all add: bind_ext_workspace_manager_def Let_def qdwin_ext_ws_handle_activate_def
        qdwin_ext_ws_handle_remove_def with_ws_handle_def qdwin_ext_ws_pending_add_def
        qdwin_ext_ws_handle_resource_destroy_def qdwin_ext_ws_group_create_workspace_def
        qdwin_ext_ws_group_resource_destroy_def qdwin_ext_ws_manager_stop_def qdwin_ext_ws_pending_clear_def
        d split: option.split)
qed

lemma ws_inv_step: "ws_inv s \<Longrightarrow> ws_inv (ws_step e s)"
proof (cases "ws_effective e")
  case True
  assume inv: "ws_inv s"
  have nm: "ws_inv (qdwin_handle_set_workspace_name r i nm s)" for r i nm
    using inv ws_inv_wsless [OF wsless_set_name, of r i nm s] by (simp add: ws_inv_def)
  show ?thesis
    using True inv by (cases e) (simp_all add: qdwin_ext_ws_manager_commit_def ws_inv_flush ws_inv_move nm)
next
  case False
  assume "ws_inv s"
  then show ?thesis
    using ws_inv_wsless [OF wsless_staging [OF False]] by simp
qed

interpretation ws: event_component ws_step ws_inv
  by unfold_locales (rule ws_inv_step)

section \<open>Stacking and focus after a switch\<close>

lemma apply_visibility_other:
  assumes "set (tl_views t') \<inter> V = {}"
  shows "set (layer_views (qdwin_toplevel_apply_workspace_visibility t' s) M) \<inter> V = set (layer_views s M) \<inter> V"
  using assms by (auto simp: qdwin_toplevel_apply_workspace_visibility_def toplevel_move_views)

lemma fold_visibility_other:
  assumes "\<forall>t' \<in> set ts. set (tl_views t') \<inter> V = {}"
  shows "set (layer_views (fold qdwin_toplevel_apply_workspace_visibility ts s) M) \<inter> V = set (layer_views s M) \<inter> V"
  using assms by (induction ts arbitrary: s) (simp_all add: apply_visibility_other)

text \<open>The windows the workspace machinery moves.\<close>

definition ws_managed :: "qdwin \<Rightarrow> toplevel \<Rightarrow> bool" where
  "ws_managed s t \<longleftrightarrow> \<not> nested_mode s \<and> tl_decorated t \<and> \<not> has_ts (tl_state t) QDWIN_TS_MINIMIZED \<and>
     \<not> qdwin_toplevel_is_locker_ui s t \<and> \<not> tl_pending_decision t"

lemma ws_managed_cong:
  assumes "nested_mode a = nested_mode b" and "locker_resource a = locker_resource b"
    and "locker_pid a = locker_pid b" and "locker_uid a = locker_uid b"
  shows "ws_managed a t = ws_managed b t"
  using assms by (simp add: ws_managed_def qdwin_toplevel_is_locker_ui_def)

definition home_layer :: "qdwin \<Rightarrow> toplevel \<Rightarrow> layer" where
  "home_layer s t = (if tl_workspace t = active_workspace s then Normal_layer else Workspace_hidden_layer)"

lemma apply_visibility_self:
  assumes "ws_managed s t"
  shows "set (layer_views (qdwin_toplevel_apply_workspace_visibility t s) M) \<inter> set (tl_views t) =
    (if M = home_layer s t then set (tl_views t) else {})"
  using assms by (auto simp: qdwin_toplevel_apply_workspace_visibility_def ws_managed_def toplevel_move_views
      target_layer_def home_layer_def)

lemma apply_all_visibility_views:
  assumes "t \<in> set (toplevels s)" and "ws_managed s t"
    and "distinct (concat (map tl_views (toplevels s)))"
  shows "set (layer_views (apply_all_visibility s) M) \<inter> set (tl_views t) =
    (if M = home_layer s t then set (tl_views t) else {})"
proof -
  obtain xs ys where ts: "toplevels s = xs @ t # ys"
    using split_list [OF assms(1)] by blast
  let ?u = "fold qdwin_toplevel_apply_workspace_visibility xs s"
  have fr: "sceneless ?u = sceneless s"
    by (rule fold_keeps) simp
  have "ws_managed ?u t = ws_managed s t"
    by (rule ws_managed_cong) (simp_all only: sceneless_frame [OF fr])
  then have self: "set (layer_views (qdwin_toplevel_apply_workspace_visibility t ?u) M) \<inter> set (tl_views t) =
      (if M = home_layer s t then set (tl_views t) else {})"
    using apply_visibility_self [of ?u t M] assms(2) sceneless_frame [OF fr] by (simp add: home_layer_def)
  have "\<forall>t' \<in> set ys. set (tl_views t') \<inter> set (tl_views t) = {}"
    using assms(3) ts by auto
  then show ?thesis
    unfolding apply_all_visibility_def ts using self by (simp add: fold_visibility_other)
qed

lemma by_surface_cong:
  assumes "seatless a = seatless b"
  shows "qdwin_toplevel_by_surface a so = qdwin_toplevel_by_surface b so"
  unfolding qdwin_toplevel_by_surface_def by (simp only: seatless_frame [OF assms])

lemma is_visible_cong:
  assumes "seatless a = seatless b"
  shows "qdwin_toplevel_is_visible a t = qdwin_toplevel_is_visible b t"
  unfolding qdwin_toplevel_is_visible_def by (simp only: seatless_frame [OF assms])

text \<open>The keyboard focus of a seat is on a visible window or nowhere.\<close>

definition focus_ok :: "qdwin \<Rightarrow> nat \<Rightarrow> bool" where
  "focus_ok s i \<longleftrightarrow> (case kbd_focus s i of None \<Rightarrow> True
     | Some x \<Rightarrow> (case qdwin_toplevel_by_surface s (Some x) of None \<Rightarrow> False
                 | Some t \<Rightarrow> qdwin_toplevel_is_visible s t))"

lemma focus_ok_cong:
  assumes "seatless a = seatless b" and "kbd_focus a i = kbd_focus b i"
  shows "focus_ok a i = focus_ok b i"
  unfolding focus_ok_def assms(2) by_surface_cong [OF assms(1)] is_visible_cong [OF assms(1)] ..

lemma refocus_seat_other:
  assumes "j \<noteq> i"
  shows "kbd_focus (refocus_seat want i s) j = kbd_focus s j"
proof -
  have e: "kbd_focus (emit e u) j = kbd_focus u j" "kbd_focus (qdwin_seat_emit_focus_now i u) j = kbd_focus u j" for e u
    by (rule kbd_focus_cong, simp)+
  show ?thesis
    using assms by (simp add: refocus_seat_def e kbd_focus_set_focus weston_view_activate_input_def
        weston_seat_set_keyboard_focus_def split: option.split)
qed

lemma refocus_seat_ok:
  assumes "case want of None \<Rightarrow> True
     | Some t \<Rightarrow> qdwin_toplevel_is_visible s t \<and> qdwin_toplevel_by_surface s (Some (view_surface s (tl_view t))) = Some t"
  shows "focus_ok (refocus_seat want i s) i"
proof -
  have e: "kbd_focus (emit e u) i = kbd_focus u i" "kbd_focus (qdwin_seat_emit_focus_now i u) i = kbd_focus u i" for e u
    by (rule kbd_focus_cong, simp)+
  have ok: "focus_ok (refocus_seat want i s) i \<longleftrightarrow> (case kbd_focus (refocus_seat want i s) i of None \<Rightarrow> True
     | Some x \<Rightarrow> (case qdwin_toplevel_by_surface s (Some x) of None \<Rightarrow> False
                 | Some t \<Rightarrow> qdwin_toplevel_is_visible s t))"
    unfolding focus_ok_def by_surface_cong [OF seatless_refocus_seat] is_visible_cong [OF seatless_refocus_seat] ..
  have nokbd: "weston_seat_get_keyboard s i = None \<Longrightarrow> kbd_focus s i = None"
    by (simp add: kbd_focus_def)
  show ?thesis
    unfolding ok using assms nokbd
    by (auto simp: refocus_seat_def e kbd_focus_set_focus weston_view_activate_input_def focusable_def
        weston_seat_set_keyboard_focus_def split: option.splits)
qed

text \<open>Moving views between layers may take a keyboard focus away; the seats stay.\<close>

lemma seat_ids_set_focus [simp]:
  "map seat_id (seats (weston_keyboard_set_focus i so s)) = map seat_id (seats s)"
proof -
  have fk: "seats (fold (\<lambda>tr. qdwin_on_keyboard_focus_changed (tr_seat tr)) xs u) = seats u"
    for xs :: "seat_tracker list" and u
    by (rule fold_keeps) (simp add: qdwin_on_keyboard_focus_changed_def)
  show ?thesis
    by (simp add: weston_keyboard_set_focus_def Let_def fk upd_kbd_def upd_seat_def split: option.split)
qed

lemma seat_ids_unmap [simp]:
  "map seat_id (seats (weston_view_unmap v s)) = map seat_id (seats s)"
proof -
  have "map seat_id (seats (fold (\<lambda>i t. if kbd_focus t i = so then weston_keyboard_set_focus i None t else t) js u))
     = map seat_id (seats u)" for js u so
    by (rule fold_keeps) simp
  then show ?thesis
    by (simp add: weston_view_unmap_def Let_def)
qed

lemma seat_ids_move [simp]:
  "map seat_id (seats (weston_view_move_to_layer v L s)) = map seat_id (seats s)"
  using seat_ids_unmap [of v "s\<lparr>layer_views := (\<lambda>M. removeAll v (layer_views s M))\<rparr>"]
  by (simp add: weston_view_move_to_layer_def Let_def)

lemma seat_ids_all_visibility [simp]:
  "map seat_id (seats (apply_all_visibility s)) = map seat_id (seats s)"
proof -
  have mv: "map seat_id (seats (qdwin_toplevel_move_to_layer t L u)) = map seat_id (seats u)" for t L u
    unfolding qdwin_toplevel_move_to_layer_def Let_def by (rule fold_keeps) simp
  show ?thesis
    unfolding apply_all_visibility_def
    by (rule fold_keeps) (simp add: qdwin_toplevel_apply_workspace_visibility_def mv)
qed

lemma fold_refocus_ok:
  assumes "case want of None \<Rightarrow> True
     | Some t \<Rightarrow> qdwin_toplevel_is_visible s t \<and> qdwin_toplevel_by_surface s (Some (view_surface s (tl_view t))) = Some t"
    and "i \<in> set is \<or> focus_ok s i"
  shows "focus_ok (fold (refocus_seat want) is s) i"
  using assms
proof (induction "is" arbitrary: s)
  case (Cons j js)
  let ?u = "refocus_seat want j s"
  have sl: "seatless ?u = seatless s"
    by simp
  have w: "case want of None \<Rightarrow> True
     | Some t \<Rightarrow> qdwin_toplevel_is_visible ?u t \<and> qdwin_toplevel_by_surface ?u (Some (view_surface ?u (tl_view t))) = Some t"
    unfolding by_surface_cong [OF sl] is_visible_cong [OF sl] seatless_frame [OF sl] by (rule Cons.prems(1))
  have "i \<in> set js \<or> focus_ok ?u i"
  proof (cases "i = j")
    case True
    then show ?thesis
      using refocus_seat_ok [OF Cons.prems(1)] by simp
  next
    case False
    then show ?thesis
      using Cons.prems(2) focus_ok_cong [OF sl] refocus_seat_other [of i j want s] by auto
  qed
  then show ?case
    using Cons.IH [OF w] by simp
qed simp

section \<open>Properties\<close>

text \<open>C17: the workspace invariant. Along every sequence of requests of workspace clients and of the
  shell there are between one and 32 workspaces, the active one exists, and every window
  lies on an existing one.\<close>

theorem workspace_invariant:
  assumes "ws_inv s"
  shows "ws_inv (fold ws_step es s)"
  using assms by (rule ws.run_inv)

theorem workspace_invariant_witness:
  "ws_inv (wet_shell_init 1000 False None) \<and>
   ws_inv (fold ws_step [Ws_bind, Ws_handle_remove 3, Ws_handle_activate 5, Ws_commit 0, Ws_stop 0]
             (wet_shell_init 1000 False None))"
proof -
  have "ws_inv (wet_shell_init 1000 False None)"
    by (simp add: ws_inv_def wet_shell_init_def)
  then show ?thesis
    using workspace_invariant by blast
qed

text \<open>C26: a request of a workspace client other than commit stages or concerns protocol objects only:
  the number of workspaces, the active one, the windows with their workspaces, the stacking,
  the seats and everything else in the compositor stay as they are.\<close>

theorem requests_staged_until_commit:
  assumes "\<not> ws_effective e"
  shows "wsless (ws_step e s) = wsless s"
  using assms by (rule wsless_staging)

theorem requests_staged_until_commit_witness:
  "wsless (ws_step (Ws_handle_remove 7) demo_state) = wsless demo_state"
  by (rule requests_staged_until_commit) simp


definition demo_ws :: qdwin where
  "demo_ws = demo_state\<lparr>ext_ws_managers := [\<lparr>wsm_id = 40, wsm_group = Some 41,
     wsm_handles = [Some 42, Some 43, Some 44, Some 45], wsm_pending = [Op_activate 2, Op_remove 2],
     wsm_stopped = False\<rparr>], next_id := 50\<rparr>"


text \<open>C25: removing a workspace closes the gap: windows above it move down by one, its own windows to
  the workspace before it (to the new first one when it was the first), and the active
  workspace moves with its windows, so that a window of the active workspace stays on it.\<close>

theorem workspace_remove_shifts:
  assumes "ws_inv s" and "i < workspace_count s" and "1 < workspace_count s"
  shows "workspace_count (qdwin_workspace_remove i s) = workspace_count s - 1 \<and>
     active_workspace (qdwin_workspace_remove i s) = shift_workspace i (active_workspace s) \<and>
     map tl_workspace (toplevels (qdwin_workspace_remove i s))
       = map (\<lambda>t. shift_workspace i (tl_workspace t)) (toplevels s) \<and>
     map tl_handle (toplevels (qdwin_workspace_remove i s)) = map tl_handle (toplevels s) \<and>
     mono (shift_workspace i)"
proof -
  have "mono (shift_workspace i)"
    by (rule monoI) (auto simp: shift_workspace_def)
  moreover have "remove_active i (workspace_count s - Suc 0) (active_workspace s) = shift_workspace i (active_workspace s)"
    using assms by (intro remove_active_shift) (simp_all add: ws_inv_def)
  ultimately show ?thesis
    using assms(2,3) by (simp add: qdwin_workspace_remove_def Let_def comp_def)
qed

theorem workspace_remove_shifts_witness:
  "workspace_count (qdwin_workspace_remove 2 demo_ws) = workspace_count demo_ws - 1 \<and>
     active_workspace (qdwin_workspace_remove 2 demo_ws) = shift_workspace 2 (active_workspace demo_ws) \<and>
     map tl_workspace (toplevels (qdwin_workspace_remove 2 demo_ws))
       = map (\<lambda>t. shift_workspace 2 (tl_workspace t)) (toplevels demo_ws) \<and>
     map tl_handle (toplevels (qdwin_workspace_remove 2 demo_ws)) = map tl_handle (toplevels demo_ws) \<and>
     mono (shift_workspace 2)"
  by (rule workspace_remove_shifts)
    (simp_all add: ws_inv_def demo_ws_def demo_state_def wet_shell_init_def demo_toplevel_def zero_toplevel_def)

text \<open>C24: after a switch to another workspace, every window the machinery manages has all its views on
  the normal layer if it belongs to the new workspace and on the hidden layer otherwise, and
  on no other layer.\<close>

theorem switch_stacks_windows:
  assumes "i < workspace_count s" and "i \<noteq> active_workspace s"
    and "t \<in> set (toplevels s)" and "ws_managed s t"
    and "distinct (concat (map tl_views (toplevels s)))"
  shows "set (layer_views (qdwin_set_active_workspace i s) L) \<inter> set (tl_views t) =
     (if L = (if tl_workspace t = i then Normal_layer else Workspace_hidden_layer) then set (tl_views t) else {})"
proof -
  let ?s = "s\<lparr>active_workspace := i\<rparr>"
  have m: "ws_managed ?s t"
    using assms(4) by (simp add: ws_managed_cong [of ?s s])
  have "layer_views (qdwin_set_active_workspace i s) = layer_views (apply_all_visibility ?s)"
    using assms(1,2) by (simp add: qdwin_set_active_workspace_def)
  then show ?thesis
    using apply_all_visibility_views [of t ?s L] assms(3,5) m by (simp add: home_layer_def)
qed

theorem switch_stacks_windows_witness:
  "set (layer_views (qdwin_set_active_workspace 1 demo_state) Workspace_hidden_layer) \<inter> set (tl_views demo_toplevel) =
     (if Workspace_hidden_layer = (if tl_workspace demo_toplevel = 1 then Normal_layer else Workspace_hidden_layer)
      then set (tl_views demo_toplevel) else {})"
  by (rule switch_stacks_windows)
    (simp_all add: demo_state_def wet_shell_init_def ws_managed_def demo_toplevel_def zero_toplevel_def has_ts_def
      qdwin_toplevel_is_locker_ui_def tl_views_def chrome_views_def all_sides_def List.map_filter_simps)

text \<open>C23: after a switch of an unlocked session the keyboard focus of every seat is on a visible window
  of the new workspace, or nowhere.\<close>

theorem switch_focuses_visible:
  assumes "i < workspace_count s" and "i \<noteq> active_workspace s" and "\<not> locked s"
    and "j \<in> set (map seat_id (seats s))"
    and "list_all (\<lambda>t. qdwin_toplevel_by_surface s (Some (view_surface s (tl_view t))) = Some t) (toplevels s)"
  shows "focus_ok (qdwin_set_active_workspace i s) j"
proof -
  let ?u = "apply_all_visibility (s\<lparr>active_workspace := i\<rparr>)"
  have u: "toplevels ?u = toplevels s" "view_surface ?u = view_surface s" "locked ?u = locked s"
    by simp_all
  have j: "j \<in> set (map seat_id (seats ?u))"
    using assms(4) by (simp only: seat_ids_all_visibility) simp
  have bs: "qdwin_toplevel_by_surface ?u so = qdwin_toplevel_by_surface s so" for so
    unfolding qdwin_toplevel_by_surface_def u ..
  have "focus_ok (qdwin_workspace_refocus_seats ?u) j"
  proof -
    have "focus_ok (fold (refocus_seat (find (qdwin_toplevel_is_visible ?u) (toplevels ?u))) (map seat_id (seats ?u)) ?u) j"
      using j assms(5) unfolding u
      by (intro fold_refocus_ok) (auto simp: bs list_all_iff dest!: find_Some_mem split: option.split)
    then show ?thesis
      using assms(3) u(3) by (simp add: qdwin_workspace_refocus_seats_def)
  qed
  moreover have "focus_ok (qdwin_ext_ws_broadcast_state w) j = focus_ok w j" for w
  proof -
    note fr = wsless_frame [OF wsless_broadcast_state, of w]
    show ?thesis
      unfolding focus_ok_def kbd_focus_def weston_seat_get_keyboard_def seat_of_def
        qdwin_toplevel_by_surface_def qdwin_toplevel_is_visible_def fr ..
  qed
  ultimately show ?thesis
    using assms(1,2) by (simp add: qdwin_set_active_workspace_def)
qed

definition demo_two :: qdwin where
  "demo_two = demo_state\<lparr>seats := [demo_seat],
     toplevels := [demo_toplevel, demo_toplevel\<lparr>tl_handle := 9, tl_view := 12, tl_workspace := 1\<rparr>],
     view_surface := (\<lambda>v. v)\<rparr>"

theorem switch_focuses_visible_witness:
  "focus_ok (qdwin_set_active_workspace 1 demo_two) 0"
  by (rule switch_focuses_visible)
    (simp_all add: demo_two_def demo_state_def wet_shell_init_def demo_seat_def demo_toplevel_def zero_toplevel_def
      qdwin_toplevel_by_surface_def)

end
