(* ===== verification/Seats.thy ===== *)
theory Seats
  imports Windows
begin

text \<open>Seats and their keyboards: how libweston brings seats and keyboards up and down
  (\<^verbatim>\<open>weston_seat_init\<close>, \<^verbatim>\<open>weston_seat_init_keyboard\<close>, \<^verbatim>\<open>weston_seat_release_keyboard\<close>), how
  the compositor's seat trackers follow (\<^verbatim>\<open>qdwin_track_seat\<close>, \<^verbatim>\<open>qdwin_on_seat_updated_caps\<close>),
  and the keyboard grabs of the window switcher and of the shell's and the locker's overlays.
  A keyboard object stays with its seat when its last device goes away; \<open>kb_devices\<close> counts the
  devices and \<open>weston_seat_get_keyboard\<close> finds the keyboard only while there is one. The
  compositor's own default grab is installed on every keyboard, so \<open>Default_grab\<close> stands for
  \<^verbatim>\<open>qdwin_proxy_default_keyboard_grab_iface\<close>. Keys arrive with the key symbol and the text
  that xkbcommon computed for them.\<close>

section \<open>Grabs of libweston\<close>

definition set_grab :: "nat \<Rightarrow> kbd_grab \<Rightarrow> qdwin \<Rightarrow> qdwin" where
  "set_grab kb g s = s\<lparr>seats := map (\<lambda>x. x\<lparr>seat_kbd := map_option
     (\<lambda>k. if kb_id k = kb then k\<lparr>kb_grab := g\<rparr> else k) (seat_kbd x)\<rparr>) (seats s)\<rparr>"

definition weston_keyboard_start_grab :: "nat \<Rightarrow> kbd_grab \<Rightarrow> qdwin \<Rightarrow> qdwin" where
  "weston_keyboard_start_grab kb g s = set_grab kb g s"

definition weston_keyboard_end_grab :: "nat \<Rightarrow> qdwin \<Rightarrow> qdwin" where
  "weston_keyboard_end_grab kb s = set_grab kb Default_grab s"

definition kbd_grab_of :: "qdwin \<Rightarrow> nat \<Rightarrow> kbd_grab option" where
  "kbd_grab_of s i = map_option kb_grab (weston_seat_get_keyboard s i)"

section \<open>The switcher grab\<close>

definition qdwin_switcher_grab_start :: "nat \<Rightarrow> qdwin \<Rightarrow> qdwin" where
  "qdwin_switcher_grab_start kb s =
     (if switcher_grab_active s then s
      else (weston_keyboard_start_grab kb Switcher_grab s)
             \<lparr>switcher_grab_active := True, switcher_grab_kbd := kb\<rparr>)"

definition qdwin_switcher_grab_end :: "qdwin \<Rightarrow> qdwin" where
  "qdwin_switcher_grab_end s =
     (if \<not> switcher_grab_active s then s
      else weston_keyboard_end_grab (switcher_grab_kbd s) (s\<lparr>switcher_grab_active := False\<rparr>))"

definition qdwin_switcher_grab_cancel :: "qdwin \<Rightarrow> qdwin" where
  "qdwin_switcher_grab_cancel s = s\<lparr>switcher_grab_active := False\<rparr>"

definition KEY_TAB :: u32 where "KEY_TAB = 15"

text \<open>Sends of the shell's resource without a version test.\<close>

definition send_to_shell :: "shell_event \<Rightarrow> qdwin \<Rightarrow> qdwin" where
  "send_to_shell e s = (if shell_resource s = None then s else emit (Shell e) s)"

definition qdwin_switcher_grab_key :: "u32 \<Rightarrow> bool \<Rightarrow> bool \<Rightarrow> qdwin \<Rightarrow> qdwin" where
  "qdwin_switcher_grab_key key pressed shift s =
     (if shell_resource s = None \<or> \<not> pressed then s
      else if key = KEY_TAB then send_to_shell (switcher_next (if shift then - 1 else 1)) s
      else send_to_shell switcher_commit (qdwin_switcher_grab_end s))"

text \<open>The modifiers go on to the focused client; the release of Alt commits. \<open>alt\<close> is the state of
  the Alt modifier in the new mask, \<open>None\<close> when the keymap has no such modifier.\<close>

definition qdwin_switcher_grab_modifiers :: "nat \<Rightarrow> bool option \<Rightarrow> qdwin \<Rightarrow> qdwin" where
  "qdwin_switcher_grab_modifiers i alt s =
     (let s1 = emit (Seat (send_modifiers i)) s
      in case alt of
           None \<Rightarrow> s1
         | Some True \<Rightarrow> s1
         | Some False \<Rightarrow> qdwin_switcher_grab_end (send_to_shell switcher_commit s1))"

section \<open>The overlay grab\<close>

text \<open>The first seat in the seat list that has a keyboard.\<close>

definition first_keyboard :: "qdwin \<Rightarrow> nat option" where
  "first_keyboard s =
     (case List.map_filter (\<lambda>x. weston_seat_get_keyboard s (seat_id x)) (seats s) of
        [] \<Rightarrow> None | k # _ \<Rightarrow> Some (kb_id k))"

definition qdwin_overlay_grab_start :: "u32 \<Rightarrow> qdwin \<Rightarrow> qdwin" where
  "qdwin_overlay_grab_start role s =
     (case first_keyboard s of
        None \<Rightarrow> s
      | Some kb \<Rightarrow>
          if overlay_grab_active s then s\<lparr>overlay_grab_role := role\<rparr>
          else (weston_keyboard_start_grab kb Overlay_grab s)
                 \<lparr>overlay_grab_kbd := kb, overlay_grab_role := role, overlay_grab_active := True\<rparr>)"

definition qdwin_overlay_grab_end :: "qdwin \<Rightarrow> qdwin" where
  "qdwin_overlay_grab_end s =
     (if \<not> overlay_grab_active s then s
      else
        let s1 = weston_keyboard_end_grab (overlay_grab_kbd s) (s\<lparr>overlay_grab_active := False\<rparr>)
        in if overlay_grab_role s = 2 \<and> \<not> locked s
           then emit (Seat (send_modifiers (overlay_grab_kbd s))) (s1\<lparr>display_serial := display_serial s1 + 1\<rparr>)
           else s1)"

definition qdwin_overlay_grab_cancel :: "qdwin \<Rightarrow> qdwin" where
  "qdwin_overlay_grab_cancel s = s\<lparr>overlay_grab_active := False\<rparr>"

definition end_lock_grab :: "qdwin \<Rightarrow> qdwin" where
  "end_lock_grab s =
     (if overlay_grab_active s \<and> overlay_grab_role s = 2 then qdwin_overlay_grab_end s else s)"

definition qdwin_overlay_grab_key :: "bool \<Rightarrow> u32 \<Rightarrow> string \<Rightarrow> qdwin \<Rightarrow> qdwin" where
  "qdwin_overlay_grab_key pressed ks utf8 s0 =
     (if \<not> pressed then s0
      else
        let s = emit (Log_key ks utf8) s0
        in if overlay_grab_role s = 2 \<and> locker_resource s \<noteq> None
           then emit (Locker (locker_overlay_key ks utf8)) s
           else send_to_shell (overlay_key (overlay_grab_role s) ks utf8) s)"

definition qdwin_overlay_grab_modifiers :: "nat \<Rightarrow> qdwin \<Rightarrow> qdwin" where
  "qdwin_overlay_grab_modifiers i s =
     (if overlay_grab_role s = 2 then s else emit (Seat (send_modifiers i)) s)"

section \<open>Key bindings and the default grab\<close>

definition qdwin_on_launcher_key :: "qdwin \<Rightarrow> qdwin" where
  "qdwin_on_launcher_key s = send_to_shell launcher_requested s"

definition qdwin_on_switcher_key :: "nat \<Rightarrow> qdwin \<Rightarrow> qdwin" where
  "qdwin_on_switcher_key kb s =
     (if shell_resource s = None then s else qdwin_switcher_grab_start kb s)"

definition qdwin_on_switcher_back_key :: "nat \<Rightarrow> qdwin \<Rightarrow> qdwin" where
  "qdwin_on_switcher_back_key kb s =
     (if shell_resource s = None then s else qdwin_switcher_grab_start kb s)"

definition qdwin_on_alt_released :: "qdwin \<Rightarrow> qdwin" where
  "qdwin_on_alt_released s = send_to_shell switcher_commit s"

definition qdwin_on_lock_key :: "qdwin \<Rightarrow> qdwin" where
  "qdwin_on_lock_key s =
     (if locker_resource s \<noteq> None then emit (Locker locker_lock_requested) s
      else case shell_resource s of
             None \<Rightarrow> s
           | Some r \<Rightarrow> if 7 \<le> res_version r then emit (Shell lock_requested) s else s)"

definition qdwin_proxy_default_grab_key :: "nat \<Rightarrow> u32 \<Rightarrow> qdwin \<Rightarrow> qdwin" where
  "qdwin_proxy_default_grab_key i key s =
     (if locked s then s else emit (Seat (send_key i key)) s)"

definition qdwin_proxy_default_grab_modifiers :: "nat \<Rightarrow> qdwin \<Rightarrow> qdwin" where
  "qdwin_proxy_default_grab_modifiers i s =
     (if locked s then s else emit (Seat (send_modifiers i)) s)"

text \<open>What libweston does with a key: the bindings (a parameter, the handlers registered for the
  chord) run only under the default grab, then the grab that is installed gets the key.\<close>

definition notify_key :: "nat \<Rightarrow> (qdwin \<Rightarrow> qdwin) \<Rightarrow> u32 \<Rightarrow> bool \<Rightarrow> bool \<Rightarrow> u32 \<Rightarrow> string \<Rightarrow> qdwin \<Rightarrow> qdwin" where
  "notify_key i bindings key pressed shift ks utf8 s0 =
     (let s = (if kbd_grab_of s0 i = Some Default_grab then bindings s0 else s0)
      in case kbd_grab_of s i of
           None \<Rightarrow> s
         | Some Default_grab \<Rightarrow> qdwin_proxy_default_grab_key i key s
         | Some Overlay_grab \<Rightarrow> qdwin_overlay_grab_key pressed ks utf8 s
         | Some Switcher_grab \<Rightarrow> qdwin_switcher_grab_key key pressed shift s)"

definition notify_modifiers :: "nat \<Rightarrow> bool option \<Rightarrow> qdwin \<Rightarrow> qdwin" where
  "notify_modifiers i alt s =
     (case kbd_grab_of s i of
        None \<Rightarrow> s
      | Some Default_grab \<Rightarrow> qdwin_proxy_default_grab_modifiers i s
      | Some Overlay_grab \<Rightarrow> qdwin_overlay_grab_modifiers i s
      | Some Switcher_grab \<Rightarrow> qdwin_switcher_grab_modifiers i alt s)"

section \<open>Seat trackers\<close>

definition qdwin_send_seat_created :: "nat \<Rightarrow> qdwin \<Rightarrow> qdwin" where
  "qdwin_send_seat_created i s =
     (case seat_of s i of None \<Rightarrow> s | Some x \<Rightarrow> send_shell 2 (seat_created (seat_name x)) s)"

definition qdwin_track_seat :: "nat \<Rightarrow> qdwin \<Rightarrow> qdwin" where
  "qdwin_track_seat i s =
     qdwin_install_focus_listener_if_needed i
       (s\<lparr>seat_trackers := \<lparr>tr_seat = i, tr_listener = None, tr_last_focused = UINT32_MAX,
                            tr_silo = None, tr_recover_idle = False\<rparr> # seat_trackers s\<rparr>)"

definition qdwin_on_seat_created :: "nat \<Rightarrow> qdwin \<Rightarrow> qdwin" where
  "qdwin_on_seat_created i s = qdwin_send_seat_created i (qdwin_track_seat i s)"

definition qdwin_on_seat_updated_caps :: "nat \<Rightarrow> qdwin \<Rightarrow> qdwin" where
  "qdwin_on_seat_updated_caps i s = qdwin_seat_tracker_rebind_focus_listener i s"

definition qdwin_seat_tracker_destroy :: "nat \<Rightarrow> string \<Rightarrow> qdwin \<Rightarrow> qdwin" where
  "qdwin_seat_tracker_destroy i name s =
     (case qdwin_seat_tracker_for_seat s i of
        None \<Rightarrow> s
      | Some _ \<Rightarrow>
          (let s1 = send_shell 2 (seat_removed name) s
           in s1\<lparr>seat_trackers := [tr \<leftarrow> seat_trackers s1. tr_seat tr \<noteq> i]\<rparr>))"

section \<open>Seats of libweston\<close>

definition weston_seat_init :: "string \<Rightarrow> qdwin \<Rightarrow> qdwin" where
  "weston_seat_init name s =
     (let i = next_id s;
          x = \<lparr>seat_id = i, seat_name = name, seat_kbd = None, seat_pointer = None\<rparr>
      in qdwin_on_seat_created i (s\<lparr>seats := seats s @ [x], next_id := i + 1\<rparr>))"

definition weston_seat_init_keyboard :: "nat \<Rightarrow> qdwin \<Rightarrow> qdwin" where
  "weston_seat_init_keyboard i s =
     (case seat_of s i of
        None \<Rightarrow> s
      | Some x \<Rightarrow>
          (case seat_kbd x of
             Some k \<Rightarrow>
               (let s1 = upd_kbd i (\<lambda>k. k\<lparr>kb_devices := kb_devices k + 1\<rparr>) s
                in if kb_devices k = 0 then qdwin_on_seat_updated_caps i s1 else s1)
           | None \<Rightarrow>
               qdwin_on_seat_updated_caps i
                 ((upd_seat i (\<lambda>x. x\<lparr>seat_kbd := Some \<lparr>kb_id = next_id s, kb_devices = 1,
                     kb_focus = None, kb_grab = Default_grab\<rparr>\<rparr>) s)\<lparr>next_id := next_id s + 1\<rparr>)))"

text \<open>The last device of a keyboard goes away: the focus is dropped, the installed grab gets its
  cancel call, and the keyboard object stays with the seat.\<close>

definition cancel_grab :: "kbd_grab \<Rightarrow> qdwin \<Rightarrow> qdwin" where
  "cancel_grab g = (case g of Default_grab \<Rightarrow> id | Overlay_grab \<Rightarrow> qdwin_overlay_grab_cancel
                            | Switcher_grab \<Rightarrow> qdwin_switcher_grab_cancel)"

definition weston_seat_release_keyboard :: "nat \<Rightarrow> qdwin \<Rightarrow> qdwin" where
  "weston_seat_release_keyboard i s =
     (case weston_seat_get_keyboard s i of
        None \<Rightarrow> s
      | Some k \<Rightarrow>
          (let s1 = upd_kbd i (\<lambda>k. k\<lparr>kb_devices := kb_devices k - 1\<rparr>) s
           in if kb_devices k \<noteq> 1 then s1
              else
                let s2 = upd_kbd i (\<lambda>k. k\<lparr>kb_focus := None\<rparr>) s1;
                    s3 = fold (\<lambda>tr. qdwin_on_keyboard_focus_changed (tr_seat tr))
                           [tr \<leftarrow> seat_trackers s2. tr_listener tr = Some (kb_id k)] s2
                in qdwin_on_seat_updated_caps i (cancel_grab (kb_grab k) s3)))"

text \<open>The first pointer device of a seat appears, the last one goes away.\<close>

definition pointer_up :: "nat \<Rightarrow> qdwin \<Rightarrow> qdwin" where
  "pointer_up i s =
     qdwin_on_seat_updated_caps i (upd_seat i (\<lambda>x. x\<lparr>seat_pointer := Some (at_int 100 100)\<rparr>) s)"

definition pointer_down :: "nat \<Rightarrow> qdwin \<Rightarrow> qdwin" where
  "pointer_down i s =
     qdwin_on_seat_updated_caps i (upd_seat i (\<lambda>x. x\<lparr>seat_pointer := None\<rparr>) s)"

definition weston_seat_release :: "nat \<Rightarrow> qdwin \<Rightarrow> qdwin" where
  "weston_seat_release i s =
     (case seat_of s i of
        None \<Rightarrow> s
      | Some x \<Rightarrow> qdwin_seat_tracker_destroy i (seat_name x)
                    (s\<lparr>seats := [y \<leftarrow> seats s. seat_id y \<noteq> i]\<rparr>))"

section \<open>What the seats do not touch\<close>

definition inputless :: "qdwin \<Rightarrow> qdwin" where
  "inputless s = s\<lparr>seats := [], seat_trackers := [], out := [], overlay_grab_active := False,
     overlay_grab_role := 0, overlay_grab_kbd := 0, switcher_grab_active := False,
     switcher_grab_kbd := 0, display_serial := 0, next_id := 0\<rparr>"

lemma inputless_frame:
  assumes "inputless a = inputless b"
  shows "nested_mode a = nested_mode b"
    and "toplevels a = toplevels b"
    and "next_handle a = next_handle b"
    and "outputs a = outputs b"
    and "layer_position a = layer_position b"
    and "layer_views a = layer_views b"
    and "view_mapped a = view_mapped b"
    and "view_surface a = view_surface b"
    and "view_pos a = view_pos b"
    and "surface_mapped a = surface_mapped b"
    and "surface_client a = surface_client b"
    and "surface_size a = surface_size b"
    and "shell_bound a = shell_bound b"
    and "shell_resource a = shell_resource b"
    and "shell_pid a = shell_pid b"
    and "shell_uid a = shell_uid b"
    and "allowed_uid a = allowed_uid b"
    and "locker_resource a = locker_resource b"
    and "locker_pid a = locker_pid b"
    and "locker_uid a = locker_uid b"
    and "locker_starttime a = locker_starttime b"
    and "locked a = locked b"
    and "lock_surface a = lock_surface b"
    and "lock_view a = lock_view b"
    and "lock_view_is_toplevel a = lock_view_is_toplevel b"
    and "lock_toplevel a = lock_toplevel b"
    and "lock_resource a = lock_resource b"
    and "lock_resource_is_locker a = lock_resource_is_locker b"
    and "lock_reattach a = lock_reattach b"
    and "lock_curtain a = lock_curtain b"
    and "launchers a = launchers b"
    and "view_streams a = view_streams b"
    and "dead_streams a = dead_streams b"
    and "next_stream_port a = next_stream_port b"
    and "allowed_locker_uid a = allowed_locker_uid b"
    and "allowed_locker_entrypoint a = allowed_locker_entrypoint b"
    and "allowed_locker_exe a = allowed_locker_exe b"
    and "allowed_locker_label a = allowed_locker_label b"
    and "secctx_clients a = secctx_clients b"
    and "panels a = panels b"
    and "layer_surfaces a = layer_surfaces b"
    and "wm_policy a = wm_policy b"
    and "ffm_pending_handle a = ffm_pending_handle b"
    and "ffm_armed a = ffm_armed b"
    and "move_grab a = move_grab b"
    and "workspace_count a = workspace_count b"
    and "active_workspace a = active_workspace b"
    and "workspace_names a = workspace_names b"
    and "ext_ws_managers a = ext_ws_managers b"
    and "ws_handle_refs a = ws_handle_refs b"
    and "ub a = ub b"
  using assms by (cases a; cases b; simp add: inputless_def)+

lemma seatless_inputless: "seatless a = seatless b \<Longrightarrow> inputless a = inputless b"
  by (cases a; cases b; simp add: seatless_def inputless_def)

lemma inputless_upd [simp]:
  "inputless (s\<lparr>seats := a\<rparr>) = inputless s" "inputless (s\<lparr>seat_trackers := b\<rparr>) = inputless s"
  "inputless (s\<lparr>out := c\<rparr>) = inputless s" "inputless (s\<lparr>overlay_grab_active := d\<rparr>) = inputless s"
  "inputless (s\<lparr>overlay_grab_role := e\<rparr>) = inputless s" "inputless (s\<lparr>overlay_grab_kbd := k\<rparr>) = inputless s"
  "inputless (s\<lparr>switcher_grab_active := d\<rparr>) = inputless s" "inputless (s\<lparr>switcher_grab_kbd := k\<rparr>) = inputless s"
  "inputless (s\<lparr>display_serial := e\<rparr>) = inputless s" "inputless (s\<lparr>next_id := k\<rparr>) = inputless s"
  by (simp_all add: inputless_def)

lemma inputless_basic [simp]:
  "inputless (emit e s) = inputless s" "inputless (send_shell n f s) = inputless s"
  "inputless (set_grab kb g s) = inputless s" "inputless (send_to_shell f s) = inputless s"
  "inputless (upd_seat i u s) = inputless s" "inputless (upd_kbd i w s) = inputless s"
  "inputless (upd_tracker i v s) = inputless s"
  "inputless (qdwin_seat_emit_focus_now i s) = inputless s"
  "inputless (qdwin_on_keyboard_focus_changed i s) = inputless s"
  "inputless (weston_keyboard_set_focus i so s) = inputless s"
proof -
  show em: "inputless (emit e s) = inputless s" for e s
    by (rule seatless_inputless) simp
  show "inputless (send_to_shell f s) = inputless s"
    by (simp add: send_to_shell_def em)
  show "inputless (set_grab kb g s) = inputless s"
    by (simp add: set_grab_def)
qed (rule seatless_inputless, simp)+

lemma inputless_grabs [simp]:
  "inputless (qdwin_switcher_grab_start kb s) = inputless s"
  "inputless (qdwin_switcher_grab_end s) = inputless s"
  "inputless (qdwin_switcher_grab_cancel s) = inputless s"
  "inputless (qdwin_overlay_grab_start role s) = inputless s"
  "inputless (qdwin_overlay_grab_end s) = inputless s"
  "inputless (qdwin_overlay_grab_cancel s) = inputless s"
  "inputless (end_lock_grab s) = inputless s"
  "inputless (cancel_grab g s) = inputless s"
  by (auto simp: qdwin_switcher_grab_start_def qdwin_switcher_grab_end_def qdwin_switcher_grab_cancel_def
      qdwin_overlay_grab_start_def qdwin_overlay_grab_end_def qdwin_overlay_grab_cancel_def end_lock_grab_def
      cancel_grab_def weston_keyboard_start_grab_def weston_keyboard_end_grab_def Let_def
      split: option.split kbd_grab.split)

lemma inputless_keys [simp]:
  "inputless (qdwin_switcher_grab_key key p sh s) = inputless s"
  "inputless (qdwin_switcher_grab_modifiers i alt s) = inputless s"
  "inputless (qdwin_overlay_grab_key p ks utf8 s) = inputless s"
  "inputless (qdwin_overlay_grab_modifiers i s) = inputless s"
  "inputless (qdwin_on_launcher_key s) = inputless s"
  "inputless (qdwin_on_switcher_key kb s) = inputless s"
  "inputless (qdwin_on_switcher_back_key kb s) = inputless s"
  "inputless (qdwin_on_alt_released s) = inputless s"
  "inputless (qdwin_on_lock_key s) = inputless s"
  "inputless (qdwin_proxy_default_grab_key i key s) = inputless s"
  "inputless (qdwin_proxy_default_grab_modifiers i s) = inputless s"
  "inputless (notify_modifiers i alt s) = inputless s"
  by (auto simp: qdwin_switcher_grab_key_def qdwin_switcher_grab_modifiers_def qdwin_overlay_grab_key_def
      qdwin_overlay_grab_modifiers_def qdwin_on_launcher_key_def qdwin_on_switcher_key_def
      qdwin_on_switcher_back_key_def qdwin_on_alt_released_def qdwin_on_lock_key_def
      qdwin_proxy_default_grab_key_def qdwin_proxy_default_grab_modifiers_def notify_modifiers_def Let_def
      split: option.split kbd_grab.split bool.split)

lemma inputless_notify_key:
  assumes "\<And>u. inputless (bindings u) = inputless u"
  shows "inputless (notify_key i bindings key p sh ks utf8 s) = inputless s"
  using assms by (auto simp: notify_key_def Let_def split: option.split kbd_grab.split)

lemma inputless_trackers [simp]:
  "inputless (qdwin_install_focus_listener_if_needed i s) = inputless s"
  "inputless (qdwin_seat_tracker_rebind_focus_listener i s) = inputless s"
  "inputless (qdwin_track_seat i s) = inputless s"
  "inputless (qdwin_send_seat_created i s) = inputless s"
  "inputless (qdwin_on_seat_created i s) = inputless s"
  "inputless (qdwin_on_seat_updated_caps i s) = inputless s"
  "inputless (qdwin_seat_tracker_destroy i n s) = inputless s"
proof -
  show a: "inputless (qdwin_install_focus_listener_if_needed i s) = inputless s" for s
    by (simp add: qdwin_install_focus_listener_if_needed_def split: option.split)
  show b: "inputless (qdwin_seat_tracker_rebind_focus_listener i s) = inputless s" for s
    by (simp add: qdwin_seat_tracker_rebind_focus_listener_def Let_def a split: option.split)
  show c: "inputless (qdwin_track_seat i s) = inputless s" for s
    by (simp add: qdwin_track_seat_def a)
  show d: "inputless (qdwin_send_seat_created i s) = inputless s" for s
    by (simp add: qdwin_send_seat_created_def split: option.split)
  show "inputless (qdwin_on_seat_created i s) = inputless s"
    by (simp add: qdwin_on_seat_created_def c d)
  show "inputless (qdwin_on_seat_updated_caps i s) = inputless s"
    by (simp add: qdwin_on_seat_updated_caps_def b)
  show "inputless (qdwin_seat_tracker_destroy i n s) = inputless s"
    by (simp add: qdwin_seat_tracker_destroy_def Let_def split: option.split)
qed

lemma inputless_seats [simp]:
  "inputless (weston_seat_init n s) = inputless s"
  "inputless (weston_seat_init_keyboard i s) = inputless s"
  "inputless (weston_seat_release_keyboard i s) = inputless s"
  "inputless (pointer_up i s) = inputless s"
  "inputless (pointer_down i s) = inputless s"
  "inputless (weston_seat_release i s) = inputless s"
proof -
  have "inputless (fold (\<lambda>tr. qdwin_on_keyboard_focus_changed (tr_seat tr)) xs u) = inputless u"
    for xs :: "seat_tracker list" and u
    by (rule fold_keeps) simp
  then show "inputless (weston_seat_release_keyboard i s) = inputless s"
    by (simp add: weston_seat_release_keyboard_def Let_def split: option.split)
qed (simp_all add: weston_seat_init_def weston_seat_init_keyboard_def pointer_up_def pointer_down_def
      weston_seat_release_def Let_def split: option.split)

lemmas inputless_frames [simp] =
  inputless_frame [OF inputless_basic(3)]
  inputless_frame [OF inputless_basic(4)]
  inputless_frame [OF inputless_grabs(1)]
  inputless_frame [OF inputless_grabs(2)]
  inputless_frame [OF inputless_grabs(3)]
  inputless_frame [OF inputless_grabs(4)]
  inputless_frame [OF inputless_grabs(5)]
  inputless_frame [OF inputless_grabs(6)]
  inputless_frame [OF inputless_grabs(7)]
  inputless_frame [OF inputless_grabs(8)]
  inputless_frame [OF inputless_keys(1)]
  inputless_frame [OF inputless_keys(2)]
  inputless_frame [OF inputless_keys(3)]
  inputless_frame [OF inputless_keys(4)]
  inputless_frame [OF inputless_keys(5)]
  inputless_frame [OF inputless_keys(6)]
  inputless_frame [OF inputless_keys(7)]
  inputless_frame [OF inputless_keys(8)]
  inputless_frame [OF inputless_keys(9)]
  inputless_frame [OF inputless_keys(10)]
  inputless_frame [OF inputless_keys(11)]
  inputless_frame [OF inputless_keys(12)]
  inputless_frame [OF inputless_trackers(1)]
  inputless_frame [OF inputless_trackers(2)]
  inputless_frame [OF inputless_trackers(3)]
  inputless_frame [OF inputless_trackers(4)]
  inputless_frame [OF inputless_trackers(5)]
  inputless_frame [OF inputless_trackers(6)]
  inputless_frame [OF inputless_trackers(7)]
  inputless_frame [OF inputless_seats(1)]
  inputless_frame [OF inputless_seats(2)]
  inputless_frame [OF inputless_seats(3)]
  inputless_frame [OF inputless_seats(4)]
  inputless_frame [OF inputless_seats(5)]
  inputless_frame [OF inputless_seats(6)]

text \<open>Only the creation of seats and keyboards draws identifiers.\<close>

lemma basic_next_id [simp]:
  "next_id (emit e s) = next_id s" "next_id (send_to_shell f s) = next_id s" "next_id (upd_seat i u s) = next_id s"
  "next_id (upd_kbd i w s) = next_id s" "next_id (upd_tracker i v s) = next_id s" "next_id (set_grab kb g s) = next_id s"
  by (simp_all add: emit_def send_to_shell_def upd_seat_def upd_kbd_def upd_tracker_def set_grab_def)

lemma trackers_next_id [simp]:
  "next_id (qdwin_install_focus_listener_if_needed i s) = next_id s"
  "next_id (qdwin_seat_tracker_rebind_focus_listener i s) = next_id s"
  "next_id (qdwin_track_seat i s) = next_id s"
  "next_id (qdwin_send_seat_created i s) = next_id s"
  "next_id (qdwin_on_seat_created i s) = next_id s"
  "next_id (qdwin_on_seat_updated_caps i s) = next_id s"
  "next_id (qdwin_seat_tracker_destroy i n s) = next_id s"
  "next_id (cancel_grab g s) = next_id s"
proof -
  show a: "next_id (qdwin_install_focus_listener_if_needed i s) = next_id s" for s
    by (simp add: qdwin_install_focus_listener_if_needed_def split: option.split)
  show b: "next_id (qdwin_seat_tracker_rebind_focus_listener i s) = next_id s" for s
    by (simp add: qdwin_seat_tracker_rebind_focus_listener_def Let_def a split: option.split)
  show c: "next_id (qdwin_track_seat i s) = next_id s" for s
    by (simp add: qdwin_track_seat_def a)
  show d: "next_id (qdwin_send_seat_created i s) = next_id s" for s
    by (simp add: qdwin_send_seat_created_def split: option.split)
  show "next_id (qdwin_on_seat_created i s) = next_id s"
    by (simp add: qdwin_on_seat_created_def c d)
  show "next_id (qdwin_on_seat_updated_caps i s) = next_id s"
    by (simp add: qdwin_on_seat_updated_caps_def b)
  show "next_id (qdwin_seat_tracker_destroy i n s) = next_id s"
    by (simp add: qdwin_seat_tracker_destroy_def Let_def split: option.split)
  show "next_id (cancel_grab g s) = next_id s"
    by (simp add: cancel_grab_def qdwin_overlay_grab_cancel_def qdwin_switcher_grab_cancel_def split: kbd_grab.split)
qed

lemma seats_next_id [simp]:
  "next_id (weston_seat_init n s) = next_id s + 1"
  "next_id (weston_seat_release_keyboard i s) = next_id s"
  "next_id (pointer_up i s) = next_id s"
  "next_id (pointer_down i s) = next_id s"
  "next_id (weston_seat_release i s) = next_id s"
proof -
  have "next_id (fold (\<lambda>tr. qdwin_on_keyboard_focus_changed (tr_seat tr)) xs u) = next_id u"
    for xs :: "seat_tracker list" and u
    by (rule fold_keeps) (simp add: qdwin_on_keyboard_focus_changed_def)
  then show "next_id (weston_seat_release_keyboard i s) = next_id s"
    by (simp add: weston_seat_release_keyboard_def Let_def split: option.split)
qed (simp_all add: weston_seat_init_def pointer_up_def pointer_down_def weston_seat_release_def Let_def
      split: option.split)

lemma init_keyboard_next_id: "next_id s \<le> next_id (weston_seat_init_keyboard i s)"
  by (simp add: weston_seat_init_keyboard_def Let_def split: option.split)

end
