(* ===== verification/Streams.thy ===== *)
theory Streams
  imports Seats Workspace
begin

text \<open>Exports of single windows (\<^verbatim>\<open>struct qdwin_view_stream\<close> and its two protocol objects): the
  subscription by the shell, the pinning of the window to a PipeWire output, the claim of the
  input channel with the one-shot token, the injection requests, and the one terminal
  transition that revokes everything a stream holds. The list \<open>view_streams\<close> holds the live
  streams; a stream that was terminated stays in \<open>dead_streams\<close> until its client destroys the
  object. The kernel's random bytes and the result of starting the forwarder are parameters of
  the subscription; the forwarder itself, the pipes and the PipeWire backend are outside.\<close>

section \<open>Output and token lookup\<close>

definition is_pipewire :: "weston_output \<Rightarrow> bool" where
  "is_pipewire o1 \<longleftrightarrow> take 8 (o_name o1) = ''pipewire''"

definition qdwin_output_has_stream :: "qdwin \<Rightarrow> weston_output \<Rightarrow> bool" where
  "qdwin_output_has_stream s o1 \<longleftrightarrow> list_ex (\<lambda>v. vs_pw_output v = Some (o_id o1)) (view_streams s)"

definition qdwin_find_free_pipewire_output :: "qdwin \<Rightarrow> weston_output option" where
  "qdwin_find_free_pipewire_output s =
     find (\<lambda>o1. is_pipewire o1 \<and> \<not> qdwin_output_has_stream s o1) (outputs s)"

text \<open>\<^verbatim>\<open>qdwin_hex_token\<close> on the bytes the kernel gave: two digits per byte.\<close>

definition hex_digit :: "nat \<Rightarrow> char" where
  "hex_digit n = ''0123456789abcdef'' ! n"

definition qdwin_hex_token :: "8 word list \<Rightarrow> string" where
  "qdwin_hex_token bs = concat (map (\<lambda>b. [hex_digit (unat b div 16), hex_digit (unat b mod 16)]) bs)"

definition find_stream :: "qdwin \<Rightarrow> nat \<Rightarrow> view_stream option" where
  "find_stream s k = find (\<lambda>v. vs_id v = k) (view_streams s)"

definition upd_stream :: "nat \<Rightarrow> (view_stream \<Rightarrow> view_stream) \<Rightarrow> qdwin \<Rightarrow> qdwin" where
  "upd_stream k f s = s\<lparr>view_streams := upd_where (\<lambda>v. vs_id v = k) f (view_streams s)\<rparr>"

definition qdwin_view_stream_by_token :: "qdwin \<Rightarrow> string \<Rightarrow> view_stream option" where
  "qdwin_view_stream_by_token s token =
     (if token = [] then None
      else find (\<lambda>v. vs_token v \<noteq> [] \<and> vs_token v = token) (view_streams s))"

section \<open>Pinning\<close>

definition qdwin_view_stream_pin :: "nat \<Rightarrow> qdwin \<Rightarrow> qdwin" where
  "qdwin_view_stream_pin k s =
     (case find_stream s k of
        None \<Rightarrow> s
      | Some v \<Rightarrow>
          (case (vs_tl v \<bind> qdwin_toplevel_from_handle s,
                 find (\<lambda>o1. vs_pw_output v = Some (o_id o1)) (outputs s)) of
             (Some t, Some pw) \<Rightarrow>
               if tl_pending_decision t then s
               else upd_stream k (\<lambda>v. v\<lparr>vs_prev_pos := view_pos s (tl_view t), vs_pinned := True\<rparr>)
                      (qdwin_toplevel_position_chrome (tl_handle t)
                        (weston_view_set_position (tl_view t) (at_int (o_x pw + 32) (o_y pw + 32)) s))
           | _ \<Rightarrow> s))"

definition qdwin_view_stream_unpin :: "nat \<Rightarrow> qdwin \<Rightarrow> qdwin" where
  "qdwin_view_stream_unpin k s =
     (case find_stream s k of
        None \<Rightarrow> s
      | Some v \<Rightarrow>
          if \<not> vs_pinned v then s
          else
            let s1 = upd_stream k (\<lambda>v. v\<lparr>vs_pinned := False\<rparr>) s
            in case vs_tl v \<bind> qdwin_toplevel_from_handle s1 of
                 None \<Rightarrow> s1
               | Some t \<Rightarrow> qdwin_toplevel_position_chrome (tl_handle t)
                             (weston_view_set_position (tl_view t) (vs_prev_pos v) s1))"

section \<open>The forwarder and the stream's seat\<close>

text \<open>A forwarder is only ever signalled through the descriptor that names it.\<close>

definition qdwin_view_stream_reap_forward :: "nat \<Rightarrow> qdwin \<Rightarrow> qdwin" where
  "qdwin_view_stream_reap_forward k s =
     (case find_stream s k of
        None \<Rightarrow> s
      | Some v \<Rightarrow>
          upd_stream k (\<lambda>v. v\<lparr>vs_pidfd := False, vs_forward_pid := if vs_forward_pid v \<le> 0 then vs_forward_pid v else 0\<rparr>)
            (if 0 < vs_forward_pid v \<and> vs_pidfd v
             then emit (Stream (forward_sigterm (vs_forward_pid v))) s else s))"

definition qdwin_stream_confine_grab_start :: "nat \<Rightarrow> qdwin \<Rightarrow> qdwin" where
  "qdwin_stream_confine_grab_start k s =
     (case find_stream s k of
        None \<Rightarrow> s
      | Some v \<Rightarrow>
          if vs_confined v then s
          else case vs_seat v \<bind> seat_of s of
                 Some x \<Rightarrow> if seat_pointer x = None then s else upd_stream k (\<lambda>v. v\<lparr>vs_confined := True\<rparr>) s
               | None \<Rightarrow> s)"

definition qdwin_stream_confine_grab_end :: "nat \<Rightarrow> qdwin \<Rightarrow> qdwin" where
  "qdwin_stream_confine_grab_end k s = upd_stream k (\<lambda>v. v\<lparr>vs_confined := False\<rparr>) s"

definition qdwin_stream_seat_init :: "nat \<Rightarrow> qdwin \<Rightarrow> qdwin" where
  "qdwin_stream_seat_init k s =
     (case find_stream s k of
        None \<Rightarrow> s
      | Some v \<Rightarrow>
          if vs_seat v \<noteq> None then s
          else
            let i = next_id s;
                s1 = weston_seat_init (''qdwin-stream-'' @ show_nat (unat (vs_rdp_port v))) s;
                s2 = weston_seat_init_keyboard i (pointer_up i s1)
            in upd_stream k (\<lambda>v. v\<lparr>vs_seat := Some i\<rparr>) (qdwin_on_seat_updated_caps i s2))"

definition qdwin_stream_seat_release :: "nat \<Rightarrow> qdwin \<Rightarrow> qdwin" where
  "qdwin_stream_seat_release k s =
     (case find_stream s k \<bind> vs_seat of
        None \<Rightarrow> s
      | Some i \<Rightarrow>
          upd_stream k (\<lambda>v. v\<lparr>vs_seat := None\<rparr>)
            (weston_seat_release i
              (pointer_down i
                (weston_seat_release_keyboard i
                  (qdwin_on_seat_updated_caps i (qdwin_stream_confine_grab_end k s))))))"

section \<open>The terminal transition\<close>

text \<open>The record that is left of a stream: no output, no window, no seat, no secret.\<close>

definition tombstone :: "view_stream \<Rightarrow> view_stream" where
  "tombstone v = v\<lparr>vs_token := [], vs_claimed := False, vs_allow_input := False, vs_tl := None,
                   vs_pw_output := None, vs_rdp_port := 0\<rparr>"

definition qdwin_view_stream_release_server_state :: "nat \<Rightarrow> qdwin \<Rightarrow> qdwin" where
  "qdwin_view_stream_release_server_state k s =
     (case find_stream s k of
        None \<Rightarrow> s
      | Some _ \<Rightarrow>
          (let s1 = upd_stream k (\<lambda>v. v\<lparr>vs_input_handle := None, vs_claimed := False\<rparr>) s;
               s2 = qdwin_stream_seat_release k
                      (qdwin_view_stream_unpin k (qdwin_view_stream_reap_forward k s1))
           in case find_stream s2 k of
                None \<Rightarrow> s2
              | Some v \<Rightarrow> s2\<lparr>view_streams := [x \<leftarrow> view_streams s2. vs_id x \<noteq> k],
                             dead_streams := tombstone v # dead_streams s2\<rparr>))"

definition qdwin_view_stream_terminate :: "string \<Rightarrow> nat \<Rightarrow> qdwin \<Rightarrow> qdwin" where
  "qdwin_view_stream_terminate reason k s =
     (case find_stream s k of
        None \<Rightarrow> s
      | Some v \<Rightarrow>
          qdwin_view_stream_release_server_state k
            (if vs_torn_down v then s
             else emit (Stream (stream_torn_down k reason)) (upd_stream k (\<lambda>v. v\<lparr>vs_torn_down := True\<rparr>) s)))"

text \<open>The loops over all streams, as the entry into the lock runs it, and over those of a window.\<close>

definition terminate_all :: "string \<Rightarrow> qdwin \<Rightarrow> qdwin" where
  "terminate_all reason s =
     fold (qdwin_view_stream_terminate reason) (map vs_id (view_streams s)) s"

definition terminate_for :: "u32 \<Rightarrow> qdwin \<Rightarrow> qdwin" where
  "terminate_for h s =
     fold (qdwin_view_stream_terminate ''source toplevel closed'')
       (map vs_id [v \<leftarrow> view_streams s. vs_tl v = Some h]) s"

definition qdwin_forward_pidfd_ready :: "nat \<Rightarrow> qdwin \<Rightarrow> qdwin" where
  "qdwin_forward_pidfd_ready k s =
     qdwin_view_stream_terminate ''forward exited'' k
       (upd_stream k (\<lambda>v. v\<lparr>vs_pidfd := False, vs_forward_pid := 0\<rparr>) s)"

definition qdwin_stream_resource_destroyed :: "nat \<Rightarrow> qdwin \<Rightarrow> qdwin" where
  "qdwin_stream_resource_destroyed k s =
     (let s1 = qdwin_view_stream_release_server_state k s
      in s1\<lparr>dead_streams := [x \<leftarrow> dead_streams s1. vs_id x \<noteq> k]\<rparr>)"

section \<open>Requests\<close>

text \<open>The second half of a subscription: the secrets (\<open>token\<close> is the random source's answer), the
  stream's seat and the forwarder (\<open>spawn\<close> is its pid, if it started).\<close>

definition start_stream :: "nat \<Rightarrow> 8 word list option \<Rightarrow> pid_t option \<Rightarrow> qdwin \<Rightarrow> qdwin" where
  "start_stream k token spawn s1 =
     (let port = next_stream_port s1;
          s2 = upd_stream k (\<lambda>v. v\<lparr>vs_rdp_port := port\<rparr>) (s1\<lparr>next_stream_port := port + 1\<rparr>)
      in case token of
           None \<Rightarrow> qdwin_stream_resource_destroyed k (emit (Stream (stream_denied k)) s2)
         | Some bs \<Rightarrow>
             (let s3 = qdwin_stream_seat_init k (upd_stream k (\<lambda>v. v\<lparr>vs_token := qdwin_hex_token bs\<rparr>) s2)
              in case spawn of
                   None \<Rightarrow> qdwin_stream_resource_destroyed k (emit (Stream (stream_denied k)) s3)
                 | Some pid \<Rightarrow>
                     emit (Stream (stream_approved k port))
                       (upd_stream k (\<lambda>v. v\<lparr>vs_forward_pid := pid, vs_pidfd := True\<rparr>) s3)))"

definition new_stream :: "nat \<Rightarrow> u32 \<Rightarrow> bool \<Rightarrow> nat \<Rightarrow> view_stream" where
  "new_stream k h allow pw =
     \<lparr>vs_id = k, vs_tl = Some h, vs_handle = h, vs_torn_down = False, vs_pw_output = Some pw,
      vs_prev_pos = (0, 0), vs_pinned = False, vs_forward_pid = 0, vs_pidfd = False, vs_rdp_port = 0,
      vs_token = [], vs_claimed = False, vs_allow_input = allow, vs_input_handle = None,
      vs_seat = None, vs_confined = False\<rparr>"

definition qdwin_handle_subscribe_view_stream ::
  "wl_resource \<Rightarrow> u32 \<Rightarrow> bool \<Rightarrow> 8 word list option \<Rightarrow> pid_t option \<Rightarrow> qdwin \<Rightarrow> qdwin" where
  "qdwin_handle_subscribe_view_stream r h allow token spawn =
     qdwin_shell_require_bound r (\<lambda>s.
       (case qdwin_toplevel_from_handle s h of
          None \<Rightarrow> emit (Post_error (res_id r) ERROR_INVALID_HANDLE) s
        | Some t \<Rightarrow>
            (let k = next_id s; s0 = s\<lparr>next_id := k + 1\<rparr>
             in if tl_pending_decision t then emit (Stream (stream_denied k)) s0
                else case qdwin_find_free_pipewire_output s0 of
                       None \<Rightarrow> emit (Stream (stream_denied k)) s0
                     | Some pw \<Rightarrow>
                         start_stream k token spawn
                           (qdwin_view_stream_pin k
                             (s0\<lparr>view_streams := new_stream k h allow (o_id pw) # view_streams s0\<rparr>)))))"

definition qdwin_stream_input_handle_claim :: "wl_client \<Rightarrow> nat \<Rightarrow> string \<Rightarrow> qdwin \<Rightarrow> qdwin" where
  "qdwin_stream_input_handle_claim c rid token s =
     (let hr = next_id s; s0 = s\<lparr>next_id := hr + 1\<rparr>
      in case qdwin_view_stream_by_token s0 token of
           None \<Rightarrow> emit (Post_error rid ERROR_INVALID_TOKEN) s0
         | Some v \<Rightarrow>
             if vs_claimed v then emit (Post_error rid ERROR_ALREADY_CLAIMED) s0
             else if vs_forward_pid v \<le> 0 \<or> cl_pid c \<noteq> vs_forward_pid v
             then emit (Post_error rid ERROR_INVALID_TOKEN) s0
             else qdwin_stream_confine_grab_start (vs_id v)
                    (upd_stream (vs_id v) (\<lambda>v. v\<lparr>vs_claimed := True, vs_input_handle := Some hr\<rparr>) s0))"

definition find_handle :: "qdwin \<Rightarrow> nat \<Rightarrow> view_stream option" where
  "find_handle s hr = find (\<lambda>v. vs_input_handle v = Some hr) (view_streams s)"

definition qdwin_stream_input_handle_resource_destroyed :: "nat \<Rightarrow> qdwin \<Rightarrow> qdwin" where
  "qdwin_stream_input_handle_resource_destroyed hr s =
     (case find_handle s hr of
        None \<Rightarrow> s
      | Some v \<Rightarrow> qdwin_stream_confine_grab_end (vs_id v)
                   (upd_stream (vs_id v) (\<lambda>v. v\<lparr>vs_input_handle := None, vs_claimed := False, vs_token := []\<rparr>) s))"

definition qdwin_stream_seat_assert_focus :: "nat \<Rightarrow> qdwin \<Rightarrow> qdwin" where
  "qdwin_stream_seat_assert_focus k s =
     (case find_stream s k of
        None \<Rightarrow> s
      | Some v \<Rightarrow>
          (case (vs_seat v, vs_tl v \<bind> qdwin_toplevel_from_handle s) of
             (Some i, Some t) \<Rightarrow>
               if tl_pending_decision t then s
               else if weston_seat_get_keyboard s i \<noteq> None \<and> kbd_focus s i \<noteq> Some (view_surface s (tl_view t))
               then weston_keyboard_set_focus i (Some (view_surface s (tl_view t))) s
               else s
           | _ \<Rightarrow> s))"

text \<open>The guard the injection requests share, and the requests: motion and key assert the focus
  first, button and axis do not. \<open>stream_inject\<close> is the call of the notify function on the
  stream's seat.\<close>

definition inject_target :: "qdwin \<Rightarrow> nat \<Rightarrow> (view_stream \<times> nat) option" where
  "inject_target s hr =
     (case find_handle s hr of
        None \<Rightarrow> None
      | Some v \<Rightarrow>
          if locked s \<or> \<not> vs_allow_input v \<or> vs_tl v \<bind> qdwin_toplevel_from_handle s = None then None
          else map_option (\<lambda>i. (v, i)) (vs_seat v))"

definition qdwin_stream_input_inject_key :: "nat \<Rightarrow> qdwin \<Rightarrow> qdwin" where
  "qdwin_stream_input_inject_key hr s =
     (case inject_target s hr of
        None \<Rightarrow> s
      | Some (v, i) \<Rightarrow> emit (Stream (stream_inject (vs_id v) i)) (qdwin_stream_seat_assert_focus (vs_id v) s))"

definition qdwin_stream_input_inject_pointer_motion :: "nat \<Rightarrow> qdwin \<Rightarrow> qdwin" where
  "qdwin_stream_input_inject_pointer_motion hr s =
     (case inject_target s hr of
        None \<Rightarrow> s
      | Some (v, i) \<Rightarrow> emit (Stream (stream_inject (vs_id v) i)) (qdwin_stream_seat_assert_focus (vs_id v) s))"

definition qdwin_stream_input_inject_pointer_button :: "nat \<Rightarrow> qdwin \<Rightarrow> qdwin" where
  "qdwin_stream_input_inject_pointer_button hr s =
     (case inject_target s hr of
        None \<Rightarrow> s | Some (v, i) \<Rightarrow> emit (Stream (stream_inject (vs_id v) i)) s)"

definition qdwin_stream_input_inject_pointer_axis :: "nat \<Rightarrow> qdwin \<Rightarrow> qdwin" where
  "qdwin_stream_input_inject_pointer_axis hr s =
     (case inject_target s hr of
        None \<Rightarrow> s | Some (v, i) \<Rightarrow> emit (Stream (stream_inject (vs_id v) i)) s)"

section \<open>What the streams do not touch\<close>

definition streamless :: "qdwin \<Rightarrow> qdwin" where
  "streamless s = s\<lparr>seats := [], seat_trackers := [], out := [], overlay_grab_active := False,
     overlay_grab_role := 0, overlay_grab_kbd := 0, switcher_grab_active := False,
     switcher_grab_kbd := 0, display_serial := 0, next_id := 0, view_streams := [],
     dead_streams := [], view_pos := (\<lambda>_. (0, 0)), next_stream_port := 0\<rparr>"

lemma streamless_frame:
  assumes "streamless a = streamless b"
  shows "nested_mode a = nested_mode b"
    and "toplevels a = toplevels b"
    and "next_handle a = next_handle b"
    and "outputs a = outputs b"
    and "layer_position a = layer_position b"
    and "layer_views a = layer_views b"
    and "view_mapped a = view_mapped b"
    and "view_surface a = view_surface b"
    and "surface_mapped a = surface_mapped b"
    and "surface_client a = surface_client b"
    and "surface_size a = surface_size b"
    and "shell_bound a = shell_bound b"
    and "shell_resource a = shell_resource b"
    and "shell_pid a = shell_pid b"
    and "shell_uid a = shell_uid b"
    and "allowed_uid a = allowed_uid b"
    and "locker_resource a = locker_resource b"
    and "locker_pid a = locker_pid b"
    and "locker_uid a = locker_uid b"
    and "locker_starttime a = locker_starttime b"
    and "locked a = locked b"
    and "lock_surface a = lock_surface b"
    and "lock_view a = lock_view b"
    and "lock_view_is_toplevel a = lock_view_is_toplevel b"
    and "lock_toplevel a = lock_toplevel b"
    and "lock_resource a = lock_resource b"
    and "lock_resource_is_locker a = lock_resource_is_locker b"
    and "lock_reattach a = lock_reattach b"
    and "lock_curtain a = lock_curtain b"
    and "launchers a = launchers b"
    and "allowed_locker_uid a = allowed_locker_uid b"
    and "allowed_locker_entrypoint a = allowed_locker_entrypoint b"
    and "allowed_locker_exe a = allowed_locker_exe b"
    and "allowed_locker_label a = allowed_locker_label b"
    and "secctx_clients a = secctx_clients b"
    and "panels a = panels b"
    and "layer_surfaces a = layer_surfaces b"
    and "wm_policy a = wm_policy b"
    and "ffm_pending_handle a = ffm_pending_handle b"
    and "ffm_armed a = ffm_armed b"
    and "move_grab a = move_grab b"
    and "workspace_count a = workspace_count b"
    and "active_workspace a = active_workspace b"
    and "workspace_names a = workspace_names b"
    and "ext_ws_managers a = ext_ws_managers b"
    and "ws_handle_refs a = ws_handle_refs b"
    and "ub a = ub b"
  using assms by (cases a; cases b; simp add: streamless_def)+

lemma inputless_streamless: "inputless a = inputless b \<Longrightarrow> streamless a = streamless b"
  by (cases a; cases b; simp add: streamless_def inputless_def)

lemma streamless_upd [simp]:
  "streamless (s\<lparr>view_streams := a\<rparr>) = streamless s" "streamless (s\<lparr>dead_streams := a\<rparr>) = streamless s"
  "streamless (s\<lparr>next_stream_port := n\<rparr>) = streamless s" "streamless (s\<lparr>next_id := k\<rparr>) = streamless s"
  "streamless (s\<lparr>view_pos := p\<rparr>) = streamless s"
  "streamless (upd_stream k f s) = streamless s" "streamless (emit e s) = streamless s"
  "streamless (weston_view_set_position v q s) = streamless s"
  by (simp_all add: streamless_def upd_stream_def emit_def weston_view_set_position_def)

lemma position_chrome_keeps:
  assumes "\<And>v p u. g (weston_view_set_position v p u) = g u"
  shows "g (qdwin_toplevel_position_chrome k s) = g s"
proof -
  have "g (fold (\<lambda>sd u. case c sd of None \<Rightarrow> u
            | Some (a, v) \<Rightarrow> weston_view_set_position v (q sd) u) xs s) = g s"
    for c :: "side \<Rightarrow> (surface \<times> view) option" and q xs
    by (rule fold_keeps) (auto simp: assms split: option.split)
  then show ?thesis
    by (simp add: qdwin_toplevel_position_chrome_def Let_def split: option.split prod.split)
qed

lemma set_position_streams [simp]:
  "view_streams (weston_view_set_position v q s) = view_streams s"
  "dead_streams (weston_view_set_position v q s) = dead_streams s"
  "next_id (weston_view_set_position v q s) = next_id s"
  by (simp_all add: weston_view_set_position_def)

lemma position_chrome_streams [simp]:
  "view_streams (qdwin_toplevel_position_chrome k s) = view_streams s"
  "dead_streams (qdwin_toplevel_position_chrome k s) = dead_streams s"
  "next_id (qdwin_toplevel_position_chrome k s) = next_id s"
  "streamless (qdwin_toplevel_position_chrome k s) = streamless s"
  by (rule position_chrome_keeps; simp)+

lemma upd_stream_streams [simp]:
  "view_streams (upd_stream k f s) = upd_where (\<lambda>v. vs_id v = k) f (view_streams s)"
  "dead_streams (upd_stream k f s) = dead_streams s" "next_id (upd_stream k f s) = next_id s"
  by (simp_all add: upd_stream_def)

lemma emit_streams [simp]:
  "view_streams (emit e s) = view_streams s" "dead_streams (emit e s) = dead_streams s"
  "next_id (emit e s) = next_id s"
  by (simp_all add: emit_def)

lemma find_stream_upd [simp]:
  assumes "\<And>v. vs_id (f v) = vs_id v"
  shows "find_stream (upd_stream k f s) j = (if j = k then map_option f (find_stream s k) else find_stream s j)"
  unfolding find_stream_def upd_stream_streams
  using find_upd_where [of vs_id k f j "view_streams s"] assms by auto

lemma find_stream_cong: "view_streams a = view_streams b \<Longrightarrow> find_stream a = find_stream b"
  by (rule ext) (simp add: find_stream_def)

lemma find_stream_simps [simp]:
  "find_stream (emit e s) = find_stream s"
  "find_stream (weston_view_set_position v q s) = find_stream s"
  "find_stream (qdwin_toplevel_position_chrome h s) = find_stream s"
  by (rule find_stream_cong; simp)+

section \<open>What the terminal transition leaves\<close>

definition released :: "view_stream \<Rightarrow> view_stream" where
  "released v = tombstone (v\<lparr>vs_input_handle := None, vs_pidfd := False,
     vs_forward_pid := min (vs_forward_pid v) 0, vs_pinned := False,
     vs_confined := vs_confined v \<and> vs_seat v = None, vs_seat := None\<rparr>)"

lemma unpin_streams:
  "find_stream s k = Some v \<Longrightarrow>
     view_streams (qdwin_view_stream_unpin k s)
       = (if vs_pinned v then upd_where (\<lambda>v. vs_id v = k) (\<lambda>v. v\<lparr>vs_pinned := False\<rparr>) (view_streams s)
          else view_streams s)"
  "dead_streams (qdwin_view_stream_unpin k s) = dead_streams s"
  "next_id (qdwin_view_stream_unpin k s) = next_id s"
  by (auto simp: qdwin_view_stream_unpin_def Let_def split: option.split)

lemma reap_streams:
  "find_stream s k = Some v \<Longrightarrow>
     view_streams (qdwin_view_stream_reap_forward k s)
       = upd_where (\<lambda>v. vs_id v = k) (\<lambda>v. v\<lparr>vs_pidfd := False,
           vs_forward_pid := if vs_forward_pid v \<le> 0 then vs_forward_pid v else 0\<rparr>) (view_streams s)"
  "dead_streams (qdwin_view_stream_reap_forward k s) = dead_streams s"
  "next_id (qdwin_view_stream_reap_forward k s) = next_id s"
  by (auto simp: qdwin_view_stream_reap_forward_def split: option.split)

lemma find_reap:
  "find_stream (qdwin_view_stream_reap_forward k s) j =
     (if j = k then map_option (\<lambda>v. v\<lparr>vs_pidfd := False,
        vs_forward_pid := if vs_forward_pid v \<le> 0 then vs_forward_pid v else 0\<rparr>) (find_stream s k)
      else find_stream s j)"
  by (cases "find_stream s k") (auto simp: qdwin_view_stream_reap_forward_def)

lemma find_unpin:
  "find_stream (qdwin_view_stream_unpin k s) j =
     (if j = k then map_option (\<lambda>v. v\<lparr>vs_pinned := False\<rparr>) (find_stream s k) else find_stream s j)"
proof (cases "find_stream s k")
  case None
  then show ?thesis by (simp add: qdwin_view_stream_unpin_def)
next
  case (Some v)
  then show ?thesis
    by (auto simp: qdwin_view_stream_unpin_def Let_def split: option.split)
qed

lemma filter_upd_where_same:
  assumes "\<And>v. vs_id (f v) = vs_id v"
  shows "[x \<leftarrow> upd_where (\<lambda>v. vs_id v = k) f xs. vs_id x \<noteq> k] = [x \<leftarrow> xs. vs_id x \<noteq> k]"
  using assms by (induction xs) auto

lemma seat_release_streams:
  "view_streams (qdwin_stream_seat_release k s) = (case find_stream s k \<bind> vs_seat of
     None \<Rightarrow> view_streams s
   | Some _ \<Rightarrow> upd_where (\<lambda>v. vs_id v = k) (\<lambda>v. v\<lparr>vs_confined := False, vs_seat := None\<rparr>) (view_streams s))"
  "dead_streams (qdwin_stream_seat_release k s) = dead_streams s"
  by (auto simp: qdwin_stream_seat_release_def qdwin_stream_confine_grab_end_def upd_where_def
      split: option.split)

lemma find_seat_release:
  "find_stream (qdwin_stream_seat_release k s) k =
     map_option (\<lambda>v. v\<lparr>vs_confined := vs_confined v \<and> vs_seat v = None, vs_seat := None\<rparr>) (find_stream s k)"
proof (cases "find_stream s k \<bind> vs_seat")
  case None
  then show ?thesis
    by (cases "find_stream s k") (auto simp: qdwin_stream_seat_release_def)
next
  case (Some i)
  then obtain v where v: "find_stream s k = Some v" "vs_seat v = Some i"
    by (auto simp: bind_eq_Some_conv)
  have "find_stream (qdwin_stream_seat_release k s) k
      = find_stream (upd_stream k (\<lambda>v. v\<lparr>vs_confined := False, vs_seat := None\<rparr>) s) k"
    by (rule fun_cong [OF find_stream_cong]) (simp add: seat_release_streams v)
  then show ?thesis
    using v by simp
qed

lemma release_streams:
  assumes "find_stream s k = Some v"
  shows "view_streams (qdwin_view_stream_release_server_state k s) = [x \<leftarrow> view_streams s. vs_id x \<noteq> k]"
    and "dead_streams (qdwin_view_stream_release_server_state k s) = released v # dead_streams s"
proof -
  let ?s1 = "upd_stream k (\<lambda>v. v\<lparr>vs_input_handle := None, vs_claimed := False\<rparr>) s"
  let ?v1 = "v\<lparr>vs_input_handle := None, vs_claimed := False\<rparr>"
  let ?s2 = "qdwin_view_stream_reap_forward k ?s1"
  let ?v2 = "?v1\<lparr>vs_pidfd := False, vs_forward_pid := if vs_forward_pid v \<le> 0 then vs_forward_pid v else 0\<rparr>"
  let ?s3 = "qdwin_view_stream_unpin k ?s2"
  let ?s4 = "qdwin_stream_seat_release k ?s3"
  have f1: "find_stream ?s1 k = Some ?v1"
    using assms by simp
  have f2: "find_stream ?s2 k = Some ?v2"
    unfolding find_reap f1 by simp
  have f3: "find_stream ?s3 k = Some (?v2\<lparr>vs_pinned := False\<rparr>)"
    unfolding find_unpin f2 by simp
  have f4: "find_stream ?s4 k = Some (?v2\<lparr>vs_pinned := False, vs_confined := vs_confined v \<and> vs_seat v = None,
      vs_seat := None\<rparr>)"
    unfolding find_seat_release f3 by simp
  have vs: "[x \<leftarrow> view_streams ?s4. vs_id x \<noteq> k] = [x \<leftarrow> view_streams s. vs_id x \<noteq> k]"
    by (simp add: seat_release_streams unpin_streams(1) [OF f2] reap_streams(1) [OF f1]
        filter_upd_where_same split: option.split)
  show "view_streams (qdwin_view_stream_release_server_state k s) = [x \<leftarrow> view_streams s. vs_id x \<noteq> k]"
    using f4 vs by (simp add: qdwin_view_stream_release_server_state_def assms Let_def)
  have "tombstone (?v2\<lparr>vs_pinned := False, vs_confined := vs_confined v \<and> vs_seat v = None, vs_seat := None\<rparr>)
      = released v"
    by (simp add: released_def tombstone_def min_def)
  then show "dead_streams (qdwin_view_stream_release_server_state k s) = released v # dead_streams s"
    using f4 by (simp add: qdwin_view_stream_release_server_state_def assms Let_def
        seat_release_streams unpin_streams reap_streams)
qed

lemma release_absent: "find_stream s k = None \<Longrightarrow> qdwin_view_stream_release_server_state k s = s"
  by (simp add: qdwin_view_stream_release_server_state_def)

lemma terminate_streams:
  "view_streams (qdwin_view_stream_terminate reason k s) = [x \<leftarrow> view_streams s. vs_id x \<noteq> k]"
  "dead_streams (qdwin_view_stream_terminate reason k s) =
     (case find_stream s k of None \<Rightarrow> dead_streams s
      | Some v \<Rightarrow> released (v\<lparr>vs_torn_down := True\<rparr>) # dead_streams s)"
proof -
  have absent: "find_stream s k = None \<Longrightarrow> [x \<leftarrow> view_streams s. vs_id x \<noteq> k] = view_streams s"
    by (auto simp: find_stream_def find_None_iff filter_id_conv)
  have torn: "vs_torn_down v \<Longrightarrow> v\<lparr>vs_torn_down := True\<rparr> = v" for v
    by (cases v) simp
  show "view_streams (qdwin_view_stream_terminate reason k s) = [x \<leftarrow> view_streams s. vs_id x \<noteq> k]"
    by (auto simp: qdwin_view_stream_terminate_def absent release_streams(1) filter_upd_where_same
        split: option.split)
  show "dead_streams (qdwin_view_stream_terminate reason k s) =
     (case find_stream s k of None \<Rightarrow> dead_streams s
      | Some v \<Rightarrow> released (v\<lparr>vs_torn_down := True\<rparr>) # dead_streams s)"
    by (auto simp: qdwin_view_stream_terminate_def release_streams(2) torn split: option.split)
qed

section \<open>The invariant\<close>

text \<open>A live stream has an output of its own and was not told that it ended; a dead one holds no
  capability at all.\<close>

definition live_ok :: "view_stream \<Rightarrow> bool" where
  "live_ok v \<longleftrightarrow> \<not> vs_torn_down v \<and> vs_pw_output v \<noteq> None \<and> (vs_claimed v \<longleftrightarrow> vs_input_handle v \<noteq> None)
     \<and> (vs_confined v \<longrightarrow> vs_seat v \<noteq> None) \<and> (0 < vs_forward_pid v \<longrightarrow> vs_pidfd v)"

definition inert :: "view_stream \<Rightarrow> bool" where
  "inert v \<longleftrightarrow> vs_token v = [] \<and> vs_input_handle v = None \<and> \<not> vs_claimed v \<and> \<not> vs_allow_input v
     \<and> vs_tl v = None \<and> vs_pw_output v = None \<and> vs_seat v = None \<and> vs_forward_pid v \<le> 0
     \<and> \<not> vs_pidfd v \<and> \<not> vs_pinned v \<and> \<not> vs_confined v"

definition stream_inv :: "qdwin \<Rightarrow> bool" where
  "stream_inv s \<longleftrightarrow>
     distinct (map vs_id (view_streams s @ dead_streams s))
     \<and> list_all (\<lambda>v. vs_id v < next_id s) (view_streams s @ dead_streams s)
     \<and> distinct (map vs_pw_output (view_streams s))
     \<and> list_all live_ok (view_streams s) \<and> list_all inert (dead_streams s)"

lemma released_inert: "live_ok v \<Longrightarrow> inert (released v)"
  by (auto simp: live_ok_def inert_def released_def tombstone_def)

lemma released_torn: "inert (released (v\<lparr>vs_torn_down := b\<rparr>)) = inert (released v)"
  "vs_id (released v) = vs_id v"
  by (auto simp: inert_def released_def tombstone_def)

lemma stream_inv_mono:
  "view_streams a = view_streams b \<Longrightarrow> dead_streams a = dead_streams b \<Longrightarrow> next_id b \<le> next_id a
     \<Longrightarrow> stream_inv b \<Longrightarrow> stream_inv a"
  by (auto simp: stream_inv_def list_all_iff intro: less_le_trans)

text \<open>A change of live streams that keeps their identity and their output.\<close>

lemma stream_inv_upd:
  assumes "stream_inv s" and "\<And>v. vs_id (f v) = vs_id v" and "\<And>v. vs_pw_output (f v) = vs_pw_output v"
    and "\<And>v. v \<in> set (view_streams s) \<Longrightarrow> vs_id v = k \<Longrightarrow> live_ok v \<Longrightarrow> live_ok (f v)"
  shows "stream_inv (upd_stream k f s)"
proof -
  have "list_all live_ok (upd_where (\<lambda>v. vs_id v = k) f (view_streams s))"
    using assms(1,4) by (auto simp: stream_inv_def list_all_iff set_upd_where)
  moreover have "list_all (\<lambda>v. vs_id v < next_id s) (upd_where (\<lambda>v. vs_id v = k) f (view_streams s))"
    using assms(1,2) by (auto simp: stream_inv_def list_all_iff set_upd_where)
  moreover have "map vs_id (upd_where (\<lambda>v. vs_id v = k) f (view_streams s)) = map vs_id (view_streams s)"
    using assms(2) by simp
  moreover have "map vs_pw_output (upd_where (\<lambda>v. vs_id v = k) f (view_streams s)) = map vs_pw_output (view_streams s)"
    using assms(3) by simp
  moreover have "set (map vs_id (upd_where (\<lambda>v. vs_id v = k) f (view_streams s))) = set (map vs_id (view_streams s))"
    using assms(2) by simp
  ultimately show ?thesis
    using assms(1) unfolding stream_inv_def upd_stream_streams by (simp only: map_append distinct_append list_all_append)
qed

lemma release_next_id [simp]: "next_id (qdwin_view_stream_release_server_state k s) = next_id s"
  by (simp add: qdwin_view_stream_release_server_state_def Let_def qdwin_stream_seat_release_def
      qdwin_stream_confine_grab_end_def unpin_streams reap_streams split: option.split)

lemma inv_dead_cons:
  assumes "stream_inv s" and "find_stream s k = Some v"
    and "view_streams u = [x \<leftarrow> view_streams s. vs_id x \<noteq> k]" and "dead_streams u = d # dead_streams s"
    and "next_id u = next_id s" and "inert d" and "vs_id d = k"
  shows "stream_inv u"
proof -
  have m: "v \<in> set (view_streams s)" "vs_id v = k"
    using assms(2) by (auto simp: find_stream_def dest: find_Some_mem)
  have "k \<notin> set (map vs_id (dead_streams s))"
    using assms(1) m by (auto simp: stream_inv_def)
  moreover have "k < next_id s"
    using assms(1) m by (auto simp: stream_inv_def list_all_iff)
  moreover have "distinct (map vs_pw_output [x \<leftarrow> view_streams s. vs_id x \<noteq> k])"
    "distinct (map vs_id [x \<leftarrow> view_streams s. vs_id x \<noteq> k])"
    using assms(1) by (auto simp: stream_inv_def distinct_map_filter)
  ultimately show ?thesis
    using assms m by (auto simp: stream_inv_def list_all_iff)
qed

lemma inv_release:
  assumes "stream_inv s"
  shows "stream_inv (qdwin_view_stream_release_server_state k s)"
proof (cases "find_stream s k")
  case None
  then show ?thesis using assms by (simp add: release_absent)
next
  case (Some v)
  then have "v \<in> set (view_streams s)" "vs_id v = k"
    by (auto simp: find_stream_def dest: find_Some_mem)
  then have "inert (released v)"
    using assms by (auto simp: stream_inv_def list_all_iff released_inert)
  then show ?thesis
    using inv_dead_cons [OF assms Some release_streams [OF Some]] \<open>vs_id v = k\<close> by (simp add: released_torn)
qed

lemma terminate_next_id [simp]: "next_id (qdwin_view_stream_terminate reason k s) = next_id s"
  by (simp add: qdwin_view_stream_terminate_def split: option.split)

lemma inv_terminate:
  assumes "stream_inv s"
  shows "stream_inv (qdwin_view_stream_terminate reason k s)"
proof (cases "find_stream s k")
  case None
  then show ?thesis using assms by (simp add: qdwin_view_stream_terminate_def)
next
  case (Some v)
  then have "v \<in> set (view_streams s)" "vs_id v = k"
    by (auto simp: find_stream_def dest: find_Some_mem)
  then have "inert (released (v\<lparr>vs_torn_down := True\<rparr>))"
    using assms by (auto simp: stream_inv_def list_all_iff released_torn released_inert)
  then show ?thesis
    using inv_dead_cons [OF assms Some terminate_streams(1)] Some \<open>vs_id v = k\<close>
    by (simp add: released_torn terminate_streams(2))
qed

text \<open>The stream a subscription is about is the first one, and its updates reach no other.\<close>

definition heads :: "view_stream \<Rightarrow> view_stream list \<Rightarrow> qdwin \<Rightarrow> bool" where
  "heads w xs s \<longleftrightarrow> view_streams s = w # xs \<and> vs_id w \<notin> set (map vs_id xs)"

lemma upd_where_fresh: "k \<notin> set (map vs_id xs) \<Longrightarrow> upd_where (\<lambda>v. vs_id v = k) f xs = xs"
  by (induction xs) auto

lemma heads_upd:
  assumes "heads w xs s" and "vs_id w = k" and "\<And>v. vs_id (f v) = vs_id v"
  shows "heads (f w) xs (upd_stream k f s)"
  using assms by (simp add: heads_def upd_where_fresh)

lemma heads_find: "heads w xs s \<Longrightarrow> find_stream s (vs_id w) = Some w"
  by (simp add: heads_def find_stream_def)

lemma heads_cong: "view_streams a = view_streams b \<Longrightarrow> heads w xs a = heads w xs b"
  by (simp add: heads_def)

lemma heads_pin:
  assumes "heads w xs s"
  shows "\<exists>q b. heads (w\<lparr>vs_prev_pos := q, vs_pinned := b\<rparr>) xs (qdwin_view_stream_pin (vs_id w) s)"
    (is "\<exists>q b. ?P q b")
proof (cases "qdwin_view_stream_pin (vs_id w) s = s")
  case True
  then have "?P (vs_prev_pos w) (vs_pinned w)"
    using assms by simp
  then show ?thesis by blast
next
  case False
  then obtain t pw where "vs_tl w \<bind> qdwin_toplevel_from_handle s = Some t"
    and "find (\<lambda>o1. vs_pw_output w = Some (o_id o1)) (outputs s) = Some pw" and "\<not> tl_pending_decision t"
    by (auto simp: qdwin_view_stream_pin_def heads_find [OF assms] split: option.splits if_splits)
  then have eq: "qdwin_view_stream_pin (vs_id w) s =
      upd_stream (vs_id w) (\<lambda>v. v\<lparr>vs_prev_pos := view_pos s (tl_view t), vs_pinned := True\<rparr>)
        (qdwin_toplevel_position_chrome (tl_handle t)
          (weston_view_set_position (tl_view t) (at_int (o_x pw + 32) (o_y pw + 32)) s))"
    by (simp add: qdwin_view_stream_pin_def heads_find [OF assms])
  have "?P (view_pos s (tl_view t)) True"
    unfolding eq using assms by (intro heads_upd) (simp_all add: heads_def)
  then show ?thesis by blast
qed

lemma heads_seat_init:
  assumes "heads w xs s"
  shows "\<exists>i. heads (w\<lparr>vs_seat := i\<rparr>) xs (qdwin_stream_seat_init (vs_id w) s)"
proof (cases "vs_seat w")
  case None
  let ?u = "qdwin_on_seat_updated_caps (next_id s) (weston_seat_init_keyboard (next_id s) (pointer_up (next_id s)
     (weston_seat_init (''qdwin-stream-'' @ show_nat (unat (vs_rdp_port w))) s)))"
  have "heads w xs ?u"
    using assms by (simp add: heads_def)
  then have "heads (w\<lparr>vs_seat := Some (next_id s)\<rparr>) xs
      (upd_stream (vs_id w) (\<lambda>v. v\<lparr>vs_seat := Some (next_id s)\<rparr>) ?u)"
    by (intro heads_upd) auto
  then show ?thesis
    using None by (auto simp: qdwin_stream_seat_init_def heads_find [OF assms] Let_def)
next
  case (Some i)
  then have w: "w\<lparr>vs_seat := Some i\<rparr> = w"
    by (cases w) simp
  have "heads (w\<lparr>vs_seat := Some i\<rparr>) xs (qdwin_stream_seat_init (vs_id w) s)"
    unfolding w using assms Some by (simp add: qdwin_stream_seat_init_def heads_find [OF assms])
  then show ?thesis by blast
qed

lemma pin_rest [simp]:
  "dead_streams (qdwin_view_stream_pin k s) = dead_streams s" "next_id (qdwin_view_stream_pin k s) = next_id s"
  by (simp_all add: qdwin_view_stream_pin_def split: option.split)

lemma seat_init_rest:
  "dead_streams (qdwin_stream_seat_init k s) = dead_streams s"
  "next_id s \<le> next_id (qdwin_stream_seat_init k s)"
proof -
  have "next_id u + 1 \<le> next_id (weston_seat_init_keyboard i (pointer_up i (weston_seat_init n u)))" for u i n
    using init_keyboard_next_id [of "pointer_up i (weston_seat_init n u)" i] by simp
  then show "next_id s \<le> next_id (qdwin_stream_seat_init k s)"
    by (auto simp: qdwin_stream_seat_init_def Let_def intro: Suc_leD split: option.split)
  show "dead_streams (qdwin_stream_seat_init k s) = dead_streams s"
    by (simp add: qdwin_stream_seat_init_def Let_def split: option.split)
qed

text \<open>A new stream in front of an intact list, and its removal.\<close>

lemma inv_heads:
  assumes "stream_inv s" and "heads w (view_streams s) u" and "dead_streams u = dead_streams s"
    and "vs_id w = next_id s" and "next_id s < next_id u"
    and "live_ok w" and "vs_pw_output w \<notin> set (map vs_pw_output (view_streams s))"
  shows "stream_inv u"
  using assms by (auto simp: stream_inv_def heads_def list_all_iff intro: less_trans)

lemma inv_destroyed:
  assumes "stream_inv s" and "heads w (view_streams s) u" and "dead_streams u = dead_streams s"
    and "vs_id w = next_id s" and "next_id s < next_id u"
  shows "stream_inv (qdwin_stream_resource_destroyed (next_id s) u)"
proof -
  have f: "find_stream u (next_id s) = Some w"
    using heads_find [OF assms(2)] assms(4) by simp
  have ids: "v \<in> set (view_streams s) \<union> set (dead_streams s) \<Longrightarrow> vs_id v < next_id s" for v
    using assms(1) by (auto simp: stream_inv_def list_all_iff)
  have "[x \<leftarrow> view_streams u. vs_id x \<noteq> next_id s] = view_streams s"
    using assms(2,4) by (auto simp: heads_def filter_id_conv image_iff)
  moreover have "[x \<leftarrow> dead_streams s. vs_id x \<noteq> next_id s] = dead_streams s"
    using ids by (fastforce simp: filter_id_conv)
  ultimately show ?thesis
    using release_streams [OF f] assms(1,3,4,5)
    by (intro stream_inv_mono [OF _ _ _ assms(1)])
      (simp_all add: qdwin_stream_resource_destroyed_def Let_def released_torn)
qed

lemma free_output_unused:
  "qdwin_find_free_pipewire_output s = Some pw \<Longrightarrow> Some (o_id pw) \<notin> set (map vs_pw_output (view_streams s))"
  unfolding qdwin_find_free_pipewire_output_def
  by (drule find_Some_mem) (auto simp: qdwin_output_has_stream_def list_ex_iff)

text \<open>A subscription that was given an output ends in one of two ways: the new stream is destroyed
  again, or it stands in front of the list with the token that was drawn.\<close>

lemma start_stream_cases:
  assumes h1: "heads w xs s1" and d1: "dead_streams s1 = ds" and n1: "k < next_id s1"
    and w: "vs_id w = k" "live_ok w" "\<not> vs_confined w"
  obtains (denied) x u where "start_stream k token spawn s1 = qdwin_stream_resource_destroyed k u"
      and "heads x xs u" and "dead_streams u = ds" and "k < next_id u" and "vs_id x = k"
  | (approved) x bs u where "token = Some bs" and "start_stream k token spawn s1 = u" and "heads x xs u"
      and "dead_streams u = ds" and "k < next_id u" and "vs_id x = k" and "live_ok x"
      and "vs_pw_output x = vs_pw_output w" and "vs_token x = qdwin_hex_token bs"
proof -
  let ?s2 = "upd_stream k (\<lambda>v. v\<lparr>vs_rdp_port := next_stream_port s1\<rparr>)
    (s1\<lparr>next_stream_port := next_stream_port s1 + 1\<rparr>)"
  let ?w2 = "w\<lparr>vs_rdp_port := next_stream_port s1\<rparr>"
  have h2: "heads ?w2 xs ?s2"
    using h1 w(1) by (intro heads_upd) (simp_all add: heads_def)
  have he: "heads x xs u \<Longrightarrow> heads x xs (emit e u)" for x u e
    by (simp add: heads_def)
  show thesis
  proof (cases token)
    case None
    show ?thesis
      by (rule denied [OF _ he [OF h2]]) (use None d1 n1 w(1) in \<open>simp_all add: start_stream_def Let_def\<close>)
  next
    case (Some bs)
    let ?u = "upd_stream k (\<lambda>v. v\<lparr>vs_token := qdwin_hex_token bs\<rparr>) ?s2"
    let ?w3 = "?w2\<lparr>vs_token := qdwin_hex_token bs\<rparr>" and ?s3 = "qdwin_stream_seat_init k ?u"
    have "heads ?w3 xs ?u"
      using w(1) by (intro heads_upd [OF h2]) simp_all
    then obtain i where h3: "heads (?w3\<lparr>vs_seat := i\<rparr>) xs ?s3"
      using heads_seat_init [of ?w3] w(1) by auto
    have d3: "dead_streams ?s3 = ds" and n3: "k < next_id ?s3"
      using d1 n1 seat_init_rest(2) [of ?u k] by (simp_all add: seat_init_rest(1))
    show ?thesis
    proof (cases spawn)
      case None
      show ?thesis
        by (rule denied [OF _ he [OF h3]]) (use None Some d3 n3 w(1) in \<open>simp_all add: start_stream_def Let_def\<close>)
    next
      case pid: (Some pid)
      have h4: "heads (?w3\<lparr>vs_seat := i, vs_forward_pid := pid, vs_pidfd := True\<rparr>) xs
          (upd_stream k (\<lambda>v. v\<lparr>vs_forward_pid := pid, vs_pidfd := True\<rparr>) ?s3)"
        using heads_upd [OF h3, of k "\<lambda>v. v\<lparr>vs_forward_pid := pid, vs_pidfd := True\<rparr>"] w(1) by simp
      show ?thesis
        by (rule approved [OF Some _ he [OF h4]])
          (use pid Some d3 n3 w in \<open>simp_all add: start_stream_def Let_def live_ok_def\<close>)
    qed
  qed
qed

lemma inv_start_stream:
  assumes "stream_inv s" and "heads w (view_streams s) s1" and "dead_streams s1 = dead_streams s"
    and "next_id s < next_id s1" and "vs_id w = next_id s" and "live_ok w" and "\<not> vs_confined w"
    and "vs_pw_output w \<notin> set (map vs_pw_output (view_streams s))"
  shows "stream_inv (start_stream (next_id s) token spawn s1)"
  using assms(2-7)
proof (cases rule: start_stream_cases [where token = token and spawn = spawn])
  case (denied x u)
  then show ?thesis
    using inv_destroyed [OF assms(1)] by simp
next
  case (approved x bs u)
  then show ?thesis
    using inv_heads [OF assms(1)] assms(8) by simp
qed

lemma inv_subscribe:
  assumes "stream_inv s"
  shows "stream_inv (qdwin_handle_subscribe_view_stream r h allow token spawn s)"
proof -
  let ?k = "next_id s" and ?s0 = "s\<lparr>next_id := next_id s + 1\<rparr>"
  have keep: "stream_inv (emit e s)" "stream_inv (emit e ?s0)" for e
    using assms by (auto intro: stream_inv_mono [rotated 3])
  have "stream_inv (start_stream ?k token spawn (qdwin_view_stream_pin ?k
      (?s0\<lparr>view_streams := new_stream ?k h allow (o_id pw) # view_streams s\<rparr>)))"
    if "qdwin_find_free_pipewire_output ?s0 = Some pw" for pw
  proof -
    let ?w = "new_stream ?k h allow (o_id pw)"
    let ?s1 = "?s0\<lparr>view_streams := ?w # view_streams s\<rparr>"
    have "heads ?w (view_streams s) ?s1"
      using assms by (auto simp: heads_def new_stream_def stream_inv_def list_all_iff)
    then obtain q b where h: "heads (?w\<lparr>vs_prev_pos := q, vs_pinned := b\<rparr>) (view_streams s) (qdwin_view_stream_pin ?k ?s1)"
      using heads_pin [of ?w "view_streams s" ?s1] by (auto simp: new_stream_def)
    show ?thesis
      using free_output_unused [OF that]
      by (intro inv_start_stream [OF assms h]) (simp_all add: new_stream_def live_ok_def)
  qed
  then show ?thesis
    using keep by (auto simp: qdwin_handle_subscribe_view_stream_def qdwin_shell_require_bound_def Let_def
        split: option.split)
qed

lemma inv_forward_exit:
  assumes "stream_inv s"
  shows "stream_inv (qdwin_forward_pidfd_ready k s)"
  unfolding qdwin_forward_pidfd_ready_def
  by (intro inv_terminate stream_inv_upd [OF assms]) (auto simp: live_ok_def)

lemma inv_resource_destroyed:
  assumes "stream_inv s"
  shows "stream_inv (qdwin_stream_resource_destroyed k s)"
  using inv_release [OF assms, of k]
  by (auto simp: qdwin_stream_resource_destroyed_def Let_def stream_inv_def list_all_iff distinct_map_filter)

lemma inv_terminate_all: "stream_inv s \<Longrightarrow> stream_inv (terminate_all reason s)"
  unfolding terminate_all_def by (erule fold_invariant_set) (rule inv_terminate)

lemma inv_terminate_for: "stream_inv s \<Longrightarrow> stream_inv (terminate_for h s)"
  unfolding terminate_for_def by (erule fold_invariant_set) (rule inv_terminate)

lemma inv_confine_end: "stream_inv s \<Longrightarrow> stream_inv (qdwin_stream_confine_grab_end k s)"
  unfolding qdwin_stream_confine_grab_end_def by (rule stream_inv_upd) (auto simp: live_ok_def)

lemma inv_confine_start:
  assumes "stream_inv s"
  shows "stream_inv (qdwin_stream_confine_grab_start k s)"
proof -
  have "stream_inv (upd_stream k (\<lambda>v. v\<lparr>vs_confined := True\<rparr>) s)"
    if "find_stream s k = Some v" and "vs_seat v \<bind> seat_of s \<noteq> None" for v
  proof (rule stream_inv_upd [OF assms])
    fix x assume "x \<in> set (view_streams s)" and "vs_id x = k" and "live_ok x"
    moreover have "v \<in> set (view_streams s)" "vs_id v = k"
      using that(1) by (auto simp: find_stream_def dest: find_Some_mem)
    ultimately have "x = v"
      using assms by (auto simp: stream_inv_def distinct_map inj_on_def)
    then show "live_ok (x\<lparr>vs_confined := True\<rparr>)"
      using \<open>live_ok x\<close> that(2) by (cases "vs_seat v") (auto simp: live_ok_def)
  qed simp_all
  then show ?thesis
    using assms by (auto simp: qdwin_stream_confine_grab_start_def split: option.split)
qed

lemma inv_claim:
  assumes "stream_inv s"
  shows "stream_inv (qdwin_stream_input_handle_claim c rid token s)"
proof -
  let ?s0 = "s\<lparr>next_id := next_id s + 1\<rparr>"
  have 0: "stream_inv ?s0"
    using assms by (rule stream_inv_mono [rotated 3]) simp_all
  have "stream_inv (emit e ?s0)" for e
    using 0 by (rule stream_inv_mono [rotated 3]) simp_all
  moreover have "stream_inv (upd_stream k (\<lambda>v. v\<lparr>vs_claimed := True, vs_input_handle := Some n\<rparr>) ?s0)" for k n
    using 0 by (rule stream_inv_upd) (auto simp: live_ok_def)
  ultimately show ?thesis
    by (auto simp: qdwin_stream_input_handle_claim_def Let_def intro: inv_confine_start split: option.split)
qed

lemma inv_handle_destroyed:
  assumes "stream_inv s"
  shows "stream_inv (qdwin_stream_input_handle_resource_destroyed hr s)"
proof -
  have "stream_inv (upd_stream k (\<lambda>v. v\<lparr>vs_input_handle := None, vs_claimed := False, vs_token := []\<rparr>) s)" for k
    using assms by (rule stream_inv_upd) (auto simp: live_ok_def)
  then show ?thesis
    using assms by (auto simp: qdwin_stream_input_handle_resource_destroyed_def intro: inv_confine_end split: option.split)
qed

lemma assert_focus_streams [simp]:
  "view_streams (qdwin_stream_seat_assert_focus k s) = view_streams s"
  "dead_streams (qdwin_stream_seat_assert_focus k s) = dead_streams s"
  "next_id (qdwin_stream_seat_assert_focus k s) = next_id s"
  by (simp_all add: qdwin_stream_seat_assert_focus_def split: option.split)

lemma inject_streams [simp]:
  "view_streams (qdwin_stream_input_inject_key hr s) = view_streams s"
  "view_streams (qdwin_stream_input_inject_pointer_motion hr s) = view_streams s"
  "view_streams (qdwin_stream_input_inject_pointer_button hr s) = view_streams s"
  "view_streams (qdwin_stream_input_inject_pointer_axis hr s) = view_streams s"
  "dead_streams (qdwin_stream_input_inject_key hr s) = dead_streams s"
  "dead_streams (qdwin_stream_input_inject_pointer_motion hr s) = dead_streams s"
  "dead_streams (qdwin_stream_input_inject_pointer_button hr s) = dead_streams s"
  "dead_streams (qdwin_stream_input_inject_pointer_axis hr s) = dead_streams s"
  "next_id (qdwin_stream_input_inject_key hr s) = next_id s"
  "next_id (qdwin_stream_input_inject_pointer_motion hr s) = next_id s"
  "next_id (qdwin_stream_input_inject_pointer_button hr s) = next_id s"
  "next_id (qdwin_stream_input_inject_pointer_axis hr s) = next_id s"
  by (simp_all add: qdwin_stream_input_inject_key_def qdwin_stream_input_inject_pointer_motion_def
      qdwin_stream_input_inject_pointer_button_def qdwin_stream_input_inject_pointer_axis_def
      split: option.split prod.split)

section \<open>Requests and events\<close>

datatype stream_request =
    Sr_subscribe wl_resource u32 bool "8 word list option" "pid_t option"
  | Sr_destroy nat
  | Sr_forward_exit nat
  | Sr_claim wl_client nat string
  | Sr_handle_destroy nat
  | Sr_key nat
  | Sr_motion nat
  | Sr_button nat
  | Sr_axis nat
  | Sr_lock
  | Sr_window_closed u32

fun stream_step :: "stream_request \<Rightarrow> qdwin \<Rightarrow> qdwin" where
  "stream_step (Sr_subscribe r h allow token spawn) = qdwin_handle_subscribe_view_stream r h allow token spawn"
| "stream_step (Sr_destroy k) = qdwin_stream_resource_destroyed k"
| "stream_step (Sr_forward_exit k) = qdwin_forward_pidfd_ready k"
| "stream_step (Sr_claim c rid token) = qdwin_stream_input_handle_claim c rid token"
| "stream_step (Sr_handle_destroy hr) = qdwin_stream_input_handle_resource_destroyed hr"
| "stream_step (Sr_key hr) = qdwin_stream_input_inject_key hr"
| "stream_step (Sr_motion hr) = qdwin_stream_input_inject_pointer_motion hr"
| "stream_step (Sr_button hr) = qdwin_stream_input_inject_pointer_button hr"
| "stream_step (Sr_axis hr) = qdwin_stream_input_inject_pointer_axis hr"
| "stream_step Sr_lock = terminate_all ''compositor locked''"
| "stream_step (Sr_window_closed h) = terminate_for h"

lemma stream_inv_step: "stream_inv s \<Longrightarrow> stream_inv (stream_step e s)"
  by (cases e)
    (auto simp: inv_subscribe inv_resource_destroyed inv_forward_exit inv_claim inv_handle_destroyed
      inv_terminate_all inv_terminate_for intro: stream_inv_mono [rotated 3])

interpretation streams: event_component stream_step stream_inv
  by unfold_locales (rule stream_inv_step)

text \<open>A token that opens no live stream stays useless until a subscription draws it.\<close>

definition draws :: "string \<Rightarrow> stream_request \<Rightarrow> bool" where
  "draws tok e \<longleftrightarrow> (case e of Sr_subscribe r h allow (Some bs) spawn \<Rightarrow> qdwin_hex_token bs = tok | _ \<Rightarrow> False)"

definition useless :: "string \<Rightarrow> qdwin \<Rightarrow> bool" where
  "useless tok s \<longleftrightarrow> list_all (\<lambda>v. vs_token v = [] \<or> vs_token v \<noteq> tok) (view_streams s)"

lemma useless_by_token: "useless tok s \<Longrightarrow> qdwin_view_stream_by_token s tok = None"
  by (auto simp: useless_def qdwin_view_stream_by_token_def find_None_iff list_all_iff)

lemma useless_upd:
  assumes "useless tok s" and "\<And>v. vs_token (f v) = vs_token v \<or> vs_token (f v) = []"
  shows "useless tok (upd_stream k f s)"
  using assms by (auto simp: useless_def list_all_iff set_upd_where) (metis assms(2))+

lemma useless_cong: "view_streams a = view_streams b \<Longrightarrow> useless tok a = useless tok b"
  by (simp add: useless_def)

lemma useless_subscribe:
  assumes "stream_inv s" and "useless tok s" and "\<not> draws tok (Sr_subscribe r h allow token spawn)"
  shows "useless tok (qdwin_handle_subscribe_view_stream r h allow token spawn s)"
proof -
  let ?k = "next_id s" and ?s0 = "s\<lparr>next_id := next_id s + 1\<rparr>"
  have "useless tok (start_stream ?k token spawn (qdwin_view_stream_pin ?k
      (?s0\<lparr>view_streams := new_stream ?k h allow pw # view_streams s\<rparr>)))" for pw
  proof -
    let ?w = "new_stream ?k h allow pw" and ?s1 = "?s0\<lparr>view_streams := new_stream ?k h allow pw # view_streams s\<rparr>"
    have fresh: "?k \<notin> set (map vs_id (view_streams s))"
      using assms(1) by (auto simp: stream_inv_def list_all_iff)
    then have "heads ?w (view_streams s) ?s1"
      by (auto simp: heads_def new_stream_def)
    then obtain q b where h: "heads (?w\<lparr>vs_prev_pos := q, vs_pinned := b\<rparr>) (view_streams s) (qdwin_view_stream_pin ?k ?s1)"
      using heads_pin [of ?w "view_streams s" ?s1] by (auto simp: new_stream_def)
    show ?thesis
    proof (rule start_stream_cases [OF h refl, of ?k token spawn])
      fix x u
      assume "start_stream ?k token spawn (qdwin_view_stream_pin ?k ?s1) = qdwin_stream_resource_destroyed ?k u"
        and hu: "heads x (view_streams s) u" and "vs_id x = ?k"
      moreover have "[y \<leftarrow> view_streams u. vs_id y \<noteq> ?k] = view_streams s"
        using hu \<open>vs_id x = ?k\<close> fresh by (auto simp: heads_def filter_id_conv image_iff)
      ultimately show ?thesis
        using assms(2) heads_find [OF hu]
        by (simp add: useless_def qdwin_stream_resource_destroyed_def Let_def release_streams)
    next
      fix x bs u
      assume "token = Some bs" and "start_stream ?k token spawn (qdwin_view_stream_pin ?k ?s1) = u"
        and "heads x (view_streams s) u" and "vs_token x = qdwin_hex_token bs"
      then show ?thesis
        using assms(2,3) by (auto simp: useless_def draws_def heads_def)
    qed (simp_all add: new_stream_def live_ok_def)
  qed
  moreover have "useless tok (emit e s)" "useless tok (emit e ?s0)" for e
    using assms(2) by (simp_all add: useless_def)
  ultimately show ?thesis
    by (auto simp: qdwin_handle_subscribe_view_stream_def qdwin_shell_require_bound_def Let_def
        split: option.split)
qed

lemma useless_filter: "useless tok s \<Longrightarrow> view_streams u = filter P (view_streams s) \<Longrightarrow> useless tok u"
  by (auto simp: useless_def list_all_iff)

lemma useless_release: "useless tok s \<Longrightarrow> useless tok (qdwin_view_stream_release_server_state k s)"
  by (cases "find_stream s k") (auto simp: release_absent intro: useless_filter [OF _ release_streams(1)])

lemma useless_terminate: "useless tok s \<Longrightarrow> useless tok (qdwin_view_stream_terminate reason k s)"
  by (rule useless_filter [OF _ terminate_streams(1)])

lemma useless_claim: "useless tok s \<Longrightarrow> useless tok (qdwin_stream_input_handle_claim c rid token s)"
  by (auto simp: qdwin_stream_input_handle_claim_def qdwin_stream_confine_grab_start_def Let_def
      intro!: useless_upd split: option.split) (simp_all add: useless_def)

lemma useless_step:
  assumes "stream_inv s" and "useless tok s" and "\<not> draws tok e"
  shows "useless tok (stream_step e s)"
proof (cases e)
  case (Sr_subscribe r h allow token spawn)
  then show ?thesis using assms useless_subscribe by simp
next
  case (Sr_destroy k)
  then show ?thesis
    using useless_release [OF assms(2), of k] by (simp add: qdwin_stream_resource_destroyed_def Let_def useless_def)
next
  case (Sr_claim c rid token)
  then show ?thesis using useless_claim [OF assms(2)] by simp
next
  case (Sr_handle_destroy hr)
  then show ?thesis
    using assms(2) by (auto simp: qdwin_stream_input_handle_resource_destroyed_def
        qdwin_stream_confine_grab_end_def intro!: useless_upd split: option.split)
next
  case Sr_lock
  then show ?thesis
    using assms(2) by (auto simp: terminate_all_def intro: fold_invariant_set useless_terminate)
next
  case (Sr_window_closed h)
  then show ?thesis
    using assms(2) by (auto simp: terminate_for_def intro: fold_invariant_set useless_terminate)
next
  case (Sr_forward_exit k)
  then show ?thesis
    using assms(2) by (auto simp: qdwin_forward_pidfd_ready_def intro!: useless_terminate useless_upd)
qed (use assms(2) in \<open>simp_all add: useless_def\<close>)

text \<open>Uselessness of a token is a latch, ended only by a subscription that draws it.\<close>

interpretation token: latched_component stream_step stream_inv "useless tok" "\<lambda>s. draws tok"
  for tok
  by unfold_locales (rule useless_step)

lemma no_release_draws: "token.no_release tok es s \<longleftrightarrow> list_all (\<lambda>e. \<not> draws tok e) es"
  by (induction es arbitrary: s) (simp_all)

section \<open>The trace of stream events\<close>

fun torn_event :: "effect \<Rightarrow> nat option" where
  "torn_event (Stream (stream_torn_down k _)) = Some k"
| "torn_event _ = None"

definition torn :: "qdwin \<Rightarrow> nat list" where
  "torn s = List.map_filter torn_event (out s)"

lemma torn_cong: "out a = out b \<Longrightarrow> torn a = torn b"
  by (simp add: torn_def)

lemma torn_emit [simp]:
  "torn (emit e s) = torn s @ (case torn_event e of None \<Rightarrow> [] | Some k \<Rightarrow> [k])"
  by (simp add: torn_def emit_def List.map_filter_def split: option.split)

lemma torn_basic [simp]:
  "torn (send_shell n f s) = torn s" "torn (upd_seat i u s) = torn s" "torn (upd_kbd i w s) = torn s"
  "torn (upd_tracker i v s) = torn s" "torn (upd_stream k g s) = torn s" "torn (weston_view_set_position x q s) = torn s"
  "torn (s\<lparr>seats := ss\<rparr>) = torn s" "torn (s\<lparr>seat_trackers := ts\<rparr>) = torn s"
  "torn (s\<lparr>overlay_grab_active := b\<rparr>) = torn s" "torn (s\<lparr>switcher_grab_active := b\<rparr>) = torn s"
  by (simp_all add: send_shell_def torn_def upd_seat_def upd_kbd_def upd_tracker_def upd_stream_def
      weston_view_set_position_def)
    (simp add: emit_def List.map_filter_def)

lemma torn_focus [simp]:
  "torn (qdwin_emit_seat_focus_changed i h s) = torn s"
  "torn (qdwin_seat_emit_focus_now i s) = torn s"
  "torn (qdwin_on_keyboard_focus_changed i s) = torn s"
  by (simp_all add: qdwin_emit_seat_focus_changed_def qdwin_seat_emit_focus_now_def
      qdwin_on_keyboard_focus_changed_def Let_def split: option.split)

lemma torn_seat_release [simp]:
  "torn (qdwin_on_seat_updated_caps i s) = torn s"
  "torn (weston_seat_release_keyboard i s) = torn s"
  "torn (pointer_down i s) = torn s"
  "torn (weston_seat_release i s) = torn s"
proof -
  have "torn (qdwin_install_focus_listener_if_needed i s) = torn s" for s
    by (simp add: qdwin_install_focus_listener_if_needed_def split: option.split)
  then show caps: "torn (qdwin_on_seat_updated_caps i s) = torn s" for s
    by (simp add: qdwin_on_seat_updated_caps_def qdwin_seat_tracker_rebind_focus_listener_def Let_def
        split: option.split)
  have "torn (fold (\<lambda>tr. qdwin_on_keyboard_focus_changed (tr_seat tr)) xs u) = torn u"
    for xs :: "seat_tracker list" and u
    by (rule fold_keeps) simp
  then show "torn (weston_seat_release_keyboard i s) = torn s"
    by (simp add: weston_seat_release_keyboard_def Let_def caps cancel_grab_def qdwin_overlay_grab_cancel_def
        qdwin_switcher_grab_cancel_def split: option.split kbd_grab.split)
  show "torn (pointer_down i s) = torn s"
    by (simp add: pointer_down_def caps)
  show "torn (weston_seat_release i s) = torn s"
    by (simp add: weston_seat_release_def qdwin_seat_tracker_destroy_def Let_def split: option.split)
qed

lemma torn_position_chrome [simp]: "torn (qdwin_toplevel_position_chrome k s) = torn s"
  by (rule position_chrome_keeps) simp

lemma torn_release [simp]: "torn (qdwin_view_stream_release_server_state k s) = torn s"
proof -
  have "torn (qdwin_stream_seat_release k u) = torn u" for u
    by (simp add: qdwin_stream_seat_release_def qdwin_stream_confine_grab_end_def split: option.split)
  moreover have "torn (qdwin_view_stream_unpin k u) = torn u" for u
    by (simp add: qdwin_view_stream_unpin_def Let_def split: option.split)
  moreover have "torn (qdwin_view_stream_reap_forward k u) = torn u" for u
    by (simp add: qdwin_view_stream_reap_forward_def split: option.split)
  moreover have "torn (u\<lparr>view_streams := a, dead_streams := b\<rparr>) = torn u" for u a b
    by (simp add: torn_def)
  ultimately show ?thesis
    by (simp add: qdwin_view_stream_release_server_state_def Let_def split: option.split)
qed

lemma torn_terminate:
  assumes "find_stream s k = Some v" and "\<not> vs_torn_down v"
  shows "torn (qdwin_view_stream_terminate reason k s) = torn s @ [k]"
  using assms by (simp add: qdwin_view_stream_terminate_def)

lemma terminate_list:
  assumes "distinct (map vs_id (view_streams s))" and "list_all live_ok (view_streams s)"
    and "distinct ks" and "set ks \<subseteq> set (map vs_id (view_streams s))"
  shows "view_streams (fold (qdwin_view_stream_terminate reason) ks s) = [v \<leftarrow> view_streams s. vs_id v \<notin> set ks] \<and>
         torn (fold (qdwin_view_stream_terminate reason) ks s) = torn s @ ks"
  using assms
proof (induction ks arbitrary: s)
  case (Cons k ks)
  let ?u = "qdwin_view_stream_terminate reason k s"
  obtain v where v: "find_stream s k = Some v"
    using Cons.prems(4) by (cases "find_stream s k") (auto simp: find_stream_def find_None_iff)
  then have "\<not> vs_torn_down v"
    using Cons.prems(2) by (auto simp: find_stream_def list_all_iff live_ok_def dest: find_Some_mem)
  moreover have "view_streams ?u = [x \<leftarrow> view_streams s. vs_id x \<noteq> k]"
    by (rule terminate_streams)
  moreover have "set ks \<subseteq> set (map vs_id [x \<leftarrow> view_streams s. vs_id x \<noteq> k])"
    using Cons.prems(3,4) by (fastforce simp: image_iff subset_iff)
  ultimately show ?case
    using Cons.IH [of ?u] Cons.prems v
    by (auto simp: torn_terminate distinct_map_filter list_all_iff intro: filter_cong)
qed simp

lemma terminate_all_streams:
  assumes "stream_inv s"
  shows "view_streams (terminate_all reason s) = [] \<and>
         torn (terminate_all reason s) = torn s @ map vs_id (view_streams s)"
  using terminate_list [of s "map vs_id (view_streams s)" reason] assms
  by (auto simp: terminate_all_def stream_inv_def)

section \<open>Properties\<close>

text \<open>C6: along every sequence of requests and events no two live streams share an output, every
  stream that was terminated is inert (no token, no input handle, no seat, no window, no
  output, no forwarder), and no live stream was told that it ended.\<close>

theorem streams_invariant:
  assumes "stream_inv s"
  shows "stream_inv (fold stream_step es s)"
  using assms by (rule streams.run_inv)

definition demo_pw :: qdwin where
  "demo_pw = demo_bound\<lparr>outputs := outputs demo_bound @ [demo_output\<lparr>o_id := 7, o_name := ''pipewire-0''\<rparr>]\<rparr>"

theorem streams_invariant_witness:
  "stream_inv demo_pw \<and>
   stream_inv (fold stream_step [Sr_subscribe demo_shell 1 True (Some [1, 255]) (Some 77),
     Sr_claim \<lparr>cl_id = 5, cl_pid = 77, cl_uid = 1000\<rparr> 6 ''01ff'', Sr_lock, Sr_destroy 20] demo_pw)"
proof -
  have "stream_inv demo_pw"
    by (simp add: stream_inv_def demo_pw_def demo_bound_def demo_state_def wet_shell_init_def)
  then show ?thesis
    using streams_invariant by blast
qed

text \<open>C13: the token of a stream is one-shot. Once the handle that was claimed with it is released, no
  later claim with the same token succeeds, whoever makes it and whatever happened in
  between, as long as no new subscription draws the same token.\<close>

theorem token_one_shot:
  assumes "stream_inv s" and "find_handle s hr = Some v" and "vs_token v = tok"
    and "list_all (\<lambda>x. x = v \<or> vs_token x \<noteq> tok) (view_streams s)"
    and "list_all (\<lambda>e. \<not> draws tok e) es"
  shows "qdwin_view_stream_by_token (fold stream_step (Sr_handle_destroy hr # es) s) tok = None"
proof -
  let ?s1 = "stream_step (Sr_handle_destroy hr) s"
  have "view_streams ?s1 = upd_where (\<lambda>x. vs_id x = vs_id v)
      (\<lambda>v. v\<lparr>vs_input_handle := None, vs_claimed := False, vs_token := [], vs_confined := False\<rparr>) (view_streams s)"
    by (auto simp: qdwin_stream_input_handle_resource_destroyed_def assms(2) qdwin_stream_confine_grab_end_def
        upd_where_def)
  then have "useless tok ?s1"
    using assms(4) by (auto simp: useless_def list_all_iff set_upd_where)
  then have "useless tok (fold stream_step es ?s1)"
    using assms(1,5) by (intro token.run_latch) (simp_all only: stream_inv_step no_release_draws)
  then show ?thesis
    by (simp add: useless_by_token)
qed

definition demo_claimed :: qdwin where
  "demo_claimed = demo_pw\<lparr>view_streams := [(new_stream 21 1 True 7)\<lparr>vs_token := ''0a1b'', vs_claimed := True,
     vs_input_handle := Some 22, vs_forward_pid := 77, vs_pidfd := True, vs_seat := Some 23\<rparr>], next_id := 30\<rparr>"

theorem token_one_shot_witness:
  "qdwin_view_stream_by_token (fold stream_step (Sr_handle_destroy 22 #
     [Sr_claim \<lparr>cl_id = 5, cl_pid = 77, cl_uid = 1000\<rparr> 6 ''0a1b'', Sr_forward_exit 21]) demo_claimed) ''0a1b'' = None"
  by (rule token_one_shot)
    (simp_all add: stream_inv_def live_ok_def demo_claimed_def demo_pw_def demo_bound_def demo_state_def
      wet_shell_init_def new_stream_def find_handle_def draws_def)

text \<open>C14: only the forwarder the compositor itself started can open the input channel of a stream, and
  only with the stream's token while nobody holds the channel.\<close>

theorem claim_needs_forwarder:
  assumes "find_handle (qdwin_stream_input_handle_claim c rid tok s) hr = Some w" and "find_handle s hr = None"
  shows "\<exists>v \<in> set (view_streams s). vs_id v = vs_id w \<and> tok \<noteq> [] \<and> vs_token v = tok \<and> \<not> vs_claimed v \<and>
           0 < vs_forward_pid v \<and> cl_pid c = vs_forward_pid v"
proof -
  let ?s0 = "s\<lparr>next_id := next_id s + 1\<rparr>" and ?f = "\<lambda>v. v\<lparr>vs_claimed := True, vs_input_handle := Some (next_id s)\<rparr>"
  have e: "find_handle (emit x ?s0) hr = None" for x
    using assms(2) by (simp add: find_handle_def)
  then obtain v where v: "qdwin_view_stream_by_token ?s0 tok = Some v" "\<not> vs_claimed v"
      "0 < vs_forward_pid v" "cl_pid c = vs_forward_pid v"
      and w: "find_handle (qdwin_stream_confine_grab_start (vs_id v) (upd_stream (vs_id v) ?f ?s0)) hr = Some w"
    using assms(1) by (auto simp: qdwin_stream_input_handle_claim_def Let_def split: option.splits if_splits)
  have vm: "v \<in> set (view_streams s)" "tok \<noteq> []" "vs_token v = tok"
    using v(1) by (auto simp: qdwin_view_stream_by_token_def dest: find_Some_mem split: if_splits)
  have "w \<in> set (view_streams (qdwin_stream_confine_grab_start (vs_id v) (upd_stream (vs_id v) ?f ?s0)))"
    and wh: "vs_input_handle w = Some hr"
    using w by (auto simp: find_handle_def dest: find_Some_mem)
  then obtain x where x: "x \<in> set (view_streams s)" "vs_id w = vs_id x"
      "vs_id x = vs_id v \<or> vs_input_handle x = Some hr"
    by (auto simp: qdwin_stream_confine_grab_start_def set_upd_where split: option.splits if_splits)
  then have "vs_id x = vs_id v"
    using assms(2) by (auto simp: find_handle_def find_None_iff)
  then show ?thesis
    using v vm x(2) by auto
qed

theorem claim_needs_forwarder_witness:
  "\<exists>v \<in> set (view_streams (demo_claimed\<lparr>view_streams := [(new_stream 21 1 True 7)\<lparr>vs_token := ''0a1b'',
       vs_forward_pid := 77\<rparr>]\<rparr>)). vs_id v = 21 \<and> ''0a1b'' \<noteq> [] \<and> vs_token v = ''0a1b'' \<and> \<not> vs_claimed v \<and>
       0 < vs_forward_pid v \<and> cl_pid \<lparr>cl_id = 5, cl_pid = 77, cl_uid = 1000\<rparr> = vs_forward_pid v"
  using claim_needs_forwarder [of "\<lparr>cl_id = 5, cl_pid = 77, cl_uid = 1000\<rparr>" 6 "''0a1b''"
      "demo_claimed\<lparr>view_streams := [(new_stream 21 1 True 7)\<lparr>vs_token := ''0a1b'', vs_forward_pid := 77\<rparr>]\<rparr>" 30
      "(new_stream 21 1 True 7)\<lparr>vs_token := ''0a1b'', vs_forward_pid := 77, vs_claimed := True, vs_input_handle := Some 30\<rparr>"]
  by (simp add: demo_claimed_def demo_pw_def demo_bound_def demo_state_def wet_shell_init_def new_stream_def
      find_handle_def qdwin_stream_input_handle_claim_def qdwin_view_stream_by_token_def find_stream_def
      qdwin_stream_confine_grab_start_def upd_stream_def)

end
