(* ===== verification/Identity.thy ===== *)
theory Identity
  imports Wm_State "HOL-Library.Sublist"
begin

text \<open>What the compositor reads about the process behind a connection: the start time, the
  executable, the first argument and the security label from \<^verbatim>\<open>/proc\<close>, and the checks of the
  locker's entry point (\<^verbatim>\<open>qdwin_proc_*\<close>, \<^verbatim>\<open>qdwin_exe_is_system_interpreter\<close>,
  \<^verbatim>\<open>qdwin_path_is_trusted_entrypoint\<close>). The contents of the files are inputs: a \<open>process\<close> is what
  the reads of one moment return, \<open>None\<close> for a read that fails, and a \<open>filesystem\<close> answers
  \<^verbatim>\<open>realpath\<close> and \<^verbatim>\<open>stat\<close>. Allocation failures are not modelled.\<close>

record process =
  pr_esrch :: bool
  pr_stat :: "string option"
  pr_exe_link :: "string option"
  pr_cmdline :: "string option"
  pr_attr :: "string option"

record file_stat =
  st_regular :: bool
  st_uid :: u32
  st_mode :: u32

record filesystem =
  fs_realpath :: "string \<Rightarrow> string option"
  fs_stat :: "string \<Rightarrow> file_stat option"

text \<open>A C string ends at its first NUL.\<close>

definition c_str :: "string \<Rightarrow> string" where
  "c_str s = takeWhile (\<lambda>c. c \<noteq> CHR 0x00) s"

section \<open>The start time\<close>

definition is_blank :: "char \<Rightarrow> bool" where
  "is_blank c \<longleftrightarrow> c = CHR '' '' \<or> c = CHR 0x09"

definition is_digit :: "char \<Rightarrow> bool" where
  "is_digit c \<longleftrightarrow> (48 :: nat) \<le> of_char c \<and> of_char c \<le> (57 :: nat)"

text \<open>The text after the last closing parenthesis.\<close>

definition after_comm :: "string \<Rightarrow> string option" where
  "after_comm s = (if CHR '')'' \<in> set s then Some (rev (takeWhile (\<lambda>c. c \<noteq> CHR '')'') (rev s))) else None)"

text \<open>The field loop: \<open>n\<close> more fields to start, the position \<open>p\<close>.\<close>

fun seek_field :: "nat \<Rightarrow> string \<Rightarrow> string option" where
  "seek_field 0 p = Some p"
| "seek_field (Suc n) p =
     (let q = dropWhile is_blank p
      in if q = [] then None
         else if n = 0 then Some q
         else seek_field n (dropWhile (\<lambda>c. \<not> is_blank c) q))"

definition add_digit :: "u64 \<Rightarrow> char \<Rightarrow> u64" where
  "add_digit v c = v * 10 + of_nat (of_char c - 48)"

definition parse_decimal :: "string \<Rightarrow> u64" where
  "parse_decimal p = foldl add_digit 0 (takeWhile is_digit p)"

definition qdwin_proc_starttime :: "pid_t \<Rightarrow> process \<Rightarrow> u64" where
  "qdwin_proc_starttime pid pr =
     (if pid \<le> 0 then 0
      else case pr_stat pr of
             None \<Rightarrow> 0
           | Some text \<Rightarrow>
               (case after_comm (c_str (take 2047 text)) of
                  None \<Rightarrow> 0
                | Some p \<Rightarrow> (case seek_field 20 p of None \<Rightarrow> 0 | Some q \<Rightarrow> parse_decimal q)))"

section \<open>Executable, argument and label\<close>

definition PATH_MAX :: nat where "PATH_MAX = 4096"

definition qdwin_proc_exe :: "pid_t \<Rightarrow> process \<Rightarrow> string" where
  "qdwin_proc_exe pid pr =
     (if pid \<le> 0 then []
      else case pr_exe_link pr of
             None \<Rightarrow> []
           | Some link \<Rightarrow> if PATH_MAX - 1 \<le> length link then [] else c_str link)"

definition is_label_space :: "char \<Rightarrow> bool" where
  "is_label_space c \<longleftrightarrow> c = CHR 0x0A \<or> c = CHR 0x00 \<or> c = CHR '' '' \<or> c = CHR 0x0D"

definition qdwin_proc_selinux_label :: "pid_t \<Rightarrow> process \<Rightarrow> string" where
  "qdwin_proc_selinux_label pid pr =
     (if pid \<le> 0 then []
      else case pr_attr pr of
             None \<Rightarrow> []
           | Some text \<Rightarrow>
               if 511 \<le> length text then []
               else c_str (rev (dropWhile is_label_space (rev text))))"

definition qdwin_proc_argv1 :: "pid_t \<Rightarrow> process \<Rightarrow> string" where
  "qdwin_proc_argv1 pid pr =
     (if pid \<le> 0 then []
      else case pr_cmdline pr of
             None \<Rightarrow> []
           | Some text \<Rightarrow>
               (let buf = take (2 * PATH_MAX - 1) text;
                    a0 = length (c_str buf);
                    rest = drop (a0 + 1) buf
                in if length buf \<le> a0 then []
                   else if length rest \<le> length (c_str rest) then []
                   else c_str rest))"

section \<open>The locker's entry point\<close>

definition trusted_bindirs :: "string list" where
  "trusted_bindirs = [''/usr/bin/'', ''/bin/'', ''/usr/local/bin/'']"

definition qdwin_exe_is_system_interpreter :: "string \<Rightarrow> bool" where
  "qdwin_exe_is_system_interpreter exe =
     (case find (\<lambda>d. take (length d) exe = d) trusted_bindirs of
        None \<Rightarrow> False
      | Some d \<Rightarrow>
          (let base = drop (length d) exe
           in base \<noteq> [] \<and> CHR ''/'' \<notin> set base \<and> take 6 base = ''python''))"

text \<open>The non-empty elements of a colon-separated list, as \<^verbatim>\<open>strtok_r\<close> yields them.\<close>

fun split_colon :: "string \<Rightarrow> string list" where
  "split_colon [] = [[]]"
| "split_colon (c # cs) =
     (if c = CHR '':'' then [] # split_colon cs
      else case split_colon cs of [] \<Rightarrow> [[c]] | t # ts \<Rightarrow> (c # t) # ts)"

definition colon_tokens :: "string \<Rightarrow> string list" where
  "colon_tokens s = [t \<leftarrow> split_colon s. t \<noteq> []]"

text \<open>The permission bits for writing by the group and by others.\<close>

definition S_IWGRP_IWOTH :: u32 where "S_IWGRP_IWOTH = 18"

definition root_owned :: "filesystem \<Rightarrow> string \<Rightarrow> bool" where
  "root_owned fs path =
     (case fs_stat fs path of
        None \<Rightarrow> False
      | Some st \<Rightarrow> st_regular st \<and> st_uid st = 0 \<and> st_mode st AND S_IWGRP_IWOTH = 0)"

definition qdwin_path_is_trusted_entrypoint :: "filesystem \<Rightarrow> string \<Rightarrow> string \<Rightarrow> bool" where
  "qdwin_path_is_trusted_entrypoint fs cand expected =
     (if cand = [] \<or> expected = [] then False
      else case fs_realpath fs cand of
             None \<Rightarrow> False
           | Some rc \<Rightarrow>
               if 2 * PATH_MAX \<le> length expected then False
               else (case find (\<lambda>t. fs_realpath fs t = Some rc) (colon_tokens expected) of
                       None \<Rightarrow> False
                     | Some _ \<Rightarrow> root_owned fs rc))"

section \<open>Reading a well-formed entry\<close>

lemma c_str_id: "CHR 0x00 \<notin> set s \<Longrightarrow> c_str s = s"
  by (auto simp: c_str_def takeWhile_eq_all_conv)

lemma c_str_append: "CHR 0x00 \<notin> set s \<Longrightarrow> c_str (s @ CHR 0x00 # t) = s"
  unfolding c_str_def by (subst takeWhile_append2) auto

lemma after_comm_append: "CHR '')'' \<notin> set t \<Longrightarrow> after_comm (s @ CHR '')'' # t) = Some t"
  unfolding after_comm_def by (simp, subst takeWhile_append2) auto

definition fields_text :: "string list \<Rightarrow> string" where
  "fields_text fs = concat (map (\<lambda>f. CHR '' '' # f) fs)"

definition field_ok :: "string \<Rightarrow> bool" where
  "field_ok f \<longleftrightarrow> f \<noteq> [] \<and> list_all (\<lambda>c. \<not> is_blank c) f"

lemma drop_field:
  assumes "field_ok f"
  shows "dropWhile is_blank (CHR '' '' # f @ t) = f @ t"
  using assms by (cases f) (auto simp: field_ok_def is_blank_def)

lemma skip_field:
  assumes "list_all (\<lambda>c. \<not> is_blank c) f" and "t = [] \<or> is_blank (hd t)"
  shows "dropWhile (\<lambda>c. \<not> is_blank c) (f @ t) = t"
  using assms by (induction f) (auto simp: dropWhile_eq_self_iff)

lemma fields_text_head: "fields_text fs = [] \<or> is_blank (hd (fields_text fs))"
  by (cases fs) (auto simp: fields_text_def is_blank_def)

lemma seek_first_field:
  assumes "field_ok f"
  shows "dropWhile is_blank (fields_text (f # gs)) = f @ fields_text gs"
    and "dropWhile (\<lambda>c. \<not> is_blank c) (f @ fields_text gs) = fields_text gs"
proof -
  show "dropWhile is_blank (fields_text (f # gs)) = f @ fields_text gs"
    using drop_field [OF assms] by (simp add: fields_text_def)
  show "dropWhile (\<lambda>c. \<not> is_blank c) (f @ fields_text gs) = fields_text gs"
    using assms fields_text_head by (intro skip_field) (simp_all add: field_ok_def)
qed

lemma seek_field_text:
  assumes "list_all field_ok fs" and "n < length fs"
  shows "seek_field (Suc n) (fields_text fs) = Some (fs ! n @ fields_text (drop (Suc n) fs))"
  using assms
proof (induction n arbitrary: fs)
  case 0
  then obtain f gs where "fs = f # gs" "field_ok f" by (cases fs) auto
  then show ?case
    by (simp add: Let_def seek_first_field) (simp add: field_ok_def)
next
  case (Suc n)
  then obtain f gs where fs: "fs = f # gs" "field_ok f" by (cases fs) auto
  then have "seek_field (Suc (Suc n)) (fields_text fs) = seek_field (Suc n) (fields_text gs)"
    by (subst seek_field.simps) (simp add: Let_def seek_first_field field_ok_def del: seek_field.simps)
  then show ?case
    using Suc fs by (simp del: seek_field.simps)
qed

text \<open>The value of a numeral, without the width of the counter.\<close>

definition numeral_value :: "string \<Rightarrow> nat" where
  "numeral_value s = foldl (\<lambda>v c. v * 10 + (of_char c - 48)) 0 s"

lemma foldl_add_digit:
  "foldl add_digit (of_nat v) s = of_nat (foldl (\<lambda>v c. v * 10 + (of_char c - 48)) v s)"
proof (induction s arbitrary: v)
  case (Cons c s)
  have "add_digit (of_nat v) c = of_nat (v * 10 + (of_char c - 48))"
    by (simp add: add_digit_def)
  then show ?case
    using Cons.IH [of "v * 10 + (of_char c - 48)"] by simp
qed simp

lemma parse_decimal_append:
  assumes "list_all is_digit s" and "t = [] \<or> \<not> is_digit (hd t)"
  shows "parse_decimal (s @ t) = of_nat (numeral_value s)"
proof -
  have "takeWhile is_digit (s @ t) = s"
    using assms by (induction s) (auto simp: takeWhile_eq_Nil_iff)
  then show ?thesis
    using foldl_add_digit [of 0 s] by (simp add: parse_decimal_def numeral_value_def)
qed

section \<open>Properties\<close>

text \<open>C16: the start time of a process is read off its status line whatever the process calls itself:
  for every command name, also one with spaces and parentheses, the result is the 20th field
  after the name, reduced to the width of the counter.\<close>

theorem starttime_ignores_comm:
  assumes "0 < pid" and "list_all field_ok fs" and "20 \<le> length fs" and "list_all is_digit (fs ! 19)"
    and "CHR '')'' \<notin> set (fields_text fs)" and "CHR 0x00 \<notin> set (pfx @ comm @ fields_text fs)"
    and "length (pfx @ comm @ fields_text fs) < 2045"
  shows "qdwin_proc_starttime pid (pr\<lparr>pr_stat := Some (pfx @ ''('' @ comm @ '')'' @ fields_text fs)\<rparr>)
       = of_nat (numeral_value (fs ! 19))"
proof -
  let ?text = "pfx @ ''('' @ comm @ '')'' @ fields_text fs"
  have "c_str (take 2047 ?text) = ?text"
    using assms(6,7) by (simp add: c_str_id)
  moreover have "after_comm ?text = Some (fields_text fs)"
    using after_comm_append [OF assms(5), of "pfx @ ''('' @ comm"] by simp
  moreover have "seek_field 20 (fields_text fs) = Some (fs ! 19 @ fields_text (drop 20 fs))"
    using seek_field_text [OF assms(2), of 19] assms(3) by (simp del: seek_field.simps)
  moreover have "fields_text gs = [] \<or> \<not> is_digit (hd (fields_text gs))" for gs
    by (cases gs) (simp_all add: fields_text_def is_digit_def)
  then have "parse_decimal (fs ! 19 @ fields_text (drop 20 fs)) = of_nat (numeral_value (fs ! 19))"
    using assms(4) by (intro parse_decimal_append)
  ultimately show ?thesis
    using assms(1) by (simp add: qdwin_proc_starttime_def del: seek_field.simps)
qed

definition demo_fields :: "string list" where
  "demo_fields = replicate 19 ''0'' @ [''4711'', ''8'']"

definition demo_process :: process where
  "demo_process = \<lparr>pr_esrch = False, pr_stat = None, pr_exe_link = Some ''/usr/bin/python3.12'',
     pr_cmdline = None, pr_attr = None\<rparr>"

theorem starttime_ignores_comm_witness:
  "qdwin_proc_starttime 42 (demo_process\<lparr>pr_stat := Some (''42 '' @ ''('' @ '') S 1 ('' @ '')'' @ fields_text demo_fields)\<rparr>)
     = of_nat (numeral_value (demo_fields ! 19))"
  by (rule starttime_ignores_comm)
    (simp_all add: demo_fields_def field_ok_def is_blank_def is_digit_def fields_text_def eval_nat_numeral)

text \<open>The first argument of a process comes back as it stands in its command line, and a command
  line that was cut off inside that argument gives no argument at all.\<close>

theorem argv1_complete_or_absent:
  assumes "0 < pid" and "CHR 0x00 \<notin> set a0" and "CHR 0x00 \<notin> set a1" and "length a0 + 1 < 2 * PATH_MAX - 1"
  shows "qdwin_proc_argv1 pid (pr\<lparr>pr_cmdline := Some (a0 @ CHR 0x00 # a1 @ CHR 0x00 # rest)\<rparr>)
       = (if length a0 + length a1 + 2 < 2 * PATH_MAX then a1 else [])"
proof -
  let ?n = "2 * PATH_MAX - 1 - (length a0 + 1)"
  let ?tail = "take ?n (a1 @ CHR 0x00 # rest)"
  have buf: "take (2 * PATH_MAX - 1) (a0 @ CHR 0x00 # a1 @ CHR 0x00 # rest) = a0 @ CHR 0x00 # ?tail"
    using assms(4) by (cases "2 * PATH_MAX - 1 - length a0") (simp_all add: diff_Suc)
  have a0: "c_str (a0 @ CHR 0x00 # ?tail) = a0"
    using assms(2) by (rule c_str_append)
  have unf: "qdwin_proc_argv1 pid (pr\<lparr>pr_cmdline := Some x\<rparr>) =
      (let buf = take (2 * PATH_MAX - 1) x; a0 = length (c_str buf); rest = drop (a0 + 1) buf
       in if length buf \<le> a0 then [] else if length rest \<le> length (c_str rest) then [] else c_str rest)" for x
    using assms(1) by (simp add: qdwin_proc_argv1_def)
  have eq: "qdwin_proc_argv1 pid (pr\<lparr>pr_cmdline := Some (a0 @ CHR 0x00 # a1 @ CHR 0x00 # rest)\<rparr>)
      = (if length ?tail \<le> length (c_str ?tail) then [] else c_str ?tail)"
    unfolding unf buf a0 Let_def by simp
  show ?thesis
  proof (cases "length a1 < ?n")
    case True
    then have t: "?tail = a1 @ CHR 0x00 # take (?n - length a1 - 1) rest"
      by (cases "?n - length a1") simp_all
    show ?thesis
      unfolding eq t c_str_append [OF assms(3)] using True by simp
  next
    case False
    then have t: "?tail = take ?n a1"
      by simp
    have "CHR 0x00 \<notin> set (take ?n a1)"
      using assms(3) by (meson in_set_takeD)
    then have "c_str (take ?n a1) = take ?n a1"
      by (rule c_str_id)
    moreover have "\<not> length a0 + length a1 + 2 < 2 * PATH_MAX"
      using False by arith
    ultimately show ?thesis
      unfolding eq t by simp
  qed
qed

theorem argv1_complete_or_absent_witness:
  "qdwin_proc_argv1 42 (demo_process\<lparr>pr_cmdline := Some (''python3'' @ CHR 0x00 # ''/usr/bin/qdlocker'' @ CHR 0x00 # '''')\<rparr>)
     = (if length ''python3'' + length ''/usr/bin/qdlocker'' + 2 < 2 * PATH_MAX then ''/usr/bin/qdlocker'' else [])"
  by (rule argv1_complete_or_absent) (simp_all add: PATH_MAX_def)

lemma take_prefix_iff: "take (length d) x = d \<longleftrightarrow> prefix d x"
  by (metis append_eq_conv_conj prefix_def)

lemma find_unique:
  assumes "\<And>d e. d \<in> set xs \<Longrightarrow> e \<in> set xs \<Longrightarrow> P d \<Longrightarrow> P e \<Longrightarrow> d = e"
  shows "(case find P xs of None \<Rightarrow> False | Some d \<Rightarrow> Q d) \<longleftrightarrow> list_ex (\<lambda>d. P d \<and> Q d) xs"
proof (cases "find P xs")
  case None
  then have "\<forall>x \<in> set xs. \<not> P x" by (simp add: find_None_iff)
  then show ?thesis by (simp add: None list_ex_iff)
next
  case (Some d)
  then have "d \<in> set xs" "P d" by (auto dest: find_Some_mem)
  then have "e = d" if "e \<in> set xs" "P e" for e
    using assms that by blast
  then show ?thesis
    unfolding Some list_ex_iff option.case using \<open>d \<in> set xs\<close> \<open>P d\<close> by blast
qed

lemma trusted_bindirs_apart:
  "d \<in> set trusted_bindirs \<Longrightarrow> e \<in> set trusted_bindirs \<Longrightarrow> prefix d e \<Longrightarrow> d = e"
  by (auto simp: trusted_bindirs_def)

text \<open>The interpreter test accepts exactly the files whose name begins with python directly in
  one of the three system directories.\<close>

theorem system_interpreter_iff:
  "qdwin_exe_is_system_interpreter exe \<longleftrightarrow>
     list_ex (\<lambda>d. prefix d exe \<and> prefix ''python'' (drop (length d) exe) \<and> CHR ''/'' \<notin> set (drop (length d) exe))
       trusted_bindirs"
proof -
  have py: "take 6 x = ''python'' \<longleftrightarrow> prefix ''python'' x" for x :: string
    using take_prefix_iff [of "''python''" x] by (simp add: eval_nat_numeral)
  have "d = e" if "d \<in> set trusted_bindirs" "e \<in> set trusted_bindirs" "prefix d exe" "prefix e exe" for d e
    using that trusted_bindirs_apart prefix_same_cases by metis
  then show ?thesis
    unfolding qdwin_exe_is_system_interpreter_def take_prefix_iff Let_def py
    by (subst find_unique) (auto simp: list_ex_iff)
qed

text \<open>C15: a path is taken for the locker's entry point only if it resolves to the same file as one
  of the configured paths and that file is a regular one that root owns and nobody else may
  write.\<close>

theorem trusted_entrypoint_sound:
  assumes "qdwin_path_is_trusted_entrypoint fs cand expected"
  shows "\<exists>rc st. fs_realpath fs cand = Some rc \<and> rc \<in> set (List.map_filter (fs_realpath fs) (colon_tokens expected)) \<and>
     fs_stat fs rc = Some st \<and> st_regular st \<and> st_uid st = 0 \<and> \<not> bit (st_mode st) 1 \<and> \<not> bit (st_mode st) 4"
proof -
  obtain rc t where rc: "fs_realpath fs cand = Some rc" "root_owned fs rc"
      and t: "find (\<lambda>t. fs_realpath fs t = Some rc) (colon_tokens expected) = Some t"
    using assms by (auto simp: qdwin_path_is_trusted_entrypoint_def split: option.splits if_splits)
  have "rc \<in> set (List.map_filter (fs_realpath fs) (colon_tokens expected))"
    using find_Some_mem [OF t] by (force simp: List.map_filter_def)
  moreover have "\<not> bit w 1 \<and> \<not> bit w 4" if "w AND S_IWGRP_IWOTH = 0" for w :: u32
  proof -
    have "bit S_IWGRP_IWOTH 1" "bit S_IWGRP_IWOTH 4"
      by (simp_all add: S_IWGRP_IWOTH_def bit_simps numeral_eq_Suc)
    then show ?thesis
      using that bit_and_iff [of w S_IWGRP_IWOTH] by (metis bit_0_eq bot_apply bot_bool_def)
  qed
  ultimately show ?thesis
    using rc by (auto simp: root_owned_def split: option.splits)
qed

definition demo_fs :: filesystem where
  "demo_fs = \<lparr>fs_realpath = (\<lambda>p. if p = ''/bin/qdlocker'' then Some ''/usr/bin/qdlocker'' else Some p),
     fs_stat = (\<lambda>p. if p = ''/usr/bin/qdlocker'' then Some \<lparr>st_regular = True, st_uid = 0, st_mode = 493\<rparr> else None)\<rparr>"

theorem trusted_entrypoint_sound_witness:
  "\<exists>rc st. fs_realpath demo_fs ''/bin/qdlocker'' = Some rc \<and>
     rc \<in> set (List.map_filter (fs_realpath demo_fs) (colon_tokens ''/opt/x:/usr/bin/qdlocker'')) \<and>
     fs_stat demo_fs rc = Some st \<and> st_regular st \<and> st_uid st = 0 \<and> \<not> bit (st_mode st) 1 \<and> \<not> bit (st_mode st) 4"
  by (rule trusted_entrypoint_sound)
    (simp add: qdwin_path_is_trusted_entrypoint_def demo_fs_def colon_tokens_def PATH_MAX_def root_owned_def
      S_IWGRP_IWOTH_def)

end
