(* ===== verification/Lock.thy ===== *)
theory Lock
  imports Streams Identity
begin

text \<open>The session lock: the lock layer with its curtain and its surface, the locker's own windows,
  the requests of the shell and of the locker that lock and unlock, what happens when the
  locker, its window or its surface goes away, and the launcher overlay that competes for the
  keyboard grab. The lookups in \<^verbatim>\<open>/proc\<close> are inputs of the requests that make them. A repaint
  is not part of the state; views that could not be allocated are not modelled.\<close>

section \<open>The curtain\<close>

definition lock_curtain_view :: "qdwin \<Rightarrow> view option" where
  "lock_curtain_view s = map_option fst (lock_curtain s)"

definition qdwin_lock_curtain_to_bottom :: "qdwin \<Rightarrow> qdwin" where
  "qdwin_lock_curtain_to_bottom s =
     (case lock_curtain_view s of
        None \<Rightarrow> s
      | Some v \<Rightarrow>
          (let s1 = (if v \<in> set (layer_views s Lock_layer) then s else weston_view_move_to_layer v Lock_layer s)
           in s1\<lparr>layer_views := (layer_views s1)(Lock_layer := removeAll v (layer_views s1 Lock_layer) @ [v])\<rparr>))"

definition qdwin_remove_lock_curtain :: "qdwin \<Rightarrow> qdwin" where
  "qdwin_remove_lock_curtain s =
     (case lock_curtain_view s of
        None \<Rightarrow> s
      | Some v \<Rightarrow> (weston_view_destroy v s)\<lparr>lock_curtain := None\<rparr>)"

text \<open>The loop over the outputs: the box that spans those that are not going away.\<close>

fun span_outputs :: "weston_output list \<Rightarrow> (int \<times> int \<times> int \<times> int) option \<Rightarrow> (int \<times> int \<times> int \<times> int) option" where
  "span_outputs [] b = b"
| "span_outputs (x # xs) b =
     (if o_destroying x then span_outputs xs b
      else
        let l = o_x x; t = o_y x; r = o_x x + o_width x; m = o_y x + o_height x
        in case b of
             None \<Rightarrow> span_outputs xs (Some (l, t, r, m))
           | Some (x0, y0, x1, y1) \<Rightarrow> span_outputs xs (Some (min l x0, min t y0, max r x1, max m y1)))"

text \<open>A solid surface of the compositor's own with one view.\<close>

definition weston_shell_utils_curtain_create :: "int \<Rightarrow> int \<Rightarrow> int \<Rightarrow> int \<Rightarrow> qdwin \<Rightarrow> view \<times> qdwin" where
  "weston_shell_utils_curtain_create x y w h s =
     (let v = next_id s; sf = next_id s + 1
      in (v, s\<lparr>next_id := next_id s + 2, view_surface := (view_surface s)(v := sf),
              view_mapped := (view_mapped s)(v := False), view_pos := (view_pos s)(v := at_int x y),
              surface_mapped := (surface_mapped s)(sf := True),
              surface_client := (surface_client s)(sf := None),
              surface_size := (surface_size s)(sf := (w, h))\<rparr>))"

definition qdwin_install_lock_curtain :: "qdwin \<Rightarrow> qdwin" where
  "qdwin_install_lock_curtain s =
     (if \<not> locked s then qdwin_remove_lock_curtain s
      else case span_outputs (outputs s) None of
             None \<Rightarrow> s
           | Some (x0, y0, x1, y1) \<Rightarrow>
               if x1 \<le> x0 \<or> y1 \<le> y0 then s
               else
                 let s1 = qdwin_remove_lock_curtain s;
                     (v, s2) = weston_shell_utils_curtain_create x0 y0 (x1 - x0) (y1 - y0) s1;
                     s3 = s2\<lparr>lock_curtain := Some (v, x0, y0, x1 - x0, y1 - y0)\<rparr>
                 in qdwin_lock_curtain_to_bottom (weston_view_move_to_layer v Lock_layer s3))"

section \<open>The locker's windows\<close>

definition qdwin_demote_lock_toplevel :: "qdwin \<Rightarrow> qdwin" where
  "qdwin_demote_lock_toplevel s =
     (case lock_toplevel s of
        None \<Rightarrow> s
      | Some k \<Rightarrow>
          (case qdwin_toplevel_from_handle s k of
             None \<Rightarrow> s\<lparr>ub := True\<rparr>
           | Some t \<Rightarrow>
               (let s1 = qdwin_toplevel_move_to_layer t Held_layer s;
                    s2 = (if lock_view s1 = Some (tl_view t)
                          then s1\<lparr>lock_view := None, lock_surface := None, lock_view_is_toplevel := False\<rparr>
                          else s1)
                in s2\<lparr>lock_toplevel := None\<rparr>)))"

definition qdwin_maybe_promote_lock_toplevel :: "toplevel \<Rightarrow> qdwin \<Rightarrow> qdwin" where
  "qdwin_maybe_promote_lock_toplevel t s =
     (if \<not> qdwin_toplevel_is_locker_ui s t then s
      else
        let s1 = (if lock_toplevel s \<noteq> None \<and> lock_toplevel s \<noteq> Some (tl_handle t)
                  then qdwin_demote_lock_toplevel s else s);
            s2 = s1\<lparr>lock_toplevel := Some (tl_handle t), lock_surface := Some (view_surface s1 (tl_view t)),
                    lock_view := Some (tl_view t), lock_view_is_toplevel := True\<rparr>;
            s3 = qdwin_lock_curtain_to_bottom (qdwin_toplevel_move_to_layer t Lock_layer s2)
        in qdwin_toplevel_set_fullscreen (tl_handle t) True None s3)"

section \<open>Hiding and showing the layers\<close>

definition non_lock_layers :: "layer list" where
  "non_lock_layers = [Background_layer, Normal_layer, Panel_layer, Notification_layer, Launcher_layer,
     Popup_layer, Layer_shell_layer 0, Layer_shell_layer 1, Layer_shell_layer 2, Layer_shell_layer 3]"

definition qdwin_hide_non_lock_layers :: "qdwin \<Rightarrow> qdwin" where
  "qdwin_hide_non_lock_layers s = fold weston_layer_unset_position non_lock_layers s"

text \<open>The bottom view is moved to the top as often as there are views.\<close>

definition raise_bottom :: "layer \<Rightarrow> qdwin \<Rightarrow> qdwin" where
  "raise_bottom L s =
     (case layer_views s L of [] \<Rightarrow> s | v # vs \<Rightarrow> weston_view_move_to_layer (last (v # vs)) L s)"

definition qdwin_layer_remap_after_unlock :: "layer \<Rightarrow> qdwin \<Rightarrow> qdwin" where
  "qdwin_layer_remap_after_unlock L s =
     (if list_ex (\<lambda>v. \<not> view_mapped s v) (layer_views s L)
      then (raise_bottom L ^^ length (layer_views s L)) s else s)"

definition restore_position :: "layer \<Rightarrow> qdwin \<Rightarrow> qdwin" where
  "restore_position L s =
     (case init_position L of None \<Rightarrow> s | Some p \<Rightarrow> weston_layer_set_position L p s)"

definition qdwin_show_non_lock_layers :: "qdwin \<Rightarrow> qdwin" where
  "qdwin_show_non_lock_layers s =
     fold qdwin_layer_remap_after_unlock non_lock_layers (fold restore_position non_lock_layers s)"

section \<open>The lock surface\<close>

definition qdwin_lock_surface_place :: "qdwin \<Rightarrow> qdwin" where
  "qdwin_lock_surface_place s =
     (case (lock_view s, lock_surface s, qdwin_primary_output s) of
        (Some v, Some sf, Some o1) \<Rightarrow>
          (weston_view_set_position v (at_int (o_x o1) (o_y o1)) s)
            \<lparr>surface_mapped := (surface_mapped s)(sf := True)\<rparr>
      | _ \<Rightarrow> s)"

definition qdwin_lock_surface_commit_cb :: "qdwin \<Rightarrow> qdwin" where
  "qdwin_lock_surface_commit_cb s =
     (let s1 = qdwin_lock_surface_place s
      in if locked s1 then qdwin_lock_curtain_to_bottom s1 else s1)"

text \<open>The view of an attached surface is destroyed, that of a window is only forgotten.\<close>

definition drop_lock_view :: "qdwin \<Rightarrow> qdwin" where
  "drop_lock_view s =
     (let s1 = (case lock_view s of
                  Some v \<Rightarrow> if lock_view_is_toplevel s then s else weston_view_destroy v s
                | None \<Rightarrow> s)
      in s1\<lparr>lock_view := None, lock_view_is_toplevel := False\<rparr>)"

definition qdwin_lock_surface_destroyed_cb :: "qdwin \<Rightarrow> qdwin" where
  "qdwin_lock_surface_destroyed_cb s =
     (let s1 = (drop_lock_view s)\<lparr>lock_surface := None\<rparr>;
          s2 = (case lock_resource s1 of
                  Some n \<Rightarrow> if lock_resource_is_locker s1 then s1 else emit (Lock_dismissed False n) s1
                | None \<Rightarrow> s1);
          s3 = (if locked s2 \<and> \<not> lock_reattach s2
                then qdwin_install_lock_curtain (qdwin_demote_lock_toplevel s2) else s2)
      in end_lock_grab s3)"

definition qdwin_lock_surface_resource_destroyed :: "qdwin \<Rightarrow> qdwin" where
  "qdwin_lock_surface_resource_destroyed s =
     (let s1 = (drop_lock_view (s\<lparr>lock_resource := None\<rparr>))\<lparr>lock_surface := None\<rparr>;
          s2 = (if locked s1 \<and> \<not> lock_reattach s1 then qdwin_demote_lock_toplevel s1 else s1)
      in end_lock_grab (s2\<lparr>lock_resource_is_locker := False\<rparr>))"

text \<open>The common part of the two attach requests.\<close>

definition attach_lock_view :: "bool \<Rightarrow> surface \<Rightarrow> nat \<Rightarrow> qdwin \<Rightarrow> qdwin" where
  "attach_lock_view is_locker sf ls_res s =
     (let v = next_id s;
          s1 = s\<lparr>lock_resource := Some ls_res, lock_resource_is_locker := is_locker,
                 lock_surface := Some sf, lock_view_is_toplevel := False, lock_toplevel := None,
                 lock_view := Some v, next_id := v + 1, view_surface := (view_surface s)(v := sf),
                 view_mapped := (view_mapped s)(v := False)\<rparr>
      in qdwin_lock_surface_place (weston_view_move_to_layer v Lock_layer s1))"

definition qdwin_handle_attach_lock_surface :: "wl_resource \<Rightarrow> surface option \<Rightarrow> qdwin \<Rightarrow> qdwin" where
  "qdwin_handle_attach_lock_surface r surf =
     qdwin_shell_require_bound r (\<lambda>s.
       (let ls_res = next_id s; s0 = s\<lparr>next_id := ls_res + 1\<rparr>
        in case surf of
             None \<Rightarrow> s0
           | Some sf \<Rightarrow>
               (let s1 = (if lock_resource s0 = None then s0 else qdwin_lock_surface_resource_destroyed s0);
                    s2 = attach_lock_view False sf ls_res s1
                in if locked s2 \<and> 17 \<le> res_version r then qdwin_overlay_grab_start 2 s2 else s2)))"

section \<open>Locking\<close>

definition qdwin_handle_set_locked :: "wl_resource \<Rightarrow> bool \<Rightarrow> qdwin \<Rightarrow> qdwin" where
  "qdwin_handle_set_locked r want =
     qdwin_shell_require_bound r (\<lambda>s.
       if locked s = want then s
       else if want \<and> lock_surface s = None then s
       else
         let s1 = s\<lparr>locked := want\<rparr>;
             s2 = (if want
                   then
                     let a = terminate_all ''compositor locked'' s1;
                         b = (if 17 \<le> res_version r then qdwin_overlay_grab_start 2 a else a)
                     in qdwin_hide_non_lock_layers (qdwin_install_lock_curtain b)
                   else qdwin_show_non_lock_layers (end_lock_grab (qdwin_remove_lock_curtain s1)))
         in send_to_shell (locked_changed want) s2)"

section \<open>The locker\<close>

text \<open>A bound locker counts as alive unless its pid is gone or names another process now.\<close>

definition qdwin_locker_peer_alive :: "(pid_t \<Rightarrow> process) \<Rightarrow> qdwin \<Rightarrow> bool" where
  "qdwin_locker_peer_alive proc s =
     (if locker_resource s = None \<or> locker_pid s \<le> 0 then False
      else if pr_esrch (proc (locker_pid s)) then False
      else
        let st_now = qdwin_proc_starttime (locker_pid s) (proc (locker_pid s))
        in if locker_starttime s \<noteq> 0 \<and> st_now \<noteq> 0 then st_now = locker_starttime s else True)"

definition qdwin_locker_resource_destroy :: "nat \<Rightarrow> qdwin \<Rightarrow> qdwin" where
  "qdwin_locker_resource_destroy rid s =
     (if map_option res_id (locker_resource s) \<noteq> Some rid then s
      else
        let s1 = qdwin_demote_lock_toplevel s
        in end_lock_grab (s1\<lparr>locker_resource := None, locker_pid := 0, locker_uid := - 1, locker_starttime := 0\<rparr>))"

definition qdwin_handle_bind_as_locker :: "wl_resource \<Rightarrow> (pid_t \<Rightarrow> process) \<Rightarrow> qdwin \<Rightarrow> qdwin" where
  "qdwin_handle_bind_as_locker r proc s =
     (let pid = cl_pid (res_client r); uid = cl_uid (res_client r);
          claim = (\<lambda>s. let s1 = s\<lparr>locker_resource := Some r, locker_pid := pid, locker_uid := uid,
                                   locker_starttime := qdwin_proc_starttime pid (proc pid)\<rparr>;
                           s2 = emit (Locker (locker_ready (locked s1))) s1
                       in if locked s2 then qdwin_overlay_grab_start 2 s2 else s2)
      in case locker_resource s of
           None \<Rightarrow> claim s
         | Some old \<Rightarrow>
             if old = r then emit (Post_error (res_id r) ERROR_ALREADY_BOUND) s
             else if qdwin_locker_peer_alive proc s then emit (Post_error (res_id r) ERROR_LOCKER_PRESENT) s
             else claim (qdwin_locker_resource_destroy (res_id old) s))"

text \<open>The requests a locker may make once it is bound.\<close>

definition require_locker :: "wl_resource \<Rightarrow> (qdwin \<Rightarrow> qdwin) \<Rightarrow> qdwin \<Rightarrow> qdwin" where
  "require_locker r body s =
     (if locker_resource s = Some r then body s else emit (Post_error (res_id r) ERROR_NOT_BOUND) s)"

definition qdwin_handle_locker_attach_lock_surface :: "wl_resource \<Rightarrow> surface option \<Rightarrow> qdwin \<Rightarrow> qdwin" where
  "qdwin_handle_locker_attach_lock_surface r surf =
     require_locker r (\<lambda>s.
       (let ls_res = next_id s; s0 = s\<lparr>next_id := ls_res + 1\<rparr>
        in case surf of
             None \<Rightarrow> s0
           | Some sf \<Rightarrow>
               (let s1 = (if lock_resource s0 = None then s0
                          else (qdwin_lock_surface_resource_destroyed (s0\<lparr>lock_reattach := True\<rparr>))
                                 \<lparr>lock_reattach := False\<rparr>);
                    s2 = attach_lock_view True sf ls_res s1
                in if locked s2 then qdwin_overlay_grab_start 2 s2 else s2)))"

definition qdwin_handle_locker_set_locked :: "wl_resource \<Rightarrow> bool \<Rightarrow> qdwin \<Rightarrow> qdwin" where
  "qdwin_handle_locker_set_locked r want =
     require_locker r (\<lambda>s.
       if locked s = want then s
       else
         let s1 = s\<lparr>locked := want\<rparr>;
             s2 = (if want
                   then
                     let a = qdwin_install_lock_curtain (terminate_all ''compositor locked'' s1);
                         b = fold (\<lambda>k u. case qdwin_toplevel_from_handle u k of
                                           None \<Rightarrow> u | Some t \<Rightarrow> qdwin_maybe_promote_lock_toplevel t u)
                               (map tl_handle (toplevels a)) a
                     in qdwin_hide_non_lock_layers (qdwin_overlay_grab_start 2 b)
                   else qdwin_show_non_lock_layers
                          (end_lock_grab (qdwin_demote_lock_toplevel (qdwin_remove_lock_curtain s1))));
             s3 = send_to_shell (locked_changed want) s2
         in if locker_resource s3 = None then s3 else emit (Locker (locker_locked_changed want)) s3)"

definition qdwin_handle_lock_acknowledged :: "wl_resource \<Rightarrow> u32 \<Rightarrow> qdwin \<Rightarrow> qdwin" where
  "qdwin_handle_lock_acknowledged r reason =
     require_locker r (\<lambda>s. if 3 < reason then emit (Post_error (res_id r) ERROR_INVALID_REASON) s else s)"

section \<open>Who may become the locker\<close>

definition qdwin_secctx_client_find :: "qdwin \<Rightarrow> wl_client \<Rightarrow> secctx_tag option" where
  "qdwin_secctx_client_find s c = map_of (secctx_clients s) (cl_id c)"

text \<open>The identity checks that are configured. The first snapshot of \<^verbatim>\<open>/proc\<close> is read first, the
  second one at the end, for the start time only.\<close>

definition locker_identity_ok :: "filesystem \<Rightarrow> pid_t \<Rightarrow> process \<Rightarrow> process \<Rightarrow> qdwin \<Rightarrow> bool" where
  "locker_identity_ok fs pid pr pr' s =
     (if allowed_locker_entrypoint s = None \<and> allowed_locker_exe s = None \<and> allowed_locker_label s = None
      then True
      else
        let st_before = qdwin_proc_starttime pid pr; st_after = qdwin_proc_starttime pid pr'
        in (case allowed_locker_entrypoint s of
              None \<Rightarrow> True
            | Some e \<Rightarrow> qdwin_exe_is_system_interpreter (qdwin_proc_exe pid pr)
                \<and> qdwin_path_is_trusted_entrypoint fs (qdwin_proc_argv1 pid pr) e)
           \<and> (case allowed_locker_exe s of None \<Rightarrow> True | Some e \<Rightarrow> qdwin_proc_exe pid pr = e)
           \<and> (case allowed_locker_label s of None \<Rightarrow> True | Some l \<Rightarrow> qdwin_proc_selinux_label pid pr = l)
           \<and> st_before \<noteq> 0 \<and> st_after \<noteq> 0 \<and> st_before = st_after)"

definition bind_qdwin_locker ::
  "filesystem \<Rightarrow> (pid_t \<Rightarrow> process) \<Rightarrow> (pid_t \<Rightarrow> process) \<Rightarrow> wl_client \<Rightarrow> nat \<Rightarrow> qdwin \<Rightarrow> wl_resource option \<times> qdwin" where
  "bind_qdwin_locker fs proc proc' c version s =
     (let refuse = (None, emit (Post_error (cl_id c) ERROR_IMPLEMENTATION) s)
      in if qdwin_secctx_client_find s c \<noteq> None then refuse
         else if cl_uid c \<noteq> allowed_locker_uid s then refuse
         else if \<not> locker_identity_ok fs (cl_pid c) (proc (cl_pid c)) (proc' (cl_pid c)) s then refuse
         else (Some \<lparr>res_id = next_id s, res_client = c, res_version = version\<rparr>, s\<lparr>next_id := next_id s + 1\<rparr>))"

section \<open>The launcher overlay\<close>

definition find_launcher :: "qdwin \<Rightarrow> nat \<Rightarrow> launcher option" where
  "find_launcher s n = find (\<lambda>l. ln_id l = n) (launchers s)"

definition qdwin_launcher_place :: "launcher \<Rightarrow> qdwin \<Rightarrow> qdwin" where
  "qdwin_launcher_place la s =
     (case (ln_view la, ln_surface la, find (\<lambda>o1. ln_output la = Some (o_id o1)) (outputs s)) of
        (Some v, Some sf, Some o1) \<Rightarrow>
          (let (bw, bh) = surface_size s sf
           in if bw \<le> 0 \<or> bh \<le> 0 then s
              else (weston_view_set_position v
                     (at_int (o_x o1 + (o_width o1 - bw) sdiv 2) (o_y o1 + (o_height o1 - bh) sdiv 2)) s)
                     \<lparr>surface_mapped := (surface_mapped s)(sf := True)\<rparr>)
      | _ \<Rightarrow> s)"

definition qdwin_launcher_commit :: "nat \<Rightarrow> qdwin \<Rightarrow> qdwin" where
  "qdwin_launcher_commit n s = (case find_launcher s n of None \<Rightarrow> s | Some la \<Rightarrow> qdwin_launcher_place la s)"

definition qdwin_launcher_surface_destroyed :: "nat \<Rightarrow> qdwin \<Rightarrow> qdwin" where
  "qdwin_launcher_surface_destroyed n s =
     (case find_launcher s n of
        None \<Rightarrow> s
      | Some la \<Rightarrow>
          (let s1 = destroy_view_opt (ln_view la) s
           in emit (Shell (launcher_dismissed n))
                (s1\<lparr>launchers := upd_where (\<lambda>l. ln_id l = n) (\<lambda>l. l\<lparr>ln_view := None, ln_surface := None\<rparr>) (launchers s1)\<rparr>)))"

definition qdwin_launcher_resource_destroyed :: "nat \<Rightarrow> qdwin \<Rightarrow> qdwin" where
  "qdwin_launcher_resource_destroyed n s =
     (case find_launcher s n of
        None \<Rightarrow> s
      | Some la \<Rightarrow>
          (let s1 = destroy_view_opt (ln_view la) s;
               s2 = s1\<lparr>launchers := [l \<leftarrow> launchers s1. ln_id l \<noteq> n]\<rparr>
           in if ln_kind la = 0 \<and> overlay_grab_active s2 \<and> overlay_grab_role s2 = 0
              then qdwin_overlay_grab_end s2 else s2))"

definition qdwin_handle_attach_launcher :: "wl_resource \<Rightarrow> surface option \<Rightarrow> u32 \<Rightarrow> qdwin \<Rightarrow> qdwin" where
  "qdwin_handle_attach_launcher r surf kind =
     qdwin_shell_require_bound r (\<lambda>s.
       (let n = next_id s; s0 = s\<lparr>next_id := n + 1\<rparr>
        in case surf of
             None \<Rightarrow> s0
           | Some sf \<Rightarrow>
               (let v = next_id s0;
                    la = \<lparr>ln_id = n, ln_surface = Some sf, ln_view = Some v,
                          ln_output = map_option o_id (qdwin_primary_output s0), ln_kind = kind\<rparr>;
                    s1 = s0\<lparr>next_id := v + 1, view_surface := (view_surface s0)(v := sf),
                            view_mapped := (view_mapped s0)(v := False)\<rparr>;
                    s2 = weston_view_move_to_layer v Launcher_layer s1;
                    s3 = qdwin_launcher_place la (s2\<lparr>launchers := la # launchers s2\<rparr>)
                in if kind = 0 \<and> 17 \<le> res_version r then qdwin_overlay_grab_start 0 s3 else s3)))"

section \<open>Frames\<close>

text \<open>Streams touch neither the lock nor the stacking.\<close>

lemma streamless_ops [simp]:
  "streamless (qdwin_view_stream_unpin k s) = streamless s"
  "streamless (qdwin_view_stream_reap_forward k s) = streamless s"
  "streamless (qdwin_stream_seat_release k s) = streamless s"
  "streamless (qdwin_view_stream_release_server_state k s) = streamless s"
  "streamless (qdwin_view_stream_terminate reason k s) = streamless s"
  "streamless (terminate_all reason s) = streamless s"
proof -
  show u: "streamless (qdwin_view_stream_unpin k s) = streamless s" for k s
    by (simp add: qdwin_view_stream_unpin_def Let_def split: option.split)
  show r: "streamless (qdwin_view_stream_reap_forward k s) = streamless s" for k s
    by (simp add: qdwin_view_stream_reap_forward_def split: option.split)
  show s: "streamless (qdwin_stream_seat_release k s) = streamless s" for k s
    by (simp add: qdwin_stream_seat_release_def qdwin_stream_confine_grab_end_def
        inputless_streamless [OF inputless_seats(3)] inputless_streamless [OF inputless_seats(5)]
        inputless_streamless [OF inputless_seats(6)] inputless_streamless [OF inputless_trackers(6)]
        split: option.split)
  show rl: "streamless (qdwin_view_stream_release_server_state k s) = streamless s" for k s
    by (simp add: qdwin_view_stream_release_server_state_def Let_def u r s split: option.split)
  show t: "streamless (qdwin_view_stream_terminate reason k s) = streamless s" for k s
    by (simp add: qdwin_view_stream_terminate_def Let_def rl split: option.split)
  show "streamless (terminate_all reason s) = streamless s"
    unfolding terminate_all_def by (rule fold_keeps) (rule t)
qed

lemmas streamless_frames [simp] = streamless_frame [OF streamless_ops(6)]

text \<open>What decides whether the session is locked and which layers are shown.\<close>

definition lock_core :: "qdwin \<Rightarrow> bool \<times> (layer \<Rightarrow> nat option)" where
  "lock_core s = (locked s, layer_position s)"

lemma lock_core_cong: "locked a = locked b \<Longrightarrow> layer_position a = layer_position b \<Longrightarrow> lock_core a = lock_core b"
  by (simp add: lock_core_def)

lemma inputless_lock_core: "inputless a = inputless b \<Longrightarrow> lock_core a = lock_core b"
  by (rule lock_core_cong; rule inputless_frame)

lemma geo_lock_core: "geo_frame a = geo_frame b \<Longrightarrow> lock_core a = lock_core b"
  unfolding geo_frame_def by (rule lock_core_cong; rule geoless_frame; simp)

lemma scene_lock_core [simp]:
  "lock_core (weston_view_move_to_layer v L s) = lock_core s"
  "lock_core (weston_view_destroy v s) = lock_core s"
  "lock_core (qdwin_toplevel_move_to_layer t L s) = lock_core s"
  "lock_core (weston_view_set_position v p s) = lock_core s"
  "lock_core (emit e s) = lock_core s"
  "lock_core (send_to_shell f s) = lock_core s"
  by (simp_all add: lock_core_def weston_view_set_position_def emit_def send_to_shell_def)

lemma upd_lock_core [simp]:
  "lock_core (s\<lparr>lock_view := a\<rparr>) = lock_core s" "lock_core (s\<lparr>lock_surface := b\<rparr>) = lock_core s"
  "lock_core (s\<lparr>lock_view_is_toplevel := c\<rparr>) = lock_core s" "lock_core (s\<lparr>lock_toplevel := d\<rparr>) = lock_core s"
  "lock_core (s\<lparr>lock_resource := e\<rparr>) = lock_core s" "lock_core (s\<lparr>lock_resource_is_locker := c\<rparr>) = lock_core s"
  "lock_core (s\<lparr>lock_reattach := c\<rparr>) = lock_core s" "lock_core (s\<lparr>lock_curtain := f\<rparr>) = lock_core s"
  "lock_core (s\<lparr>layer_views := g\<rparr>) = lock_core s" "lock_core (s\<lparr>surface_mapped := h\<rparr>) = lock_core s"
  "lock_core (s\<lparr>next_id := i\<rparr>) = lock_core s" "lock_core (s\<lparr>ub := c\<rparr>) = lock_core s"
  "lock_core (s\<lparr>launchers := j\<rparr>) = lock_core s" "lock_core (s\<lparr>view_surface := k\<rparr>) = lock_core s"
  "lock_core (s\<lparr>view_mapped := l\<rparr>) = lock_core s" "lock_core (s\<lparr>view_pos := m\<rparr>) = lock_core s"
  "lock_core (s\<lparr>surface_client := n\<rparr>) = lock_core s" "lock_core (s\<lparr>surface_size := q\<rparr>) = lock_core s"
  "lock_core (s\<lparr>locker_resource := r\<rparr>) = lock_core s" "lock_core (s\<lparr>locker_pid := t\<rparr>) = lock_core s"
  "lock_core (s\<lparr>locker_uid := u\<rparr>) = lock_core s" "lock_core (s\<lparr>locker_starttime := w\<rparr>) = lock_core s"
  by (simp_all add: lock_core_def)

lemma curtain_lock_core [simp]:
  "lock_core (qdwin_lock_curtain_to_bottom s) = lock_core s"
  "lock_core (qdwin_remove_lock_curtain s) = lock_core s"
  "lock_core (qdwin_install_lock_curtain s) = lock_core s"
  by (simp_all add: qdwin_lock_curtain_to_bottom_def qdwin_remove_lock_curtain_def
      qdwin_install_lock_curtain_def weston_shell_utils_curtain_create_def Let_def split: option.split)

lemma grab_lock_core [simp]:
  "lock_core (qdwin_overlay_grab_start role s) = lock_core s" "lock_core (qdwin_overlay_grab_end s) = lock_core s"
  "lock_core (end_lock_grab s) = lock_core s"
  by (rule inputless_lock_core, simp)+

lemma terminate_lock_core [simp]: "lock_core (terminate_all reason s) = lock_core s"
  by (rule lock_core_cong) simp_all

lemma toplevel_lock_core [simp]:
  "lock_core (qdwin_demote_lock_toplevel s) = lock_core s"
  "lock_core (qdwin_maybe_promote_lock_toplevel t s) = lock_core s"
proof -
  show "lock_core (qdwin_demote_lock_toplevel s) = lock_core s" for s
    by (simp add: qdwin_demote_lock_toplevel_def Let_def split: option.split)
  then show "lock_core (qdwin_maybe_promote_lock_toplevel t s) = lock_core s"
    by (simp add: qdwin_maybe_promote_lock_toplevel_def Let_def geo_lock_core [OF geo_frame_set_fullscreen])
qed

lemma surface_lock_core [simp]:
  "lock_core (qdwin_lock_surface_place s) = lock_core s"
  "lock_core (qdwin_lock_surface_commit_cb s) = lock_core s"
  "lock_core (drop_lock_view s) = lock_core s"
  "lock_core (qdwin_lock_surface_destroyed_cb s) = lock_core s"
  "lock_core (qdwin_lock_surface_resource_destroyed s) = lock_core s"
  "lock_core (attach_lock_view b sf n s) = lock_core s"
proof -
  show a: "lock_core (qdwin_lock_surface_place s) = lock_core s" for s
    by (simp add: qdwin_lock_surface_place_def split: option.split)
  show "lock_core (qdwin_lock_surface_commit_cb s) = lock_core s"
    by (simp add: qdwin_lock_surface_commit_cb_def Let_def a)
  show b: "lock_core (drop_lock_view s) = lock_core s" for s
    by (simp add: drop_lock_view_def Let_def split: option.split)
  show "lock_core (qdwin_lock_surface_destroyed_cb s) = lock_core s"
    by (simp add: qdwin_lock_surface_destroyed_cb_def Let_def b split: option.split)
  show "lock_core (qdwin_lock_surface_resource_destroyed s) = lock_core s"
    by (simp add: qdwin_lock_surface_resource_destroyed_def Let_def b)
  show "lock_core (attach_lock_view b sf n s) = lock_core s" for b
    by (simp add: attach_lock_view_def Let_def a)
qed

lemma locker_lock_core [simp]:
  "lock_core (qdwin_handle_attach_lock_surface r surf s) = lock_core s"
  "lock_core (qdwin_handle_locker_attach_lock_surface r surf s) = lock_core s"
  "lock_core (qdwin_locker_resource_destroy n s) = lock_core s"
  "lock_core (qdwin_handle_bind_as_locker r proc s) = lock_core s"
  "lock_core (qdwin_handle_lock_acknowledged r reason s) = lock_core s"
proof -
  show d: "lock_core (qdwin_locker_resource_destroy n s) = lock_core s" for n s
    by (simp add: qdwin_locker_resource_destroy_def Let_def)
  show "lock_core (qdwin_handle_bind_as_locker r proc s) = lock_core s"
    by (simp add: qdwin_handle_bind_as_locker_def Let_def d split: option.split)
qed (simp_all add: qdwin_handle_attach_lock_surface_def qdwin_shell_require_bound_def
      qdwin_handle_locker_attach_lock_surface_def require_locker_def qdwin_handle_lock_acknowledged_def
      Let_def split: option.split)

lemma launcher_lock_core [simp]:
  "lock_core (qdwin_launcher_place la s) = lock_core s"
  "lock_core (qdwin_launcher_commit n s) = lock_core s"
  "lock_core (qdwin_launcher_surface_destroyed n s) = lock_core s"
  "lock_core (qdwin_launcher_resource_destroyed n s) = lock_core s"
  "lock_core (qdwin_handle_attach_launcher r surf kind s) = lock_core s"
proof -
  show p: "lock_core (qdwin_launcher_place la s) = lock_core s" for la s
    by (simp add: qdwin_launcher_place_def split: option.split prod.split)
  show "lock_core (qdwin_launcher_commit n s) = lock_core s"
    by (simp add: qdwin_launcher_commit_def p split: option.split)
  show "lock_core (qdwin_handle_attach_launcher r surf kind s) = lock_core s"
    by (simp add: qdwin_handle_attach_launcher_def qdwin_shell_require_bound_def p Let_def split: option.split)
qed (simp_all add: qdwin_launcher_surface_destroyed_def qdwin_launcher_resource_destroyed_def
      destroy_view_opt_def Let_def split: option.split)

section \<open>The positions of the layers\<close>

text \<open>Locked: only the lock layer and the layer of windows on hold are on the layer list.\<close>

definition lock_position :: "layer \<Rightarrow> nat option" where
  "lock_position L = (if L \<in> set non_lock_layers then None else init_position L)"

lemma unset_positions:
  "layer_position (fold weston_layer_unset_position Ls s) = (\<lambda>L. if L \<in> set Ls then None else layer_position s L)"
  by (induction Ls arbitrary: s) (auto simp: weston_layer_unset_position_def)

lemma restore_one: "layer_position (restore_position M s) =
     (\<lambda>L. if L = M \<and> init_position M \<noteq> None then init_position M else layer_position s L)"
  by (auto simp: restore_position_def weston_layer_set_position_def fun_eq_iff split: option.split)

lemma restore_positions:
  "layer_position (fold restore_position Ls s) =
     (\<lambda>L. if L \<in> set Ls \<and> init_position L \<noteq> None then init_position L else layer_position s L)"
  by (induction Ls arbitrary: s) (auto simp: restore_one fun_eq_iff)

lemma remap_core [simp]: "lock_core (qdwin_layer_remap_after_unlock L s) = lock_core s"
proof -
  have "lock_core ((raise_bottom L ^^ n) s) = lock_core s" for n s
    by (induction n arbitrary: s) (auto simp: raise_bottom_def funpow_swap1 split: list.split)
  then show ?thesis
    by (simp add: qdwin_layer_remap_after_unlock_def)
qed

lemma lock_core_fold [simp]: "lock_core (fold qdwin_layer_remap_after_unlock Ls s) = lock_core s"
  by (rule fold_keeps) simp

lemma hide_core: "lock_core (qdwin_hide_non_lock_layers s) =
    (locked s, \<lambda>L. if L \<in> set non_lock_layers then None else layer_position s L)"
proof -
  have "locked (fold weston_layer_unset_position Ls s) = locked s" for Ls
    by (rule fold_keeps) (simp add: weston_layer_unset_position_def)
  then show ?thesis
    by (simp add: lock_core_def qdwin_hide_non_lock_layers_def unset_positions)
qed

lemma show_core: "lock_core (qdwin_show_non_lock_layers s) =
    (locked s, \<lambda>L. if L \<in> set non_lock_layers then init_position L else layer_position s L)"
proof -
  have l: "locked (fold restore_position Ls s) = locked s" for Ls
    by (rule fold_keeps) (simp add: restore_position_def weston_layer_set_position_def split: option.split)
  have "init_position L \<noteq> None" if "L \<in> set non_lock_layers" for L
    using that by (auto simp: non_lock_layers_def)
  then have "layer_position (fold restore_position non_lock_layers s) =
      (\<lambda>L. if L \<in> set non_lock_layers then init_position L else layer_position s L)"
    unfolding restore_positions by auto
  then show ?thesis
    by (simp add: qdwin_show_non_lock_layers_def) (simp add: lock_core_def l)
qed

definition lock_inv :: "qdwin \<Rightarrow> bool" where
  "lock_inv s \<longleftrightarrow> layer_position s = (if locked s then lock_position else init_position)"

lemma lock_inv_core: "lock_core a = lock_core b \<Longrightarrow> lock_inv a = lock_inv b"
  by (simp add: lock_inv_def lock_core_def)

lemma hide_inv:
  assumes "lock_core a = (True, init_position)"
  shows "lock_inv (qdwin_hide_non_lock_layers a)" and "locked (qdwin_hide_non_lock_layers a)"
  using hide_core [of a] assms by (auto simp: lock_core_def lock_inv_def lock_position_def)

lemma show_inv:
  assumes "lock_core a = (False, lock_position)"
  shows "lock_inv (qdwin_show_non_lock_layers a)" and "\<not> locked (qdwin_show_non_lock_layers a)"
  using show_core [of a] assms by (auto simp: lock_core_def lock_inv_def lock_position_def fun_eq_iff)

lemma set_locked_core: "lock_core (s\<lparr>locked := b\<rparr>) = (b, layer_position s)"
  by (simp add: lock_core_def)

lemma promote_fold_core [simp]:
  "lock_core (fold (\<lambda>k u. case qdwin_toplevel_from_handle u k of
      None \<Rightarrow> u | Some t \<Rightarrow> qdwin_maybe_promote_lock_toplevel t u) ks s) = lock_core s"
  by (rule fold_keeps) (simp split: option.split)

lemma handle_set_locked:
  assumes "lock_inv s"
  shows "lock_inv (qdwin_handle_set_locked r want s)"
    and "locked (qdwin_handle_set_locked r want s) =
      (if shell_bound s \<and> shell_resource s = Some r \<and> (want \<longrightarrow> lock_surface s \<noteq> None) then want else locked s)"
proof -
  have "lock_core (s\<lparr>locked := True\<rparr>) = (True, init_position)" if "\<not> locked s"
    using that assms by (simp add: lock_core_def lock_inv_def)
  moreover have "lock_core (s\<lparr>locked := False\<rparr>) = (False, lock_position)" if "locked s"
    using that assms by (simp add: lock_core_def lock_inv_def)
  moreover have "locked u = fst (lock_core u)" for u
    by (simp add: lock_core_def)
  ultimately show "lock_inv (qdwin_handle_set_locked r want s)"
    and "locked (qdwin_handle_set_locked r want s) =
      (if shell_bound s \<and> shell_resource s = Some r \<and> (want \<longrightarrow> lock_surface s \<noteq> None) then want else locked s)"
    using assms by (auto simp: qdwin_handle_set_locked_def qdwin_shell_require_bound_def Let_def
        lock_inv_core [OF scene_lock_core(5)] lock_inv_core [OF scene_lock_core(6)] hide_inv show_inv hide_core show_core)
qed

lemma locker_set_locked:
  assumes "lock_inv s"
  shows "lock_inv (qdwin_handle_locker_set_locked r want s)"
    and "locked (qdwin_handle_locker_set_locked r want s) = (if locker_resource s = Some r then want else locked s)"
proof -
  have "lock_core (s\<lparr>locked := True\<rparr>) = (True, init_position)" if "\<not> locked s"
    using that assms by (simp add: lock_core_def lock_inv_def)
  moreover have "lock_core (s\<lparr>locked := False\<rparr>) = (False, lock_position)" if "locked s"
    using that assms by (simp add: lock_core_def lock_inv_def)
  moreover have "locked u = fst (lock_core u)" for u
    by (simp add: lock_core_def)
  ultimately show "lock_inv (qdwin_handle_locker_set_locked r want s)"
    and "locked (qdwin_handle_locker_set_locked r want s) = (if locker_resource s = Some r then want else locked s)"
    using assms by (auto simp: qdwin_handle_locker_set_locked_def require_locker_def Let_def
        lock_inv_core [OF scene_lock_core(5)] lock_inv_core [OF scene_lock_core(6)] hide_inv show_inv hide_core show_core)
qed

section \<open>Requests and events\<close>

text \<open>The events of the lock: requests of the shell and of a locker, the end of their objects, and
  what the input devices do. A chord has one of the handlers registered for it, or none.\<close>

datatype chord = No_chord | Launcher_chord | Switcher_chord nat | Switcher_back_chord nat | Lock_chord

definition binding :: "chord \<Rightarrow> qdwin \<Rightarrow> qdwin" where
  "binding c = (case c of No_chord \<Rightarrow> id | Launcher_chord \<Rightarrow> qdwin_on_launcher_key
     | Switcher_chord kb \<Rightarrow> qdwin_on_switcher_key kb | Switcher_back_chord kb \<Rightarrow> qdwin_on_switcher_back_key kb
     | Lock_chord \<Rightarrow> qdwin_on_lock_key)"

datatype lock_request =
    Lk_shell_attach wl_resource "surface option"
  | Lk_shell_set wl_resource bool
  | Lk_bind filesystem "pid_t \<Rightarrow> process" "pid_t \<Rightarrow> process" wl_client nat
  | Lk_bind_as wl_resource "pid_t \<Rightarrow> process"
  | Lk_attach wl_resource "surface option"
  | Lk_set wl_resource bool
  | Lk_ack wl_resource u32
  | Lk_locker_gone nat
  | Lk_surface_commit
  | Lk_surface_gone
  | Lk_object_gone
  | Lk_promote u32
  | Lk_launcher wl_resource "surface option" u32
  | Lk_launcher_commit nat
  | Lk_launcher_surface_gone nat
  | Lk_launcher_gone nat
  | Lk_key nat chord u32 bool bool u32 string
  | Lk_modifiers nat "bool option"
  | Lk_alt_released
  | Lk_seat_new string
  | Lk_seat_gone nat
  | Lk_keyboard_new nat
  | Lk_keyboard_gone nat

fun lock_step :: "lock_request \<Rightarrow> qdwin \<Rightarrow> qdwin" where
  "lock_step (Lk_shell_attach r sf) = qdwin_handle_attach_lock_surface r sf"
| "lock_step (Lk_shell_set r b) = qdwin_handle_set_locked r b"
| "lock_step (Lk_bind fs p p' c v) = (\<lambda>s. snd (bind_qdwin_locker fs p p' c v s))"
| "lock_step (Lk_bind_as r p) = qdwin_handle_bind_as_locker r p"
| "lock_step (Lk_attach r sf) = qdwin_handle_locker_attach_lock_surface r sf"
| "lock_step (Lk_set r b) = qdwin_handle_locker_set_locked r b"
| "lock_step (Lk_ack r n) = qdwin_handle_lock_acknowledged r n"
| "lock_step (Lk_locker_gone n) = qdwin_locker_resource_destroy n"
| "lock_step Lk_surface_commit = qdwin_lock_surface_commit_cb"
| "lock_step Lk_surface_gone = qdwin_lock_surface_destroyed_cb"
| "lock_step Lk_object_gone = qdwin_lock_surface_resource_destroyed"
| "lock_step (Lk_promote k) = (\<lambda>s. case qdwin_toplevel_from_handle s k of
     None \<Rightarrow> s | Some t \<Rightarrow> qdwin_maybe_promote_lock_toplevel t s)"
| "lock_step (Lk_launcher r sf k) = qdwin_handle_attach_launcher r sf k"
| "lock_step (Lk_launcher_commit n) = qdwin_launcher_commit n"
| "lock_step (Lk_launcher_surface_gone n) = qdwin_launcher_surface_destroyed n"
| "lock_step (Lk_launcher_gone n) = qdwin_launcher_resource_destroyed n"
| "lock_step (Lk_key i c key p sh ks u) = notify_key i (binding c) key p sh ks u"
| "lock_step (Lk_modifiers i alt) = notify_modifiers i alt"
| "lock_step Lk_alt_released = qdwin_on_alt_released"
| "lock_step (Lk_seat_new nm) = weston_seat_init nm"
| "lock_step (Lk_seat_gone i) = weston_seat_release i"
| "lock_step (Lk_keyboard_new i) = weston_seat_init_keyboard i"
| "lock_step (Lk_keyboard_gone i) = weston_seat_release_keyboard i"

text \<open>Who may unlock.\<close>

fun unlocks :: "qdwin \<Rightarrow> lock_request \<Rightarrow> bool" where
  "unlocks s (Lk_shell_set r b) \<longleftrightarrow> \<not> b \<and> shell_bound s \<and> shell_resource s = Some r"
| "unlocks s (Lk_set r b) \<longleftrightarrow> \<not> b \<and> locker_resource s = Some r"
| "unlocks s _ \<longleftrightarrow> False"

lemma inputless_binding [simp]: "inputless (binding c s) = inputless s"
  by (simp add: binding_def split: chord.split)

lemmas input_lock_core [simp] =
  inputless_lock_core [OF inputless_seats(1)] inputless_lock_core [OF inputless_seats(2)]
  inputless_lock_core [OF inputless_seats(3)] inputless_lock_core [OF inputless_seats(6)]
  inputless_lock_core [OF inputless_keys(8)] inputless_lock_core [OF inputless_keys(12)]
  inputless_lock_core [OF inputless_notify_key [OF inputless_binding]]

fun sets_lock :: "lock_request \<Rightarrow> bool" where
  "sets_lock (Lk_shell_set r b) \<longleftrightarrow> True"
| "sets_lock (Lk_set r b) \<longleftrightarrow> True"
| "sets_lock _ \<longleftrightarrow> False"

lemma lock_step_core:
  assumes "\<not> sets_lock e"
  shows "lock_core (lock_step e s) = lock_core s"
  using assms
  by (cases e) (simp_all add: bind_qdwin_locker_def Let_def split: option.split)

lemma lock_inv_step: "lock_inv s \<Longrightarrow> lock_inv (lock_step e s)"
  by (cases "sets_lock e") (auto simp: lock_inv_core [OF lock_step_core] handle_set_locked(1) locker_set_locked(1)
      elim: sets_lock.elims)

lemma locked_step: "lock_inv s \<Longrightarrow> locked s \<Longrightarrow> \<not> unlocks s e \<Longrightarrow> locked (lock_step e s)"
  using lock_step_core [of e s]
  by (cases "sets_lock e") (auto simp: lock_core_def handle_set_locked(2) locker_set_locked(2) elim!: sets_lock.elims)

interpretation session_lock: latched_component lock_step lock_inv locked unlocks
  by unfold_locales (simp_all add: lock_inv_step locked_step)

section \<open>The curtain covers the outputs\<close>

fun box_in :: "int \<times> int \<times> int \<times> int \<Rightarrow> int \<times> int \<times> int \<times> int \<Rightarrow> bool" where
  "box_in (l, t, r, m) (x0, y0, x1, y1) \<longleftrightarrow> x0 \<le> l \<and> y0 \<le> t \<and> r \<le> x1 \<and> m \<le> y1"

definition out_box :: "weston_output \<Rightarrow> int \<times> int \<times> int \<times> int" where
  "out_box x = (o_x x, o_y x, o_x x + o_width x, o_y x + o_height x)"

lemma span_outputs_covers:
  "(\<forall>x \<in> set xs. \<not> o_destroying x \<longrightarrow> (\<exists>b'. span_outputs xs b = Some b' \<and> box_in (out_box x) b'))
    \<and> (case b of None \<Rightarrow> True | Some c \<Rightarrow> (\<exists>b'. span_outputs xs b = Some b' \<and> box_in c b'))"
proof (induction xs arbitrary: b)
  case Nil
  show ?case by (cases b) auto
next
  case (Cons x xs)
  show ?case
  proof (cases "o_destroying x")
    case True
    then have e: "span_outputs (x # xs) b = span_outputs xs b" by simp
    show ?thesis unfolding e using Cons.IH [of b] True by simp
  next
    case False
    define c where "c = (case b of None \<Rightarrow> out_box x
      | Some (x0, y0, x1, y1) \<Rightarrow> (min (o_x x) x0, min (o_y x) y0, max (o_x x + o_width x) x1, max (o_y x + o_height x) y1))"
    have e: "span_outputs (x # xs) b = span_outputs xs (Some c)"
      using False by (cases b) (auto simp: c_def out_box_def Let_def)
    have w: "box_in (out_box x) c" and wb: "case b of None \<Rightarrow> True | Some d \<Rightarrow> box_in d c"
      by (auto simp: c_def out_box_def split: option.splits)
    obtain b' where b': "span_outputs xs (Some c) = Some b'" "box_in c b'"
      using Cons.IH [of "Some c"] by auto
    have tr: "box_in p b'" if "box_in p c" for p
      using that b'(2) by (cases p; cases c; cases b') auto
    show ?thesis
      using Cons.IH [of "Some c"] b' w wb tr unfolding e by (auto split: option.splits)
  qed
qed

lemma curtain_to_bottom_last:
  assumes "lock_curtain_view s = Some v"
  shows "\<exists>vs. layer_views (qdwin_lock_curtain_to_bottom s) Lock_layer = vs @ [v] \<and> v \<notin> set vs"
    and "lock_curtain (qdwin_lock_curtain_to_bottom s) = lock_curtain s"
  using assms by (auto simp: qdwin_lock_curtain_to_bottom_def Let_def)


section \<open>Unlocking restores the stacking\<close>

lemma raise_bottom_snoc:
  assumes "layer_views s L = xs @ [v]" and "v \<notin> set xs" and "layer_is_visible s L"
    and "\<And>M. M \<noteq> L \<Longrightarrow> v \<notin> set (layer_views s M)"
  shows "layer_views (raise_bottom L s) = (layer_views s)(L := v # xs)"
    and "view_mapped (raise_bottom L s) = (view_mapped s)(v := True)"
    and "layer_position (raise_bottom L s) = layer_position s"
proof -
  have e: "raise_bottom L s = weston_view_move_to_layer v L s"
    using assms(1) by (cases xs) (auto simp: raise_bottom_def)
  show "layer_views (raise_bottom L s) = (layer_views s)(L := v # xs)"
    unfolding e using assms by (auto simp: fun_eq_iff move_to_layer_scene)
  show "view_mapped (raise_bottom L s) = (view_mapped s)(v := True)"
    unfolding e using assms by (simp add: move_to_layer_scene)
  show "layer_position (raise_bottom L s) = layer_position s"
    unfolding e by simp
qed

lemma raise_bottom_many:
  assumes "layer_views s L = xs @ ys" and "distinct (xs @ ys)" and "layer_is_visible s L"
    and "\<And>M v. M \<noteq> L \<Longrightarrow> v \<in> set ys \<Longrightarrow> v \<notin> set (layer_views s M)"
  shows "layer_views ((raise_bottom L ^^ length ys) s) = (layer_views s)(L := ys @ xs)
    \<and> view_mapped ((raise_bottom L ^^ length ys) s) = (\<lambda>v. v \<in> set ys \<or> view_mapped s v)
    \<and> layer_position ((raise_bottom L ^^ length ys) s) = layer_position s"
  using assms
proof (induction ys arbitrary: s xs rule: rev_induct)
  case (snoc v ys)
  note one = raise_bottom_snoc [of s L "xs @ ys" v]
  let ?t = "raise_bottom L s"
  have t: "layer_views ?t = (layer_views s)(L := v # xs @ ys)" "view_mapped ?t = (view_mapped s)(v := True)"
    "layer_position ?t = layer_position s"
    using one snoc.prems by auto
  have "layer_views ((raise_bottom L ^^ length ys) ?t) = (layer_views ?t)(L := ys @ v # xs)
    \<and> view_mapped ((raise_bottom L ^^ length ys) ?t) = (\<lambda>w. w \<in> set ys \<or> view_mapped ?t w)
    \<and> layer_position ((raise_bottom L ^^ length ys) ?t) = layer_position ?t"
    by (rule snoc.IH) (use snoc.prems t in \<open>auto simp: layer_is_visible_def\<close>)
  then show ?case
    by (auto simp: t funpow_swap1 fun_eq_iff)
qed simp

lemma remap_keeps_order:
  assumes "distinct (layer_views s L)" and "layer_is_visible s L"
    and "\<And>M v. M \<noteq> L \<Longrightarrow> v \<in> set (layer_views s L) \<Longrightarrow> v \<notin> set (layer_views s M)"
  shows "layer_views (qdwin_layer_remap_after_unlock L s) = layer_views s"
    and "view_mapped (qdwin_layer_remap_after_unlock L s) = (\<lambda>v. v \<in> set (layer_views s L) \<or> view_mapped s v)"
  using raise_bottom_many [of s L "[]" "layer_views s L"] assms
  by (auto simp: qdwin_layer_remap_after_unlock_def list_ex_iff fun_eq_iff)

definition stacked_once :: "qdwin \<Rightarrow> bool" where
  "stacked_once s \<longleftrightarrow> (\<forall>L. distinct (layer_views s L))
     \<and> (\<forall>L M v. M \<noteq> L \<longrightarrow> v \<in> set (layer_views s L) \<longrightarrow> v \<notin> set (layer_views s M))"

lemma remap_all_keeps_order:
  assumes "stacked_once s" and "\<And>L. L \<in> set Ls \<Longrightarrow> layer_is_visible s L"
  shows "layer_views (fold qdwin_layer_remap_after_unlock Ls s) = layer_views s
    \<and> view_mapped (fold qdwin_layer_remap_after_unlock Ls s) = (\<lambda>v. (\<exists>L \<in> set Ls. v \<in> set (layer_views s L)) \<or> view_mapped s v)"
  using assms
proof (induction Ls arbitrary: s)
  case (Cons L Ls)
  let ?t = "qdwin_layer_remap_after_unlock L s"
  have t: "layer_views ?t = layer_views s" "view_mapped ?t = (\<lambda>v. v \<in> set (layer_views s L) \<or> view_mapped s v)"
    using remap_keeps_order [of s L] Cons.prems by (auto simp: stacked_once_def)
  have "layer_position ?t = layer_position s"
    using remap_core [of L s] by (simp add: lock_core_def)
  then show ?case
    using Cons.IH [of ?t] Cons.prems t by (auto simp: stacked_once_def layer_is_visible_def fun_eq_iff)
qed simp

lemma restore_scene [simp]:
  "layer_views (fold restore_position Ls s) = layer_views s" "view_mapped (fold restore_position Ls s) = view_mapped s"
  by (rule fold_keeps, simp add: restore_position_def weston_layer_set_position_def split: option.split)+

lemma non_lock_positioned: "L \<in> set non_lock_layers \<Longrightarrow> init_position L \<noteq> None"
  by (auto simp: non_lock_layers_def)

text \<open>C2: Unlocking puts every layer that was hidden back at its position, keeps the order of the
  views on all layers, and leaves every view of those layers mapped, also a view that came
  onto a hidden layer while the session was locked; no other view changes.\<close>

theorem unlock_restores_stacking:
  assumes "stacked_once s"
  shows "layer_views (qdwin_show_non_lock_layers s) = layer_views s
    \<and> list_all (\<lambda>L. layer_position (qdwin_show_non_lock_layers s) L = init_position L
        \<and> list_all (view_mapped (qdwin_show_non_lock_layers s)) (layer_views s L)) non_lock_layers
    \<and> {v. view_mapped (qdwin_show_non_lock_layers s) v} =
        {v. view_mapped s v} \<union> (\<Union>L \<in> set non_lock_layers. set (layer_views s L))"
proof -
  let ?u = "fold restore_position non_lock_layers s"
  have "stacked_once ?u" and "\<And>L. L \<in> set non_lock_layers \<Longrightarrow> layer_is_visible ?u L"
    using assms non_lock_positioned by (auto simp: stacked_once_def layer_is_visible_def restore_positions)
  from remap_all_keeps_order [OF this] have
    "layer_views (qdwin_show_non_lock_layers s) = layer_views s"
    "view_mapped (qdwin_show_non_lock_layers s) = (\<lambda>v. (\<exists>L \<in> set non_lock_layers. v \<in> set (layer_views s L)) \<or> view_mapped s v)"
    by (simp_all add: qdwin_show_non_lock_layers_def)
  moreover have "layer_position (qdwin_show_non_lock_layers s) =
      (\<lambda>L. if L \<in> set non_lock_layers then init_position L else layer_position s L)"
    using show_core [of s] by (simp add: lock_core_def)
  ultimately show ?thesis
    by (auto simp: list_all_iff)
qed

definition demo_locked :: qdwin where
  "demo_locked = ((wet_shell_init 1000 False None)\<lparr>locked := True, layer_position := lock_position,
     outputs := [\<lparr>o_id = 1, o_name = ''A'', o_x = 0, o_y = 0, o_width = 100, o_height = 50, o_destroying = False\<rparr>],
     next_id := 10,
     layer_views := (\<lambda>_. [])(Normal_layer := [1, 2], Launcher_layer := [3])\<rparr>)"

lemmas demo_locked_simps = demo_locked_def wet_shell_init_def

theorem unlock_restores_stacking_witness:
  "layer_views (qdwin_show_non_lock_layers demo_locked) Normal_layer = [1, 2]
    \<and> view_mapped (qdwin_show_non_lock_layers demo_locked) 1"
proof -
  have a: "stacked_once demo_locked"
    by (auto simp: stacked_once_def demo_locked_simps)
  have "layer_views demo_locked Normal_layer = [1, 2]"
    by (simp add: demo_locked_simps)
  then show ?thesis
    using unlock_restores_stacking [OF a] by (simp add: non_lock_layers_def)
qed


section \<open>Where keys go\<close>

lemmas binding_frames [simp] = inputless_frame [OF inputless_binding]

text \<open>What a client without privileges would see of the keyboard.\<close>

fun client_input :: "effect \<Rightarrow> bool" where
  "client_input (Seat (send_key i k)) = True"
| "client_input (Seat (send_modifiers i)) = True"
| "client_input _ = False"

definition leaked :: "qdwin \<Rightarrow> effect list" where
  "leaked s = filter client_input (out s)"

lemma leaked_emit: "leaked (emit e s) = (if client_input e then leaked s @ [e] else leaked s)"
  by (simp add: leaked_def emit_def)

lemma leaked_send_to_shell [simp]: "leaked (send_to_shell e s) = leaked s"
  by (simp add: send_to_shell_def leaked_emit)

lemma leaked_grab [simp]:
  "leaked (set_grab kb g s) = leaked s" "leaked (s\<lparr>switcher_grab_active := b\<rparr>) = leaked s"
  "leaked (s\<lparr>switcher_grab_kbd := n\<rparr>) = leaked s"
  by (simp_all add: leaked_def set_grab_def)

lemma leaked_switcher [simp]:
  "leaked (qdwin_switcher_grab_start kb s) = leaked s" "leaked (qdwin_switcher_grab_end s) = leaked s"
  by (simp_all add: qdwin_switcher_grab_start_def qdwin_switcher_grab_end_def weston_keyboard_start_grab_def
      weston_keyboard_end_grab_def)

lemma leaked_binding [simp]: "leaked (binding c s) = leaked s"
  by (simp add: binding_def qdwin_on_launcher_key_def qdwin_on_switcher_key_def qdwin_on_switcher_back_key_def
      qdwin_on_lock_key_def leaked_emit split: chord.split option.split)


definition demo_kb :: weston_keyboard where
  "demo_kb = \<lparr>kb_id = 7, kb_devices = 1, kb_focus = None, kb_grab = Default_grab\<rparr>"

definition demo_locked_kb :: qdwin where
  "demo_locked_kb = demo_locked\<lparr>seats := [\<lparr>seat_id = 5, seat_name = ''default'', seat_kbd = Some demo_kb, seat_pointer = None\<rparr>],
     shell_bound := True, shell_resource := Some \<lparr>res_id = 8, res_client = \<lparr>cl_id = 9, cl_pid = 1, cl_uid = 0\<rparr>, res_version = 20\<rparr>\<rparr>"

lemmas demo_locked_kb_simps = demo_locked_kb_def demo_kb_def demo_locked_simps weston_seat_get_keyboard_def seat_of_def


lemma grab_after_start:
  assumes "weston_seat_get_keyboard s i = Some k"
  shows "kbd_grab_of (set_grab (kb_id k) g s) i = Some g"
proof -
  from assms obtain x where x: "find (\<lambda>x. seat_id x = i) (seats s) = Some x" and k: "seat_kbd x = Some k" "kb_devices k \<noteq> 0"
    by (auto simp: weston_seat_get_keyboard_def seat_of_def bind_eq_Some_conv split: option.splits if_splits)
  have "find (\<lambda>x. seat_id x = i) (map (\<lambda>x. x\<lparr>seat_kbd := f x\<rparr>) xs) = map_option (\<lambda>x. x\<lparr>seat_kbd := f x\<rparr>) (find (\<lambda>x. seat_id x = i) xs)"
    for f :: "weston_seat \<Rightarrow> weston_keyboard option" and xs
    by (induction xs) auto
  then show ?thesis
    using x k by (simp add: kbd_grab_of_def set_grab_def weston_seat_get_keyboard_def seat_of_def)
qed

lemma grab_of_cong: "seats a = seats b \<Longrightarrow> kbd_grab_of a i = kbd_grab_of b i"
  by (simp add: kbd_grab_of_def weston_seat_get_keyboard_def seat_of_def)

text \<open>C37: The exception is reachable: when the keyboard has no overlay grab while the session is
  locked, as after a crash of the locker, the chord of the window switcher still installs the
  switcher grab, and the next change of the modifiers is sent to the focused client.\<close>

theorem locked_switcher_sends_modifiers:
  assumes "locked s" and "weston_seat_get_keyboard s i = Some k" and "kb_grab k = Default_grab"
    and "\<not> switcher_grab_active s" and "shell_resource s \<noteq> None"
  shows "locked (notify_key i (binding (Switcher_chord (kb_id k))) KEY_TAB True False ks utf8 s)
    \<and> leaked (notify_modifiers i alt (notify_key i (binding (Switcher_chord (kb_id k))) KEY_TAB True False ks utf8 s))
        = leaked s @ [Seat (send_modifiers i)]"
proof -
  define b where "b = binding (Switcher_chord (kb_id k)) s"
  define u where "u = notify_key i (binding (Switcher_chord (kb_id k))) KEY_TAB True False ks utf8 s"
  have b: "b = (set_grab (kb_id k) Switcher_grab s)\<lparr>switcher_grab_active := True, switcher_grab_kbd := kb_id k\<rparr>"
    using assms by (auto simp: b_def binding_def qdwin_on_switcher_key_def qdwin_switcher_grab_start_def weston_keyboard_start_grab_def)
  have g: "kbd_grab_of b i = Some Switcher_grab"
    using grab_after_start [OF assms(2)] grab_of_cong [of b "set_grab (kb_id k) Switcher_grab s" i] b by simp
  have "kbd_grab_of s i = Some Default_grab"
    using assms by (simp add: kbd_grab_of_def)
  then have u: "u = qdwin_switcher_grab_key KEY_TAB True False b"
    using g by (simp add: u_def notify_key_def b_def)
  have "seats u = seats b"
    by (simp add: u qdwin_switcher_grab_key_def send_to_shell_def emit_def)
  then have "kbd_grab_of u i = Some Switcher_grab"
    using g grab_of_cong by metis
  moreover have "leaked u = leaked s"
    by (simp add: u qdwin_switcher_grab_key_def b)
  moreover have "locked u"
    using assms(1) by (simp add: u qdwin_switcher_grab_key_def b set_grab_def)
  ultimately show ?thesis
    by (simp add: u_def [symmetric] notify_modifiers_def qdwin_switcher_grab_modifiers_def Let_def leaked_emit split: option.split bool.split)
qed

theorem locked_switcher_sends_modifiers_witness:
  "locked (notify_key 5 (binding (Switcher_chord 7)) KEY_TAB True False 0 [] demo_locked_kb)
    \<and> leaked (notify_modifiers 5 None (notify_key 5 (binding (Switcher_chord 7)) KEY_TAB True False 0 [] demo_locked_kb))
        = [Seat (send_modifiers 5)]"
  using locked_switcher_sends_modifiers [of demo_locked_kb 5 demo_kb 0 "[]" None]
  by (simp add: demo_locked_kb_simps leaked_def)

section \<open>The locker's place\<close>

definition peer_gone :: "(pid_t \<Rightarrow> process) \<Rightarrow> qdwin \<Rightarrow> bool" where
  "peer_gone proc s \<longleftrightarrow> pr_esrch (proc (locker_pid s))
     \<or> (locker_starttime s \<noteq> 0 \<and> qdwin_proc_starttime (locker_pid s) (proc (locker_pid s)) \<notin> {0, locker_starttime s})"


definition demo_proc :: "pid_t \<Rightarrow> process" where
  "demo_proc p = \<lparr>pr_esrch = p \<noteq> 1, pr_stat = None, pr_exe_link = None, pr_cmdline = None, pr_attr = None\<rparr>"

definition demo_res :: "nat \<Rightarrow> wl_resource" where
  "demo_res n = \<lparr>res_id = n, res_client = \<lparr>cl_id = n, cl_pid = int n, cl_uid = 0\<rparr>, res_version = 20\<rparr>"


section \<open>The keyboard grab of the lock screen\<close>

lemma move_unmapped_seats:
  assumes "\<not> view_mapped s v"
  shows "seats (weston_view_move_to_layer v L s) = seats s"
  using assms by (simp add: weston_view_move_to_layer_def weston_view_unmap_def Let_def)

lemma launcher_place_seats [simp]: "seats (qdwin_launcher_place la s) = seats s" "out (qdwin_launcher_place la s) = out s"
  by (simp_all add: qdwin_launcher_place_def weston_view_set_position_def split: option.split prod.split)

lemma launcher_place_frames [simp]:
  "overlay_grab_active (qdwin_launcher_place la s) = overlay_grab_active s"
  "shell_resource (qdwin_launcher_place la s) = shell_resource s"
  by (simp_all add: qdwin_launcher_place_def weston_view_set_position_def split: option.split prod.split)

text \<open>C36: A bound shell can take the keys away from the lock screen: showing its launcher while
  the session is locked gives the running grab the launcher's role, and the next key, a
  password typed to the locker included, is sent to the shell.\<close>

theorem launcher_takes_lock_keys:
  assumes "locked s" and "shell_bound s" and "shell_resource s = Some r" and "17 \<le> res_version r"
    and "overlay_grab_active s" and "overlay_grab_role s = 2" and "first_keyboard s \<noteq> None"
    and "kbd_grab_of s i = Some Overlay_grab" and "locker_resource s = Some l"
  shows "locked (qdwin_handle_attach_launcher r (Some sf) 0 s)
    \<and> out (notify_key i (binding c) key True shift ks utf8 (qdwin_handle_attach_launcher r (Some sf) 0 s))
        = out (qdwin_handle_attach_launcher r (Some sf) 0 s) @ [Log_key ks utf8, Shell (overlay_key 0 ks utf8)]
    \<and> out (notify_key i (binding c) key True shift ks utf8 s) = out s @ [Log_key ks utf8, Locker (locker_overlay_key ks utf8)]"
proof -
  let ?s1 = "s\<lparr>next_id := next_id s + 2, view_surface := (view_surface s)(next_id s + 1 := sf),
               view_mapped := (view_mapped s)(next_id s + 1 := False)\<rparr>"
  let ?m = "weston_view_move_to_layer (next_id s + 1) Launcher_layer ?s1"
  obtain la where a: "qdwin_handle_attach_launcher r (Some sf) 0 s =
      qdwin_overlay_grab_start 0 (qdwin_launcher_place la (?m\<lparr>launchers := la # launchers ?m\<rparr>))"
    using assms by (simp add: qdwin_handle_attach_launcher_def qdwin_shell_require_bound_def Let_def)
  let ?p = "qdwin_launcher_place la (?m\<lparr>launchers := la # launchers ?m\<rparr>)"
  have sm: "seats ?m = seats s"
    by (subst move_unmapped_seats) simp_all
  have sp: "seats ?p = seats s"
    using sm by simp
  have "first_keyboard ?p = first_keyboard s"
    using sp by (simp add: first_keyboard_def weston_seat_get_keyboard_def seat_of_def)
  moreover have "overlay_grab_active ?p"
    using assms by simp
  ultimately have q: "qdwin_handle_attach_launcher r (Some sf) 0 s = ?p\<lparr>overlay_grab_role := 0\<rparr>"
    using assms(7) unfolding a by (auto simp: qdwin_overlay_grab_start_def)
  have g: "kbd_grab_of (?p\<lparr>overlay_grab_role := 0\<rparr>) i = Some Overlay_grab"
    using sp assms(8) grab_of_cong [of "?p\<lparr>overlay_grab_role := 0\<rparr>" s i] by simp
  have "locked (qdwin_handle_attach_launcher r (Some sf) 0 s)"
    using assms(1) launcher_lock_core by (simp add: lock_core_def)
  then show ?thesis
    using assms g unfolding q
    by (simp add: notify_key_def qdwin_overlay_grab_key_def Let_def emit_def send_to_shell_def)
qed

definition demo_grabbed :: qdwin where
  "demo_grabbed = demo_locked_kb\<lparr>seats := [\<lparr>seat_id = 5, seat_name = ''default'',
       seat_kbd = Some (demo_kb\<lparr>kb_grab := Overlay_grab\<rparr>), seat_pointer = None\<rparr>],
     overlay_grab_active := True, overlay_grab_role := 2, overlay_grab_kbd := 7,
     shell_resource := Some (demo_res 8), locker_resource := Some (demo_res 9)\<rparr>"

lemma demo_grabbed_simps:
  "locked demo_grabbed" "shell_bound demo_grabbed" "shell_resource demo_grabbed = Some (demo_res 8)"
  "overlay_grab_active demo_grabbed" "overlay_grab_role demo_grabbed = 2" "locker_resource demo_grabbed = Some (demo_res 9)"
  "weston_seat_get_keyboard demo_grabbed 5 = Some (demo_kb\<lparr>kb_grab := Overlay_grab\<rparr>)"
  "first_keyboard demo_grabbed = Some 7" "17 \<le> res_version (demo_res 8)"
  by (simp_all add: demo_grabbed_def demo_locked_kb_simps demo_res_def first_keyboard_def map_filter_simps)

theorem launcher_takes_lock_keys_witness:
  "locked (qdwin_handle_attach_launcher (demo_res 8) (Some 3) 0 demo_grabbed)
    \<and> last (out (notify_key 5 (binding No_chord) 30 True False 97 ''a''
             (qdwin_handle_attach_launcher (demo_res 8) (Some 3) 0 demo_grabbed))) = Shell (overlay_key 0 97 ''a'')"
  using launcher_takes_lock_keys [of demo_grabbed "demo_res 8" 5 "demo_res 9" 3 No_chord 30 False 97 "''a''"]
  by (simp add: demo_grabbed_simps kbd_grab_of_def)

lemma seat_of_upd_kbd: "seat_of (upd_kbd i f s) i = map_option (\<lambda>x. x\<lparr>seat_kbd := map_option f (seat_kbd x)\<rparr>) (seat_of s i)"
proof -
  have "find (\<lambda>x. seat_id x = i) (upd_where (\<lambda>x. seat_id x = i) (\<lambda>x. x\<lparr>seat_kbd := map_option f (seat_kbd x)\<rparr>) xs)
      = map_option (\<lambda>x. x\<lparr>seat_kbd := map_option f (seat_kbd x)\<rparr>) (find (\<lambda>x. seat_id x = i) xs)" for xs :: "weston_seat list"
    by (induction xs) auto
  then show ?thesis
    by (simp add: seat_of_def upd_kbd_def upd_seat_def)
qed

lemma get_keyboard_upd:
  "weston_seat_get_keyboard (upd_kbd i f s) i = (case seat_of s i of None \<Rightarrow> None | Some x \<Rightarrow>
     (case seat_kbd x of None \<Rightarrow> None | Some k \<Rightarrow> if kb_devices (f k) = 0 then None else Some (f k)))"
  by (simp add: weston_seat_get_keyboard_def seat_of_upd_kbd split: option.split)

lemma seats_focus_changed [simp]: "seats (qdwin_on_keyboard_focus_changed i s) = seats s"
  by (simp add: qdwin_on_keyboard_focus_changed_def)

lemma seats_caps [simp]: "seats (qdwin_on_seat_updated_caps i s) = seats s"
    "overlay_grab_active (qdwin_on_seat_updated_caps i s) = overlay_grab_active s"
  by (simp_all add: qdwin_on_seat_updated_caps_def qdwin_seat_tracker_rebind_focus_listener_def
      qdwin_install_focus_listener_if_needed_def upd_tracker_def Let_def split: option.split)

text \<open>C38: A keyboard that is unplugged and plugged in again under the lock screen keeps the overlay
  grab, while the compositor's record of the grab is cleared: the code that ends the grab at
  unlock does nothing, and keys keep going to the overlay.\<close>

theorem replugged_keyboard_keeps_overlay_grab:
  assumes "weston_seat_get_keyboard s i = Some k" and "kb_devices k = 1" and "kb_grab k = Overlay_grab"
  shows "\<not> overlay_grab_active (weston_seat_init_keyboard i (weston_seat_release_keyboard i s))
    \<and> kbd_grab_of (end_lock_grab (weston_seat_init_keyboard i (weston_seat_release_keyboard i s))) i = Some Overlay_grab"
proof -
  obtain x where x: "seat_of s i = Some x" "seat_kbd x = Some k"
    using assms(1) by (auto simp: weston_seat_get_keyboard_def bind_eq_Some_conv split: option.splits if_splits)
  let ?d = "upd_kbd i (\<lambda>k. k\<lparr>kb_focus := None\<rparr>) (upd_kbd i (\<lambda>k. k\<lparr>kb_devices := kb_devices k - 1\<rparr>) s)"
  let ?r = "weston_seat_release_keyboard i s"
  have f: "seats (fold (\<lambda>tr. qdwin_on_keyboard_focus_changed (tr_seat tr)) xs u) = seats u" for xs :: "seat_tracker list" and u
    by (rule fold_keeps) simp
  have r: "seats ?r = seats ?d" "\<not> overlay_grab_active ?r"
    using assms by (simp_all add: weston_seat_release_keyboard_def Let_def cancel_grab_def qdwin_overlay_grab_cancel_def f)
  then have "seat_of ?r i = seat_of ?d i"
    by (simp add: seat_of_def)
  then have "seat_of ?r i = Some (x\<lparr>seat_kbd := Some (k\<lparr>kb_devices := 0, kb_focus := None\<rparr>)\<rparr>)"
    using x assms(2) by (simp add: seat_of_upd_kbd)
  then have i: "weston_seat_init_keyboard i ?r = qdwin_on_seat_updated_caps i (upd_kbd i (\<lambda>k. k\<lparr>kb_devices := kb_devices k + 1\<rparr>) ?r)"
    and g: "weston_seat_get_keyboard (upd_kbd i (\<lambda>k. k\<lparr>kb_devices := kb_devices k + 1\<rparr>) ?r) i = Some (k\<lparr>kb_devices := 1, kb_focus := None\<rparr>)"
    by (simp_all add: weston_seat_init_keyboard_def get_keyboard_upd)
  have a: "\<not> overlay_grab_active (weston_seat_init_keyboard i ?r)"
    using r(2) unfolding i by simp
  moreover have "kbd_grab_of (weston_seat_init_keyboard i ?r) i = Some Overlay_grab"
    using g assms(3) grab_of_cong [of "weston_seat_init_keyboard i ?r" "upd_kbd i (\<lambda>k. k\<lparr>kb_devices := kb_devices k + 1\<rparr>) ?r" i]
    by (simp add: i kbd_grab_of_def)
  ultimately show ?thesis
    by (simp add: end_lock_grab_def)
qed

theorem replugged_keyboard_keeps_overlay_grab_witness:
  "kbd_grab_of (end_lock_grab (weston_seat_init_keyboard 5 (weston_seat_release_keyboard 5 demo_grabbed))) 5 = Some Overlay_grab"
  using replugged_keyboard_keeps_overlay_grab [of demo_grabbed 5 "demo_kb\<lparr>kb_grab := Overlay_grab\<rparr>"]
  by (simp add: demo_grabbed_simps demo_kb_def)

text \<open>A lock that starts while the window switcher holds the keyboard leaves the switcher's
  own flag set for good: after the unlock the keyboard is back with the default grab and the
  chord of the switcher does nothing.\<close>

theorem lock_over_switcher_disables_it:
  assumes "switcher_grab_active s" and "\<not> overlay_grab_active s" and "first_keyboard s = Some kb"
  shows "switcher_grab_active (end_lock_grab (qdwin_overlay_grab_start 2 s))
    \<and> qdwin_on_switcher_key kb' (end_lock_grab (qdwin_overlay_grab_start 2 s)) = end_lock_grab (qdwin_overlay_grab_start 2 s)"
proof -
  have "switcher_grab_active (qdwin_overlay_grab_start 2 s)"
    using assms by (simp add: qdwin_overlay_grab_start_def set_grab_def weston_keyboard_start_grab_def)
  moreover have "switcher_grab_active (end_lock_grab u) = switcher_grab_active u" for u
    by (simp add: end_lock_grab_def qdwin_overlay_grab_end_def Let_def set_grab_def emit_def weston_keyboard_end_grab_def)
  ultimately show ?thesis
    by (simp add: qdwin_on_switcher_key_def qdwin_switcher_grab_start_def)
qed

theorem lock_over_switcher_disables_it_witness:
  "switcher_grab_active (end_lock_grab (qdwin_overlay_grab_start 2
     (demo_grabbed\<lparr>switcher_grab_active := True, overlay_grab_active := False\<rparr>)))"
proof -
  have "first_keyboard (demo_grabbed\<lparr>switcher_grab_active := True, overlay_grab_active := False\<rparr>) = Some 7"
    by (simp add: demo_grabbed_def demo_locked_kb_simps first_keyboard_def map_filter_simps)
  then show ?thesis
    by (intro conjunct1 [OF lock_over_switcher_disables_it [where kb = 7]]) simp_all
qed

section \<open>Locking ends the streams\<close>

lemma fold_unset_streams [simp]: "view_streams (qdwin_hide_non_lock_layers s) = view_streams s"
  unfolding qdwin_hide_non_lock_layers_def by (rule fold_keeps) (simp add: weston_layer_unset_position_def)

lemma curtain_streams [simp]:
  "view_streams (qdwin_lock_curtain_to_bottom s) = view_streams s"
  "view_streams (qdwin_remove_lock_curtain s) = view_streams s"
  "view_streams (qdwin_install_lock_curtain s) = view_streams s"
  by (simp_all add: qdwin_lock_curtain_to_bottom_def qdwin_remove_lock_curtain_def
      qdwin_install_lock_curtain_def weston_shell_utils_curtain_create_def Let_def split: option.split)

lemma geo_view_streams: "geo_frame a = geo_frame b \<Longrightarrow> view_streams a = view_streams b"
  unfolding geo_frame_def by (rule geoless_frame) simp

lemma promote_streams [simp]:
  "view_streams (qdwin_demote_lock_toplevel s) = view_streams s"
  "view_streams (qdwin_maybe_promote_lock_toplevel t s) = view_streams s"
proof -
  show "view_streams (qdwin_demote_lock_toplevel s) = view_streams s" for s
    by (simp add: qdwin_demote_lock_toplevel_def Let_def split: option.split)
  then show "view_streams (qdwin_maybe_promote_lock_toplevel t s) = view_streams s"
    by (simp add: qdwin_maybe_promote_lock_toplevel_def Let_def geo_view_streams [OF geo_frame_set_fullscreen])
qed

lemma promote_fold_streams [simp]:
  "view_streams (fold (\<lambda>k u. case qdwin_toplevel_from_handle u k of
      None \<Rightarrow> u | Some t \<Rightarrow> qdwin_maybe_promote_lock_toplevel t u) ks s) = view_streams s"
  by (rule fold_keeps) (simp split: option.split)



end
