(* ===== verification/Lifecycle.thy ===== *)
theory Lifecycle
  imports Lock
begin

text \<open>The life of a window: the callbacks of libweston-desktop when a client's surface appears,
  commits and goes away, what the shell is told about it, and how a shell binds and gets the
  windows replayed. A surface's attributes that libweston-desktop keeps (peer, title, app id,
  committed geometry, security tag) come with the event that reports them.\<close>

section \<open>What the shell is told\<close>

definition qdwin_client_uid :: "toplevel \<Rightarrow> uid_t" where
  "qdwin_client_uid t = (case tl_peer t of None \<Rightarrow> UID_NONE | Some (pid, uid) \<Rightarrow> uid)"

definition qdwin_toplevel_is_xwayland :: "toplevel \<Rightarrow> bool" where
  "qdwin_toplevel_is_xwayland t \<longleftrightarrow> \<not> tl_is_nested_proxy t \<and> tl_desktop_surface t \<and> tl_is_xwayland t"

definition nonempty :: "string option \<Rightarrow> bool" where
  "nonempty x \<longleftrightarrow> x \<noteq> None \<and> x \<noteq> Some []"

definition or_empty :: "string option \<Rightarrow> string" where
  "or_empty x = (case x of None \<Rightarrow> [] | Some y \<Rightarrow> y)"

definition qdwin_toplevel_effective_app_id :: "toplevel \<Rightarrow> string option" where
  "qdwin_toplevel_effective_app_id t =
     (if tl_is_nested_proxy t \<or> \<not> tl_desktop_surface t then None
      else if nonempty (tl_app_id t) then tl_app_id t
      else if \<not> qdwin_toplevel_is_xwayland t then tl_app_id t
      else if nonempty (tl_wm_class t) then tl_wm_class t else tl_app_id t)"

definition lo32 :: "u64 \<Rightarrow> u32" where "lo32 w = ucast w"
definition hi32 :: "u64 \<Rightarrow> u32" where "hi32 w = ucast (drop_bit 32 w)"

definition qdwin_send_toplevel_security_context :: "toplevel \<Rightarrow> qdwin \<Rightarrow> qdwin" where
  "qdwin_send_toplevel_security_context t s =
     (if \<not> qdwin_shell_can_receive 13 s then s
      else case tl_secctx t of
             None \<Rightarrow> s
           | Some c \<Rightarrow>
               (let s1 = emit (Shell (toplevel_security_context (tl_handle t) (sc_engine c) (sc_app_id c) (sc_instance c))) s
                in if tl_is_nested_proxy t then s1
                   else send_shell 22 (toplevel_peer_identity (tl_handle t) (sc_peer_pid c)
                          (lo32 (sc_peer_starttime c)) (hi32 (sc_peer_starttime c)) (sc_peer_uid c)
                          (sc_peer_exe c) (sc_peer_label c)) s1))"

definition qdwin_emit_toplevel_app_id :: "toplevel \<Rightarrow> string \<Rightarrow> qdwin \<Rightarrow> qdwin" where
  "qdwin_emit_toplevel_app_id t a = send_shell 31 (Wm_State.toplevel_app_id (tl_handle t) a)"

definition qdwin_emit_nested_proxy_remote_identity :: "toplevel \<Rightarrow> qdwin \<Rightarrow> qdwin" where
  "qdwin_emit_nested_proxy_remote_identity t s =
     (case tl_proxy_remote t of
        None \<Rightarrow> s
      | Some r \<Rightarrow>
          if tl_is_nested_proxy t
          then send_shell 34 (nested_proxy_remote_identity (tl_handle t) (ri_source_machine r)
                 (ri_trust_domain r) (ri_stream r) (hi32 (ri_generation r)) (lo32 (ri_generation r))) s
          else s)"

text \<open>The caches are set whether or not a shell is bound.\<close>

definition announced_app_id :: "toplevel \<Rightarrow> string" where
  "announced_app_id t =
     or_empty (if tl_is_nested_proxy t then tl_app_id t else qdwin_toplevel_effective_app_id t)"

definition announced_uid :: "toplevel \<Rightarrow> uid_t" where
  "announced_uid t = (if tl_is_nested_proxy t then tl_proxy_origin_uid t else qdwin_client_uid t)"

definition qdwin_send_toplevel_added :: "u32 \<Rightarrow> qdwin \<Rightarrow> qdwin" where
  "qdwin_send_toplevel_added k s =
     (case qdwin_toplevel_from_handle s k of
        None \<Rightarrow> s
      | Some t \<Rightarrow>
          (let a = announced_app_id t; ti = or_empty (tl_title t);
               s1 = upd_tl k (\<lambda>t. t\<lparr>tl_cached_title := Some ti, tl_cached_app_id := Some a\<rparr>) s
           in if \<not> qdwin_shell_can_receive 0 s1 then s1
              else qdwin_emit_toplevel_workspace t
                     (qdwin_emit_nested_proxy_remote_identity t
                       (qdwin_send_toplevel_security_context t
                         (emit (Shell (toplevel_added k (announced_uid t) a ti (qdwin_toplevel_is_xwayland t))) s1)))))"

section \<open>A surface appears\<close>

text \<open>The argument \<open>d\<close> carries what libweston-desktop knows of the new surface \<open>sf\<close>.\<close>

definition new_toplevel :: "toplevel \<Rightarrow> u32 \<Rightarrow> view \<Rightarrow> nat \<Rightarrow> toplevel" where
  "new_toplevel d k v ws = zero_toplevel\<lparr>tl_handle := k, tl_view := v, tl_desktop_surface := True,
     tl_peer := tl_peer d, tl_title := tl_title d, tl_app_id := tl_app_id d,
     tl_is_xwayland := tl_is_xwayland d, tl_wm_class := tl_wm_class d, tl_geometry := tl_geometry d,
     tl_secctx := tl_secctx d, tl_workspace := ws\<rparr>"

definition qdwin_surface_added :: "surface \<Rightarrow> toplevel \<Rightarrow> qdwin \<Rightarrow> qdwin" where
  "qdwin_surface_added sf d s =
     (let v = next_id s; k = next_handle s + 1; t = new_toplevel d k v (active_workspace s);
          s1 = s\<lparr>next_id := v + 1, next_handle := k, toplevels := t # toplevels s,
                 view_surface := (view_surface s)(v := sf), view_mapped := (view_mapped s)(v := False),
                 view_pos := (view_pos s)(v := (0, 0))\<rparr>
      in if nested_mode s then weston_view_move_to_layer v Normal_layer s1
         else
           let s2 = weston_view_move_to_layer v Held_layer s1;
               s3 = qdwin_toplevel_release_holding k False (qdwin_send_toplevel_added k s2)
           in case qdwin_toplevel_from_handle s3 k of
                None \<Rightarrow> s3
              | Some t' \<Rightarrow> qdwin_maybe_promote_lock_toplevel t' s3)"

section \<open>A surface goes away\<close>

definition qdwin_move_grab_end_for :: "u32 \<Rightarrow> qdwin \<Rightarrow> qdwin" where
  "qdwin_move_grab_end_for k s = (if move_grab s = Some k then s\<lparr>move_grab := None\<rparr> else s)"

text \<open>The popup of the window is torn down with the popups; here are the other dependents.\<close>

definition qdwin_toplevel_release_dependents :: "u32 \<Rightarrow> qdwin \<Rightarrow> qdwin" where
  "qdwin_toplevel_release_dependents k s = terminate_for k (qdwin_move_grab_end_for k s)"

definition forget_lock_toplevel :: "toplevel \<Rightarrow> qdwin \<Rightarrow> qdwin" where
  "forget_lock_toplevel t s =
     (if lock_toplevel s \<noteq> Some (tl_handle t) then s
      else
        let s1 = s\<lparr>lock_toplevel := None\<rparr>
        in if lock_view s1 = Some (tl_view t)
           then s1\<lparr>lock_view := None, lock_surface := None, lock_view_is_toplevel := False\<rparr> else s1)"

definition qdwin_surface_removed :: "u32 \<Rightarrow> qdwin \<Rightarrow> qdwin" where
  "qdwin_surface_removed k s =
     (case qdwin_toplevel_from_handle s k of
        None \<Rightarrow> s
      | Some t \<Rightarrow>
          (let s1 = forget_lock_toplevel t s;
               s2 = (if nested_mode s1 then s1 else qdwin_send_toplevel_removed t s1);
               s3 = qdwin_toplevel_release_dependents k s2;
               s4 = fold (qdwin_chrome_detach k) all_sides s3;
               s5 = weston_view_destroy (tl_view t) s4
           in s5\<lparr>toplevels := [u \<leftarrow> toplevels s5. tl_handle u \<noteq> k]\<rparr>))"

section \<open>A surface commits\<close>

text \<open>The title and the app id are compared with what the shell was told last.\<close>

definition diff_title :: "u32 \<Rightarrow> qdwin \<Rightarrow> qdwin" where
  "diff_title k s =
     (case qdwin_toplevel_from_handle s k of
        None \<Rightarrow> s
      | Some t \<Rightarrow>
          (let cur = or_empty (tl_title t)
           in if tl_cached_title t = Some cur then s
              else send_shell 0 (Wm_State.toplevel_title k cur)
                     (upd_tl k (\<lambda>t. t\<lparr>tl_cached_title := Some cur\<rparr>) s)))"

definition diff_app_id :: "u32 \<Rightarrow> qdwin \<Rightarrow> qdwin" where
  "diff_app_id k s =
     (case qdwin_toplevel_from_handle s k of
        None \<Rightarrow> s
      | Some t \<Rightarrow>
          (let cur = or_empty (qdwin_toplevel_effective_app_id t)
           in if tl_cached_app_id t = Some cur then s
              else qdwin_emit_toplevel_app_id t cur
                     (upd_tl k (\<lambda>t. t\<lparr>tl_cached_app_id := Some cur\<rparr>) s)))"

text \<open>The feedback loop for XWayland windows: a commit that answers a configure teaches the extent
  of the client's own frame; the target is asked for again at most three times.\<close>

definition learn_frame :: "int \<Rightarrow> int \<Rightarrow> int \<Rightarrow> int \<Rightarrow> int" where
  "learn_frame frame actual before sent =
     (if actual \<noteq> before \<and> 0 \<le> actual - sent then actual - sent else frame)"

definition xw_step :: "int \<times> int \<Rightarrow> int \<times> int \<Rightarrow> xwayland_fb \<Rightarrow> (xwayland_fb \<times> (int \<times> int) option) option" where
  "xw_step sz g x =
     (let aw = or_default (fst sz) (fst g); ah = or_default (snd sz) (snd g)
      in if aw = xw_before_w x \<and> ah = xw_before_h x then Some (x, None)
         else
           let x1 = x\<lparr>xw_frame_w := learn_frame (xw_frame_w x) aw (xw_before_w x) (xw_sent_w x),
                      xw_frame_h := learn_frame (xw_frame_h x) ah (xw_before_h x) (xw_sent_h x)\<rparr>
           in if aw = xw_target_w x1 \<and> ah = xw_target_h x1 then Some (x1\<lparr>xw_configure_pending := False\<rparr>, None)
              else if xw_corrections x1 < 3 then do {
                cw \<leftarrow> qdwin_client_extent_for_geometry (xw_target_w x1) (fst sz) (fst g) (xw_frame_w x1);
                ch \<leftarrow> qdwin_client_extent_for_geometry (xw_target_h x1) (snd sz) (snd g) (xw_frame_h x1);
                Some (x1\<lparr>xw_before_w := aw, xw_before_h := ah, xw_sent_w := cw, xw_sent_h := ch,
                         xw_corrections := xw_corrections x1 + 1\<rparr>, Some (cw, ch)) }
              else Some (x1\<lparr>xw_configure_pending := False\<rparr>, None))"

definition xw_feedback :: "u32 \<Rightarrow> qdwin \<Rightarrow> qdwin" where
  "xw_feedback k s =
     (case qdwin_toplevel_from_handle s k of
        None \<Rightarrow> s
      | Some t \<Rightarrow>
          if \<not> (xw_configure_pending (tl_xw t) \<and> qdwin_toplevel_is_xwayland t) then s
          else case xw_step (content_size s t) (tl_geometry t) (tl_xw t) of
                 None \<Rightarrow> s\<lparr>ub := True\<rparr>
               | Some (x, cfg) \<Rightarrow>
                   (let s1 = upd_tl k (\<lambda>t. t\<lparr>tl_xw := x\<rparr>) s
                    in case cfg of None \<Rightarrow> s1 | Some (w, h) \<Rightarrow> emit (Window (set_size k w h)) s1))"

definition sync_restore :: "u32 \<Rightarrow> qdwin \<Rightarrow> qdwin" where
  "sync_restore k s =
     (case qdwin_toplevel_from_handle s k of
        None \<Rightarrow> s
      | Some t \<Rightarrow>
          if has_ts (tl_state t) (QDWIN_TS_MAXIMIZED OR QDWIN_TS_FULLSCREEN) \<or> tl_tiled t \<noteq> 0
             \<or> xw_configure_pending (tl_xw t)
          then s
          else
            let (sw, sh) = content_size s t; xw = qdwin_toplevel_is_xwayland t;
                iw = qdwin_committed_restore_extent xw sw (fst (tl_geometry t));
                ih = qdwin_committed_restore_extent xw sh (snd (tl_geometry t))
            in if 0 < iw \<and> 0 < ih
               then upd_tl k (\<lambda>t. t\<lparr>tl_outer_width := iw + tl_inset_w t + tl_inset_e t,
                                    tl_outer_height := ih + tl_inset_n t + tl_inset_s t\<rparr>) s
               else s)"

definition first_map :: "u32 \<Rightarrow> qdwin \<Rightarrow> qdwin" where
  "first_map k s =
     (case qdwin_toplevel_from_handle s k of
        None \<Rightarrow> s
      | Some t \<Rightarrow>
          (let sf = view_surface s (tl_view t)
           in if surface_mapped s sf then s
              else
                let s1 = upd_tl k (\<lambda>t. t\<lparr>tl_mapped := True\<rparr>) (s\<lparr>surface_mapped := (surface_mapped s)(sf := True)\<rparr>);
                    s2 = (if has_ts (tl_state t) QDWIN_TS_FULLSCREEN
                          then qdwin_toplevel_apply_fullscreen_geometry k None s1
                          else case qdwin_primary_output s1 of
                                 None \<Rightarrow> s1
                               | Some o1 \<Rightarrow>
                                   (let (cx, cy) = qdwin_compute_placement s1 k (content_size s1 t) o1
                                    in weston_view_set_position (tl_view t) (at_int (max 0 cx) (max 0 cy)) s1))
                in qdwin_toplevel_autofocus_if_ready k s2))"

definition report_size :: "u32 \<Rightarrow> qdwin \<Rightarrow> qdwin" where
  "report_size k s =
     (case qdwin_toplevel_from_handle s k of
        None \<Rightarrow> s
      | Some t \<Rightarrow>
          (let (w, h) = content_size s t
           in if tl_last_width t = w \<and> tl_last_height t = h then s
              else
                let s1 = upd_tl k (\<lambda>t. t\<lparr>tl_last_width := w, tl_last_height := h\<rparr>) s;
                    (x, y) = view_pos s (tl_view t);
                    s2 = send_shell 0 (toplevel_geometry k (c_int (x - of_int (tl_inset_w t)))
                           (c_int (y - of_int (tl_inset_n t))) w h) s1
                in if tl_decorated t then qdwin_toplevel_position_chrome k s2 else s2))"

text \<open>In nested mode the surface is only mapped here; publishing it is the nested client's part.\<close>

definition qdwin_surface_committed :: "u32 \<Rightarrow> qdwin \<Rightarrow> qdwin" where
  "qdwin_surface_committed k s =
     (case qdwin_toplevel_from_handle s k of
        None \<Rightarrow> s
      | Some t \<Rightarrow>
          if fst (content_size s t) = 0 then s
          else if nested_mode s
          then (if surface_mapped s (view_surface s (tl_view t)) then s
                else upd_tl k (\<lambda>t. t\<lparr>tl_mapped := True\<rparr>)
                       (s\<lparr>surface_mapped := (surface_mapped s)(view_surface s (tl_view t) := True)\<rparr>))
          else report_size k (first_map k (sync_restore k (xw_feedback k (diff_app_id k (diff_title k s))))))"

section \<open>A shell binds\<close>

definition qdwin_send_output_created_evt :: "weston_output \<Rightarrow> qdwin \<Rightarrow> qdwin" where
  "qdwin_send_output_created_evt o1 = send_shell 2 (output_created (o_name o1))"

definition qdwin_send_output_removed :: "weston_output \<Rightarrow> qdwin \<Rightarrow> qdwin" where
  "qdwin_send_output_removed o1 = send_shell 2 (output_removed (o_name o1))"

definition bind_qdwin_shell :: "(pid_t \<Rightarrow> process) \<Rightarrow> wl_client \<Rightarrow> nat \<Rightarrow> qdwin \<Rightarrow> wl_resource option \<times> qdwin" where
  "bind_qdwin_shell proc c version s =
     (let refuse = (None, emit (Post_error (cl_id c) ERROR_IMPLEMENTATION) s);
          exe = qdwin_proc_exe (cl_pid c) (proc (cl_pid c))
      in if cl_uid c \<noteq> allowed_uid s then refuse
         else if shell_bound s \<and> \<not> qdwin_client_is_bound_shell s c
                 \<and> \<not> (qdwin_nested_pixelfeed_peer_allowed (Some exe) \<or> qdwin_cursor_sprite_peer_allowed (Some exe))
         then refuse
         else if qdwin_secctx_client_find s c \<noteq> None then refuse
         else (Some \<lparr>res_id = next_id s, res_client = c, res_version = version\<rparr>,
               emit (Shell (shell_hello (cl_uid c))) (s\<lparr>next_id := next_id s + 1\<rparr>)))"

definition qdwin_handle_bind_as_shell :: "wl_resource \<Rightarrow> qdwin \<Rightarrow> qdwin" where
  "qdwin_handle_bind_as_shell r s =
     (if shell_bound s \<and> shell_resource s \<noteq> Some r then emit (Post_error (res_id r) ERROR_ALREADY_BOUND) s
      else
        let s1 = s\<lparr>shell_bound := True, shell_resource := Some r, shell_pid := cl_pid (res_client r),
                   shell_uid := cl_uid (res_client r)\<rparr>;
            s2 = fold qdwin_send_toplevel_added (map tl_handle (toplevels s1)) s1;
            s3 = (if 2 \<le> res_version r
                  then fold qdwin_send_output_created_evt (outputs s2)
                         (fold qdwin_send_seat_created (map seat_id (seats s2)) s2)
                  else s2)
        in if 14 \<le> res_version r then qdwin_replay_seat_focus_for_shell s3 else s3)"

definition qdwin_om_client_may_mutate :: "wl_client \<Rightarrow> qdwin \<Rightarrow> bool" where
  "qdwin_om_client_may_mutate c s \<longleftrightarrow>
     qdwin_secctx_client_find s c = None \<and>
     qdwin_om_mutation_allowed (qdwin_client_is_bound_shell s c) (shell_bound s \<and> shell_resource s \<noteq> None)
       (cl_pid c) (cl_uid c) (shell_pid s) (shell_uid s) (allowed_uid s)"

section \<open>The XWayland feedback loop\<close>

text \<open>The commits of a client, each with the surface size and the window geometry; the configures
  the loop answers with.\<close>

fun xw_run :: "((int \<times> int) \<times> (int \<times> int)) list \<Rightarrow> xwayland_fb \<Rightarrow> (xwayland_fb \<times> (int \<times> int) list) option" where
  "xw_run [] x = Some (x, [])"
| "xw_run ((sz, g) # cs) x =
     (if \<not> xw_configure_pending x then Some (x, [])
      else case xw_step sz g x of
             None \<Rightarrow> None
           | Some (x', cfg) \<Rightarrow>
               (case xw_run cs x' of
                  None \<Rightarrow> None
                | Some (x'', cfgs) \<Rightarrow> Some (x'', (case cfg of None \<Rightarrow> [] | Some c \<Rightarrow> [c]) @ cfgs)))"

lemma extent_kernel:
  assumes "in_i32 t" and "in_i32 a" and "0 \<le> f" and "in_i32 f" and "0 < t - f"
  shows "qdwin_client_extent_for_geometry t a a f = Some (t - f)"
  using assms by (auto simp: qdwin_client_extent_for_geometry_def i64_def in_i64_def in_i32_def INT32_MAX_def Let_def)

lemma xw_step_corrections:
  assumes "xw_step sz g x = Some (x', cfg)"
  shows "xw_corrections x' = xw_corrections x + (if cfg = None then 0 else 1)"
    and "cfg \<noteq> None \<longrightarrow> xw_corrections x < 3"
  using assms by (auto simp: xw_step_def Let_def bind_eq_Some_conv split: if_splits)

text \<open>C19: However a client answers, the feedback loop sends at most three corrective configures for
  one request of the window manager.\<close>

theorem xw_corrections_bounded:
  assumes "xw_run cs x = Some (x', cfgs)"
  shows "length cfgs + xw_corrections x \<le> max 3 (xw_corrections x)"
  using assms
proof (induction cs arbitrary: x x' cfgs)
  case (Cons c cs)
  obtain sz g where c: "c = (sz, g)" by (cases c)
  show ?case
  proof (cases "xw_configure_pending x")
    case True
    then obtain y cfg o1 where y: "xw_step sz g x = Some (y, cfg)" and r: "xw_run cs y = Some (x', o1)"
      and cf: "cfgs = (case cfg of None \<Rightarrow> [] | Some c \<Rightarrow> [c]) @ o1"
      using Cons.prems c by (auto split: option.splits)
    show ?thesis
      using Cons.IH [OF r] xw_step_corrections [OF y] cf by (cases cfg) auto
  qed (use Cons.prems c in auto)
qed simp

definition demo_xw :: xwayland_fb where
  "demo_xw = zero_xw\<lparr>xw_target_w := 800, xw_target_h := 600, xw_sent_w := 800, xw_sent_h := 600,
     xw_configure_pending := True\<rparr>"

theorem xw_corrections_bounded_witness:
  "\<exists>y. xw_run [((864, 664), (864, 664))] demo_xw = Some (y, [(736, 536)])
    \<and> length [(736 :: int, 536 :: int)] + xw_corrections demo_xw \<le> max 3 (xw_corrections demo_xw)"
proof -
  have "\<exists>y. xw_run [((864, 664), (864, 664))] demo_xw = Some (y, [(736, 536)])"
    by (simp add: demo_xw_def zero_xw_def xw_step_def or_default_def learn_frame_def Let_def extent_kernel in_i32_def)
  then obtain y where y: "xw_run [((864, 664), (864, 664))] demo_xw = Some (y, [(736, 536)])" ..
  show ?thesis
    using y xw_corrections_bounded [OF y] by blast
qed

text \<open>A client that adds a frame of its own of constant extent to every size it is asked for.\<close>

definition answers :: "int \<times> int \<Rightarrow> xwayland_fb \<Rightarrow> (int \<times> int) \<times> (int \<times> int)" where
  "answers f x = (let a = (xw_sent_w x + fst f, xw_sent_h x + snd f) in (a, a))"

primrec xw_dialogue :: "nat \<Rightarrow> int \<times> int \<Rightarrow> xwayland_fb \<Rightarrow> xwayland_fb option" where
  "xw_dialogue 0 f x = Some x"
| "xw_dialogue (Suc n) f x =
     (if \<not> xw_configure_pending x then Some x
      else case xw_step (fst (answers f x)) (snd (answers f x)) x of
             None \<Rightarrow> None | Some (x', _) \<Rightarrow> xw_dialogue n f x')"

definition xw_sane :: "int \<times> int \<Rightarrow> xwayland_fb \<Rightarrow> bool" where
  "xw_sane f x \<longleftrightarrow> 0 \<le> fst f \<and> 0 \<le> snd f \<and> fst f < xw_target_w x \<and> snd f < xw_target_h x
     \<and> in_i32 (fst f) \<and> in_i32 (snd f) \<and> in_i32 (xw_target_w x) \<and> in_i32 (xw_target_h x)
     \<and> 0 < xw_sent_w x + fst f \<and> 0 < xw_sent_h x + snd f
     \<and> in_i32 (xw_sent_w x + fst f) \<and> in_i32 (xw_sent_h x + snd f)"

text \<open>C20: A client that answers every configure with a surface larger by a constant frame is at the
  requested size after at most one corrective configure, provided its first answer differs
  from its previous size on both axes: the loop ends, the frame is learned and the last
  configure plus the frame is the target.\<close>

theorem xw_converges:
  assumes "xw_sane f x" and "xw_configure_pending x" and "xw_corrections x < 3"
    and "xw_sent_w x + fst f \<noteq> xw_before_w x" and "xw_sent_h x + snd f \<noteq> xw_before_h x"
  shows "\<exists>y. xw_dialogue 2 f x = Some y \<and> \<not> xw_configure_pending y
    \<and> xw_target_w y = xw_target_w x \<and> xw_target_h y = xw_target_h x
    \<and> xw_sent_w y + fst f = xw_target_w x \<and> xw_sent_h y + snd f = xw_target_h x
    \<and> xw_frame_w y = fst f \<and> xw_frame_h y = snd f"
proof (cases "xw_sent_w x + fst f = xw_target_w x \<and> xw_sent_h x + snd f = xw_target_h x")
  case True
  then show ?thesis
    using assms by (simp add: numeral_2_eq_2 xw_step_def answers_def or_default_def Let_def learn_frame_def xw_sane_def)
next
  case False
  let ?y = "x\<lparr>xw_frame_w := fst f, xw_frame_h := snd f, xw_before_w := xw_sent_w x + fst f, xw_before_h := xw_sent_h x + snd f,
             xw_sent_w := xw_target_w x - fst f, xw_sent_h := xw_target_h x - snd f, xw_corrections := xw_corrections x + 1\<rparr>"
  have k: "qdwin_client_extent_for_geometry (xw_target_w x) (xw_sent_w x + fst f) (xw_sent_w x + fst f) (fst f) = Some (xw_target_w x - fst f)"
    "qdwin_client_extent_for_geometry (xw_target_h x) (xw_sent_h x + snd f) (xw_sent_h x + snd f) (snd f) = Some (xw_target_h x - snd f)"
    using assms(1) by (auto simp: xw_sane_def intro!: extent_kernel)
  have "xw_step (fst (answers f x)) (snd (answers f x)) x = Some (?y, Some (xw_target_w x - fst f, xw_target_h x - snd f))"
    using assms False k by (simp add: xw_step_def answers_def or_default_def Let_def learn_frame_def xw_sane_def)
  moreover have "xw_step (fst (answers f ?y)) (snd (answers f ?y)) ?y = Some (?y\<lparr>xw_configure_pending := False\<rparr>, None)"
    using assms False by (auto simp: xw_step_def answers_def or_default_def Let_def learn_frame_def xw_sane_def)
  ultimately show ?thesis
    using assms(2) by (simp add: numeral_2_eq_2)
qed
theorem xw_converges_witness:
  "\<exists>y. xw_dialogue 2 (64, 64) (demo_xw) = Some y
    \<and> \<not> xw_configure_pending y \<and> xw_sent_w y + 64 = 800 \<and> xw_sent_h y + 64 = 600"
  using xw_converges [of "(64, 64)" demo_xw]
  by (auto simp: demo_xw_def xw_sane_def zero_xw_def in_i32_def)

text \<open>A client whose answer happens to be its previous size is not recognised as having answered:
  however often it commits, the request stays pending and nothing is sent, although the size
  is not the one asked for.\<close>

theorem xw_same_size_answer_never_settles:
  assumes "xw_configure_pending x" and "0 < xw_before_w x" and "0 < xw_before_h x"
    and "xw_sent_w x + fst f = xw_before_w x" and "xw_sent_h x + snd f = xw_before_h x"
  shows "xw_dialogue n f x = Some x"
  using assms by (induction n) (auto simp: xw_step_def answers_def or_default_def Let_def)

theorem xw_same_size_answer_never_settles_witness:
  "xw_dialogue 9 (64, 64) (zero_xw\<lparr>xw_target_w := 800, xw_target_h := 600, xw_sent_w := 800, xw_sent_h := 600,
      xw_before_w := 864, xw_before_h := 664, xw_configure_pending := True\<rparr>)
   = Some (zero_xw\<lparr>xw_target_w := 800, xw_target_h := 600, xw_sent_w := 800, xw_sent_h := 600,
      xw_before_w := 864, xw_before_h := 664, xw_configure_pending := True\<rparr>)"
  by (rule xw_same_size_answer_never_settles) (simp_all add: zero_xw_def)

section \<open>Quiet operations\<close>

text \<open>A projection of the trace that ignores focus changes, calls to windows, streams, seats, states
  and geometry is not changed by the operations that only do such things.\<close>

locale quiet_trace =
  fixes P :: "effect \<Rightarrow> bool"
  assumes quiet: "\<not> P (Seat c)" "\<not> P (Window w)" "\<not> P (Stream e)" "\<not> P (Shell (seat_focus_changed n k))"
    "\<not> P (Shell (seat_removed n))" "\<not> P (Shell (toplevel_state k b))" "\<not> P (Shell (toplevel_geometry k x y u v))"
begin

definition tr :: "qdwin \<Rightarrow> effect list" where
  "tr s = filter P (out s)"

lemma tr_cong: "out a = out b \<Longrightarrow> tr a = tr b"
  by (simp add: tr_def)

lemma tr_emit: "tr (emit e s) = (if P e then tr s @ [e] else tr s)"
  by (simp add: tr_def emit_def)

lemma tr_emit_quiet [simp]: "\<not> P e \<Longrightarrow> tr (emit e s) = tr s"
  by (simp add: tr_emit)

lemma tr_send_shell: "\<not> P (Shell e) \<Longrightarrow> tr (send_shell n e s) = tr s"
  by (simp add: send_shell_def)

lemma tr_upd [simp]:
  "tr (upd_tl k f s) = tr s" "tr (upd_seat i u s) = tr s" "tr (upd_kbd i w s) = tr s" "tr (upd_tracker i v s) = tr s"
  "tr (upd_stream n g s) = tr s" "tr (weston_view_set_position x q s) = tr s"
  by (rule tr_cong, simp add: upd_kbd_def upd_seat_def upd_tracker_def upd_stream_def weston_view_set_position_def)+

lemma tr_fields [simp]:
  "tr (s\<lparr>layer_views := a\<rparr>) = tr s" "tr (s\<lparr>view_mapped := b\<rparr>) = tr s" "tr (s\<lparr>seats := c\<rparr>) = tr s"
  "tr (s\<lparr>seat_trackers := d\<rparr>) = tr s" "tr (s\<lparr>ub := e\<rparr>) = tr s" "tr (s\<lparr>move_grab := f\<rparr>) = tr s"
  "tr (s\<lparr>overlay_grab_active := e\<rparr>) = tr s" "tr (s\<lparr>switcher_grab_active := e\<rparr>) = tr s"
  "tr (s\<lparr>view_streams := g\<rparr>) = tr s" "tr (s\<lparr>dead_streams := h\<rparr>) = tr s" "tr (s\<lparr>toplevels := i\<rparr>) = tr s"
  "tr (s\<lparr>lock_view := j\<rparr>) = tr s" "tr (s\<lparr>lock_surface := l\<rparr>) = tr s" "tr (s\<lparr>lock_view_is_toplevel := e\<rparr>) = tr s"
  "tr (s\<lparr>lock_toplevel := m\<rparr>) = tr s" "tr (s\<lparr>next_id := n\<rparr>) = tr s" "tr (s\<lparr>view_surface := p\<rparr>) = tr s"
  "tr (s\<lparr>view_pos := q\<rparr>) = tr s" "tr (s\<lparr>surface_mapped := r\<rparr>) = tr s" "tr (s\<lparr>surface_client := t\<rparr>) = tr s"
  "tr (s\<lparr>surface_size := u\<rparr>) = tr s" "tr (s\<lparr>next_handle := v\<rparr>) = tr s"
  by (rule tr_cong, simp)+

lemma tr_focus [simp]:
  "tr (qdwin_emit_seat_focus_changed i h s) = tr s"
  "tr (qdwin_seat_emit_focus_now i s) = tr s"
  "tr (qdwin_on_keyboard_focus_changed i s) = tr s"
  "tr (weston_keyboard_set_focus i so s) = tr s"
  "tr (weston_view_activate_input v i s) = tr s"
proof -
  show a: "tr (qdwin_emit_seat_focus_changed i h s) = tr s" for i h s
    by (simp add: qdwin_emit_seat_focus_changed_def tr_send_shell quiet)
  show b: "tr (qdwin_seat_emit_focus_now i s) = tr s" for i s
    by (simp add: qdwin_seat_emit_focus_now_def a Let_def split: option.split)
  show c: "tr (qdwin_on_keyboard_focus_changed i s) = tr s" for i s
    by (simp add: qdwin_on_keyboard_focus_changed_def b quiet)
  have "tr (fold (\<lambda>t. qdwin_on_keyboard_focus_changed (tr_seat t)) xs u) = tr u" for xs :: "seat_tracker list" and u
    by (rule fold_keeps) (rule c)
  then show d: "tr (weston_keyboard_set_focus i so s) = tr s" for i so s
    by (simp add: weston_keyboard_set_focus_def Let_def split: option.split)
  show "tr (weston_view_activate_input v i s) = tr s"
    by (simp add: weston_view_activate_input_def weston_seat_set_keyboard_focus_def d quiet)
qed

lemma tr_scene [simp]:
  "tr (weston_view_unmap v s) = tr s" "tr (weston_view_move_to_layer v L s) = tr s" "tr (weston_view_destroy v s) = tr s"
  "tr (qdwin_toplevel_move_to_layer t L s) = tr s"
proof -
  have "tr (fold (\<lambda>i t. if kbd_focus t i = so then weston_keyboard_set_focus i None t else t) xs u) = tr u" for xs so u
    by (rule fold_keeps) simp
  then show u: "tr (weston_view_unmap v s) = tr s" for v s
    by (simp add: weston_view_unmap_def Let_def)
  show m: "tr (weston_view_move_to_layer v L s) = tr s" for v s
    by (simp add: weston_view_move_to_layer_def Let_def u)
  show "tr (weston_view_destroy v s) = tr s"
    by (simp add: weston_view_destroy_def Let_def u)
  show "tr (qdwin_toplevel_move_to_layer t L s) = tr s"
    unfolding qdwin_toplevel_move_to_layer_def Let_def by (rule fold_keeps) (simp add: weston_view_move_to_layer_def Let_def u)
qed

lemma tr_geometry [simp]:
  "tr (qdwin_toplevel_position_chrome k s) = tr s" "tr (qdwin_toplevel_apply_inset k s) = tr s"
  "tr (qdwin_nested_proxy_set_geometry k x y s) = tr s" "tr (send_state_of k s) = tr s"
proof -
  show "tr (qdwin_toplevel_position_chrome k s) = tr s"
    by (rule position_chrome_keeps) simp
  show "tr (qdwin_toplevel_apply_inset k s) = tr s"
    by (auto simp: qdwin_toplevel_apply_inset_def Let_def quiet split: option.split prod.split)
  show "tr (qdwin_nested_proxy_set_geometry k x y s) = tr s"
    by (auto simp: qdwin_nested_proxy_set_geometry_def Let_def quiet tr_send_shell split: option.split)
  show "tr (send_state_of k s) = tr s"
    by (simp add: send_state_of_def qdwin_send_toplevel_state_def tr_send_shell quiet split: option.split)
qed

lemma tr_fullscreen [simp]:
  "tr (qdwin_toplevel_apply_fullscreen_geometry k oo s) = tr s" "tr (restore_geometry k g s) = tr s"
  "tr (qdwin_toplevel_set_fullscreen k fs oo s) = tr s"
proof -
  show a: "tr (qdwin_toplevel_apply_fullscreen_geometry k oo s) = tr s" for oo s
    by (auto simp: qdwin_toplevel_apply_fullscreen_geometry_def Let_def quiet split: option.split)
  show r: "tr (restore_geometry k g s) = tr s" for g s
    by (simp add: restore_geometry_def Let_def split: option.split)
  show "tr (qdwin_toplevel_set_fullscreen k fs oo s) = tr s"
    by (auto simp: qdwin_toplevel_set_fullscreen_def Let_def a r quiet split: option.split)
qed

lemma tr_windows [simp]:
  "tr (qdwin_toplevel_autofocus_if_ready k s) = tr s" "tr (qdwin_toplevel_release_holding k b s) = tr s"
  "tr (qdwin_chrome_detach k sd s) = tr s"
proof -
  have l: "tr (qdwin_seat_tracker_rebind_focus_listener i u) = tr u" for i u
    by (simp add: qdwin_seat_tracker_rebind_focus_listener_def qdwin_install_focus_listener_if_needed_def Let_def
        split: option.split)
  have "tr (fold (autofocus_seat t) xs u) = tr u" for t xs u
    by (rule fold_keeps) (simp add: autofocus_seat_def l)
  then show a: "tr (qdwin_toplevel_autofocus_if_ready k s) = tr s" for s
    by (simp add: qdwin_toplevel_autofocus_if_ready_def split: option.split)
  have "tr (fold (\<lambda>v. weston_view_move_to_layer v L) vs u) = tr u" for L vs u
    by (rule fold_keeps) simp
  then show "tr (qdwin_toplevel_release_holding k b s) = tr s"
    by (simp add: qdwin_toplevel_release_holding_def Let_def a split: option.split)
  show "tr (qdwin_chrome_detach k sd s) = tr s"
    by (simp add: qdwin_chrome_detach_def split: option.split)
qed

lemma tr_lock [simp]:
  "tr (qdwin_lock_curtain_to_bottom s) = tr s" "tr (qdwin_demote_lock_toplevel s) = tr s"
  "tr (qdwin_maybe_promote_lock_toplevel t s) = tr s" "tr (forget_lock_toplevel t s) = tr s"
proof -
  show a: "tr (qdwin_lock_curtain_to_bottom s) = tr s" for s
    by (simp add: qdwin_lock_curtain_to_bottom_def Let_def split: option.split)
  show b: "tr (qdwin_demote_lock_toplevel s) = tr s" for s
    by (simp add: qdwin_demote_lock_toplevel_def Let_def split: option.split)
  show "tr (qdwin_maybe_promote_lock_toplevel t s) = tr s"
    by (simp add: qdwin_maybe_promote_lock_toplevel_def Let_def a b)
  show "tr (forget_lock_toplevel t s) = tr s"
    by (simp add: forget_lock_toplevel_def Let_def)
qed

lemma tr_seats [simp]:
  "tr (qdwin_on_seat_updated_caps i s) = tr s" "tr (weston_seat_release_keyboard i s) = tr s"
  "tr (pointer_down i s) = tr s" "tr (weston_seat_release i s) = tr s"
proof -
  show c: "tr (qdwin_on_seat_updated_caps i s) = tr s" for s
    by (simp add: qdwin_on_seat_updated_caps_def qdwin_seat_tracker_rebind_focus_listener_def
        qdwin_install_focus_listener_if_needed_def Let_def split: option.split)
  have "tr (fold (\<lambda>t. qdwin_on_keyboard_focus_changed (tr_seat t)) xs u) = tr u" for xs :: "seat_tracker list" and u
    by (rule fold_keeps) simp
  then show "tr (weston_seat_release_keyboard i s) = tr s"
    by (simp add: weston_seat_release_keyboard_def Let_def c cancel_grab_def qdwin_overlay_grab_cancel_def
        qdwin_switcher_grab_cancel_def split: option.split kbd_grab.split)
  show "tr (pointer_down i s) = tr s"
    by (simp add: pointer_down_def c)
  show "tr (weston_seat_release i s) = tr s"
    by (simp add: weston_seat_release_def qdwin_seat_tracker_destroy_def Let_def tr_send_shell quiet split: option.split)
qed

lemma tr_streams [simp]:
  "tr (qdwin_view_stream_release_server_state n s) = tr s" "tr (qdwin_view_stream_terminate reason n s) = tr s"
  "tr (terminate_for k s) = tr s" "tr (qdwin_toplevel_release_dependents k s) = tr s"
proof -
  have "tr (qdwin_stream_seat_release n u) = tr u" for n u
    by (simp add: qdwin_stream_seat_release_def qdwin_stream_confine_grab_end_def split: option.split)
  moreover have "tr (qdwin_view_stream_unpin n u) = tr u" for n u
    by (simp add: qdwin_view_stream_unpin_def Let_def split: option.split)
  moreover have "tr (qdwin_view_stream_reap_forward n u) = tr u" for n u
    by (simp add: qdwin_view_stream_reap_forward_def quiet split: option.split)
  ultimately show r: "tr (qdwin_view_stream_release_server_state n s) = tr s" for n s
    by (simp add: qdwin_view_stream_release_server_state_def Let_def split: option.split)
  show t: "tr (qdwin_view_stream_terminate reason n s) = tr s" for reason n s
    by (simp add: qdwin_view_stream_terminate_def r quiet Let_def split: option.split)
  show f: "tr (terminate_for k s) = tr s" for s
    unfolding terminate_for_def by (rule fold_keeps) (rule t)
  show "tr (qdwin_toplevel_release_dependents k s) = tr s"
    by (simp add: qdwin_toplevel_release_dependents_def qdwin_move_grab_end_for_def f)
qed

end

section \<open>What the shell knows\<close>

text \<open>A shell that only listens: the windows it has been told of, each with its title.\<close>

fun mirror_event :: "effect \<Rightarrow> (u32 \<rightharpoonup> string) \<Rightarrow> (u32 \<rightharpoonup> string)" where
  "mirror_event (Shell (toplevel_added k u a ti x)) m = m(k \<mapsto> ti)"
| "mirror_event (Shell (Wm_State.toplevel_title k ti)) m = m(k \<mapsto> ti)"
| "mirror_event (Shell (toplevel_removed k)) m = m(k := None)"
| "mirror_event _ m = m"

fun mirrored :: "effect \<Rightarrow> bool" where
  "mirrored (Shell (toplevel_added k u a ti x)) = True"
| "mirrored (Shell (Wm_State.toplevel_title k ti)) = True"
| "mirrored (Shell (toplevel_removed k)) = True"
| "mirrored _ = False"

interpretation mirror: quiet_trace mirrored
  by unfold_locales simp_all

definition told :: "qdwin \<Rightarrow> (u32 \<rightharpoonup> string)" where
  "told s = fold mirror_event (out s) Map.empty"

lemma told_tr: "told s = fold mirror_event (mirror.tr s) Map.empty"
proof -
  have "fold mirror_event es m = fold mirror_event (filter mirrored es) m" for es m
  proof (induction es arbitrary: m)
    case (Cons e es)
    have "mirror_event e m = m" if "\<not> mirrored e"
      using that by (induction e m rule: mirror_event.induct) auto
    then show ?case
      using Cons by simp
  qed simp
  then show ?thesis
    by (simp add: told_def mirror.tr_def)
qed

lemma told_cong: "mirror.tr a = mirror.tr b \<Longrightarrow> told a = told b"
  by (simp add: told_tr)

lemma told_emit: "told (emit e s) = mirror_event e (told s)"
  by (simp add: told_def emit_def)


definition labels :: "qdwin \<Rightarrow> (u32 \<times> string option) list" where
  "labels s = map (\<lambda>t. (tl_handle t, tl_cached_title t)) (toplevels s)"

definition known :: "qdwin \<Rightarrow> (u32 \<rightharpoonup> string)" where
  "known s k = map_option or_empty (map_of (labels s) k)"

text \<open>What the shell's picture depends on.\<close>

definition face :: "qdwin \<Rightarrow> (u32 \<times> string option) list \<times> bool \<times> wl_resource option \<times> bool" where
  "face s = (labels s, shell_bound s, shell_resource s, nested_mode s)"

lemma face_cong:
  "toplevels a = toplevels b \<Longrightarrow> shell_bound a = shell_bound b \<Longrightarrow> shell_resource a = shell_resource b
     \<Longrightarrow> nested_mode a = nested_mode b \<Longrightarrow> face a = face b"
  by (simp add: face_def labels_def)

lemma face_seatless: "seatless a = seatless b \<Longrightarrow> face a = face b"
  by (rule face_cong; rule seatless_frame)

lemma face_streamless: "streamless a = streamless b \<Longrightarrow> face a = face b"
  by (rule face_cong; rule streamless_frame)

lemma face_geo:
  assumes "geo_frame a = geo_frame b"
  shows "face a = face b"
proof -
  from assms have "map (\<lambda>t. (tl_handle t, tl_cached_title t)) (map tl_frame (toplevels a)) =
      map (\<lambda>t. (tl_handle t, tl_cached_title t)) (map tl_frame (toplevels b))"
    by (simp add: geo_frame_def)
  moreover have "shell_bound a = shell_bound b \<and> shell_resource a = shell_resource b \<and> nested_mode a = nested_mode b"
    using geoless_frame [OF geo_frame_fields(1) [OF assms]] by simp
  ultimately show ?thesis
    by (simp add: face_def labels_def tl_frame_def comp_def)
qed

lemma face_upd_tl:
  assumes "\<And>t. tl_handle (f t) = tl_handle t" and "\<And>t. tl_cached_title (f t) = tl_cached_title t"
  shows "face (upd_tl k f s) = face s"
  using assms by (simp add: face_def labels_def upd_tl_def)

lemma face_ops [simp]:
  "face (weston_view_move_to_layer v L s) = face s" "face (weston_view_destroy v s) = face s"
  "face (emit e s) = face s" "face (send_shell n f s) = face s" "face (s\<lparr>ub := b\<rparr>) = face s"
  "face (weston_view_set_position v p s) = face s" "face (qdwin_toplevel_position_chrome k s) = face s"
  "face (qdwin_toplevel_apply_fullscreen_geometry k oo s) = face s"
  "face (qdwin_toplevel_set_fullscreen k fs oo s) = face s"
  by (rule face_geo, simp)+

lemma face_frames [simp]:
  "face (qdwin_toplevel_move_to_layer t L s) = face s" "face (qdwin_toplevel_autofocus_if_ready k s) = face s"
  "face (qdwin_lock_curtain_to_bottom s) = face s"
  "face (qdwin_demote_lock_toplevel s) = face s" "face (qdwin_maybe_promote_lock_toplevel t s) = face s"
  "face (forget_lock_toplevel t s) = face s" "face (qdwin_toplevel_release_dependents k s) = face s"
  "face (qdwin_chrome_detach k sd s) = face s" "face (qdwin_toplevel_release_holding k b s) = face s"
proof -
  show m: "face (qdwin_toplevel_move_to_layer t L s) = face s" for t L s
    by (rule face_cong) simp_all
  have "seatless (fold (autofocus_seat t) xs u) = seatless u" for t xs u
    by (rule fold_keeps) (simp add: autofocus_seat_def qdwin_seat_tracker_rebind_focus_listener_def
        qdwin_install_focus_listener_if_needed_def Let_def split: option.split)
  then have "seatless (qdwin_toplevel_autofocus_if_ready k u) = seatless u" for u
    by (simp add: qdwin_toplevel_autofocus_if_ready_def split: option.split)
  then show a: "face (qdwin_toplevel_autofocus_if_ready k s) = face s" for s
    by (rule face_seatless)
  show c: "face (qdwin_lock_curtain_to_bottom s) = face s" for s
    by (rule face_cong) (simp_all add: qdwin_lock_curtain_to_bottom_def Let_def split: option.split)
  show d: "face (qdwin_demote_lock_toplevel s) = face s" for s
    by (rule face_cong) (simp_all add: qdwin_demote_lock_toplevel_def Let_def split: option.split)
  have f: "face (u\<lparr>lock_toplevel := w, lock_surface := x, lock_view := y, lock_view_is_toplevel := z\<rparr>) = face u" for u w x y z
    by (rule face_cong) simp_all
  show "face (qdwin_maybe_promote_lock_toplevel t s) = face s"
    by (simp add: qdwin_maybe_promote_lock_toplevel_def Let_def c d m f)
  show "face (forget_lock_toplevel t s) = face s"
    by (rule face_cong) (simp_all add: forget_lock_toplevel_def Let_def)
  have t: "face (terminate_for k u) = face u" for u
    unfolding terminate_for_def by (rule fold_keeps) (simp add: face_streamless [OF streamless_ops(5)])
  have "face (qdwin_move_grab_end_for k u) = face u" for u
    by (rule face_cong) (simp_all add: qdwin_move_grab_end_for_def)
  with t show "face (qdwin_toplevel_release_dependents k s) = face s"
    by (simp add: qdwin_toplevel_release_dependents_def)
  show "face (qdwin_chrome_detach k sd s) = face s"
    by (simp add: qdwin_chrome_detach_def face_upd_tl split: option.split)
  have "face (fold (\<lambda>v. weston_view_move_to_layer v L) vs u) = face u" for L vs u
    by (rule fold_keeps) simp
  then show "face (qdwin_toplevel_release_holding k b s) = face s"
    by (simp add: qdwin_toplevel_release_holding_def Let_def a m face_upd_tl split: option.split)
qed

section \<open>Events\<close>

text \<open>Between two commits a client changes the title, the app id, the window geometry and the size of
  its surface.\<close>

definition client_changes :: "u32 \<Rightarrow> string option \<Rightarrow> string option \<Rightarrow> int \<times> int \<Rightarrow> int \<times> int \<Rightarrow> qdwin \<Rightarrow> qdwin" where
  "client_changes k ti a g sz s =
     (case qdwin_toplevel_from_handle s k of
        None \<Rightarrow> s
      | Some t \<Rightarrow> upd_tl k (\<lambda>t. t\<lparr>tl_title := ti, tl_app_id := a, tl_geometry := g\<rparr>)
                   (s\<lparr>surface_size := (surface_size s)(view_surface s (tl_view t) := sz)\<rparr>))"

datatype life_event =
    Lf_added surface toplevel
  | Lf_changes u32 "string option" "string option" "int \<times> int" "int \<times> int"
  | Lf_committed u32
  | Lf_removed u32

fun life_step :: "life_event \<Rightarrow> qdwin \<Rightarrow> qdwin" where
  "life_step (Lf_added sf d) = qdwin_surface_added sf d"
| "life_step (Lf_changes k ti a g sz) = client_changes k ti a g sz"
| "life_step (Lf_committed k) = qdwin_surface_committed k"
| "life_step (Lf_removed k) = qdwin_surface_removed k"

definition mirror_inv :: "qdwin \<Rightarrow> bool" where
  "mirror_inv s \<longleftrightarrow> shell_bound s \<and> shell_resource s \<noteq> None \<and> \<not> nested_mode s \<and> told s = known s"

lemma mirror_inv_cong: "mirror.tr a = mirror.tr b \<Longrightarrow> face a = face b \<Longrightarrow> mirror_inv a = mirror_inv b"
  by (simp add: mirror_inv_def face_def told_tr known_def fun_eq_iff)


lemma map_of_label:
  "map_of (map (\<lambda>(h, c). (h, if h = k then Some x else c)) l) j =
     (if j = k \<and> k \<in> fst ` set l then Some (Some x) else map_of l j)"
proof (induction l)
  case (Cons p l)
  obtain h c where p: "p = (h, c)" by (cases p)
  show ?case
    using Cons.IH p by (cases "h = j"; cases "j = k") simp_all
qed simp

lemma labels_cache:
  assumes "\<And>t. tl_handle (f t) = tl_handle t" and "\<And>t. tl_cached_title (f t) = Some x"
  shows "labels (upd_tl k f s) = map (\<lambda>(h, c). (h, if h = k then Some x else c)) (labels s)"
  using assms by (simp add: labels_def upd_tl_def upd_where_def)

lemma from_handle_label: "qdwin_toplevel_from_handle s k = Some t \<Longrightarrow> k \<in> fst ` set (labels s)"
  by (auto simp: qdwin_toplevel_from_handle_def labels_def image_image dest!: find_Some_mem)

lemma known_cache:
  assumes "\<And>t. tl_handle (f t) = tl_handle t" and "\<And>t. tl_cached_title (f t) = Some x"
    and "qdwin_toplevel_from_handle s k = Some t"
  shows "known (upd_tl k f s) = (known s)(k \<mapsto> x)"
  using from_handle_label [OF assms(3)]
  by (auto simp: fun_eq_iff known_def labels_cache [OF assms(1,2)] map_of_label or_empty_def)

lemma known_cong: "face a = face b \<Longrightarrow> known a = known b"
  by (simp add: face_def known_def fun_eq_iff)

lemma send_added_view:
  assumes "shell_bound s" and "shell_resource s \<noteq> None" and "qdwin_toplevel_from_handle s k = Some t"
  shows "told (qdwin_send_toplevel_added k s) = (told s)(k \<mapsto> or_empty (tl_title t))"
    and "known (qdwin_send_toplevel_added k s) = (known s)(k \<mapsto> or_empty (tl_title t))"
    and "snd (face (qdwin_send_toplevel_added k s)) = snd (face s)"
    and "map fst (labels (qdwin_send_toplevel_added k s)) = map fst (labels s)"
proof -
  let ?ti = "or_empty (tl_title t)"
  let ?s1 = "upd_tl k (\<lambda>u. u\<lparr>tl_cached_title := Some ?ti, tl_cached_app_id := Some (announced_app_id t)\<rparr>) s"
  let ?s2 = "emit (Shell (toplevel_added k (announced_uid t) (announced_app_id t) ?ti (qdwin_toplevel_is_xwayland t))) ?s1"
  have can: "qdwin_shell_can_receive 0 ?s1"
    using assms by (auto simp: qdwin_shell_can_receive_def)
  have e: "qdwin_send_toplevel_added k s = qdwin_emit_toplevel_workspace t (qdwin_emit_nested_proxy_remote_identity t
      (qdwin_send_toplevel_security_context t ?s2))"
    using assms can by (simp add: qdwin_send_toplevel_added_def Let_def)
  have q: "mirror.tr (qdwin_emit_toplevel_workspace t u) = mirror.tr u" "mirror.tr (qdwin_emit_nested_proxy_remote_identity t u) = mirror.tr u"
    "mirror.tr (qdwin_send_toplevel_security_context t u) = mirror.tr u" for u
    by (simp_all add: qdwin_emit_toplevel_workspace_def qdwin_emit_nested_proxy_remote_identity_def
        qdwin_send_toplevel_security_context_def mirror.tr_send_shell Let_def split: option.split)
  have g: "face (qdwin_emit_toplevel_workspace t u) = face u" "face (qdwin_emit_nested_proxy_remote_identity t u) = face u"
    "face (qdwin_send_toplevel_security_context t u) = face u" for u
    by (simp_all add: qdwin_emit_toplevel_workspace_def qdwin_emit_nested_proxy_remote_identity_def
        qdwin_send_toplevel_security_context_def Let_def split: option.split)
  have t: "told (qdwin_send_toplevel_added k s) = told ?s2"
    unfolding e by (intro told_cong) (simp add: q)
  have f: "face (qdwin_send_toplevel_added k s) = face ?s1"
    unfolding e by (simp add: g)
  show "told (qdwin_send_toplevel_added k s) = (told s)(k \<mapsto> ?ti)"
    unfolding t by (simp add: told_emit) (simp add: told_def)
  show "known (qdwin_send_toplevel_added k s) = (known s)(k \<mapsto> ?ti)"
    unfolding known_cong [OF f] by (rule known_cache [OF _ _ assms(3)]) simp_all
  show "snd (face (qdwin_send_toplevel_added k s)) = snd (face s)"
    unfolding f by (simp add: face_def)
  have "labels (qdwin_send_toplevel_added k s) = labels ?s1"
    using f by (simp add: face_def)
  then show "map fst (labels (qdwin_send_toplevel_added k s)) = map fst (labels s)"
    by (simp add: labels_def upd_tl_def)
qed

lemma inv_added: "mirror_inv s \<Longrightarrow> mirror_inv (qdwin_surface_added sf d s)"
proof -
  assume inv: "mirror_inv s"
  let ?k = "next_handle s + 1"
  let ?t = "new_toplevel d ?k (next_id s) (active_workspace s)"
  let ?s1 = "s\<lparr>next_id := next_id s + 1, next_handle := ?k, toplevels := ?t # toplevels s,
                 view_surface := (view_surface s)(next_id s := sf), view_mapped := (view_mapped s)(next_id s := False),
                 view_pos := (view_pos s)(next_id s := (0, 0))\<rparr>"
  let ?s2 = "weston_view_move_to_layer (next_id s) Held_layer ?s1"
  let ?s3 = "qdwin_send_toplevel_added ?k ?s2"
  have f2: "face ?s2 = ((?k, None) # labels s, snd (face s))"
    by (simp add: face_def labels_def new_toplevel_def zero_toplevel_def)
  have h: "qdwin_toplevel_from_handle ?s2 ?k = Some ?t"
    by (simp add: qdwin_toplevel_from_handle_def new_toplevel_def)
  have b: "shell_bound ?s2" "shell_resource ?s2 \<noteq> None"
    using inv by (simp_all add: mirror_inv_def)
  note v = send_added_view [OF b h]
  have "told ?s2 = known s"
    using inv told_cong [of ?s2 s] by (simp add: mirror_inv_def)
  moreover have "(known ?s2)(?k \<mapsto> x) = (known s)(?k \<mapsto> x)" for x
    using f2 by (simp add: face_def known_def fun_eq_iff)
  ultimately have "mirror_inv ?s3"
    using v inv f2 by (auto simp: mirror_inv_def face_def)
  moreover have "mirror_inv (qdwin_surface_added sf d s) = mirror_inv ?s3"
    using inv by (intro mirror_inv_cong) (simp_all add: qdwin_surface_added_def Let_def mirror_inv_def split: option.split)
  ultimately show ?thesis by simp
qed

lemma map_of_label_filter: "map_of (filter (\<lambda>p. fst p \<noteq> k) l) = (map_of l)(k := None)"
proof (induction l)
  case (Cons p l)
  then show ?case
    by (cases p) (auto simp: fun_eq_iff)
qed simp

lemma known_remove:
  "known (s\<lparr>toplevels := [u \<leftarrow> toplevels s. tl_handle u \<noteq> k]\<rparr>) = (known s)(k := None)"
proof -
  have "labels (s\<lparr>toplevels := [u \<leftarrow> toplevels s. tl_handle u \<noteq> k]\<rparr>) = filter (\<lambda>p. fst p \<noteq> k) (labels s)"
    by (simp add: labels_def filter_map comp_def)
  then show ?thesis
    by (simp add: known_def fun_eq_iff map_of_label_filter)
qed

lemma inv_removed:
  assumes inv: "mirror_inv s"
  shows "mirror_inv (qdwin_surface_removed k s)"
proof (cases "qdwin_toplevel_from_handle s k")
  case (Some t)
  then have hk: "tl_handle t = k"
    by (auto simp: qdwin_toplevel_from_handle_def dest: find_Some_mem)
  let ?s1 = "forget_lock_toplevel t s"
  let ?s2 = "qdwin_send_toplevel_removed t ?s1"
  let ?s4 = "fold (qdwin_chrome_detach k) all_sides (qdwin_toplevel_release_dependents k ?s2)"
  let ?s5 = "weston_view_destroy (tl_view t) ?s4"
  have f1: "face ?s1 = face s" by simp
  then have bound: "shell_bound ?s1" "shell_resource ?s1 \<noteq> None" "\<not> nested_mode ?s1"
    using inv by (auto simp: mirror_inv_def face_def)
  then have e2: "?s2 = emit (Shell (toplevel_removed k)) ?s1"
    by (auto simp: qdwin_send_toplevel_removed_def send_shell_def qdwin_shell_can_receive_def hk)
  have chrome: "mirror.tr (fold (qdwin_chrome_detach k) xs u) = mirror.tr u" "face (fold (qdwin_chrome_detach k) xs u) = face u" for xs u
    by (rule fold_keeps, simp)+
  have t5: "mirror.tr ?s5 = mirror.tr ?s2" and f5: "face ?s5 = face s"
    by (simp_all add: chrome e2)
  have "told ?s5 = (known s)(k := None)"
    using told_cong [OF t5] inv told_cong [of ?s1 s] by (simp add: e2 told_emit mirror_inv_def)
  moreover have "known (?s5\<lparr>toplevels := [u \<leftarrow> toplevels ?s5. tl_handle u \<noteq> k]\<rparr>) = (known s)(k := None)"
    unfolding known_remove known_cong [OF f5] ..
  moreover have "told (?s5\<lparr>toplevels := x\<rparr>) = told ?s5" for x
    by (simp add: told_def)
  ultimately show ?thesis
    using Some bound f5 inv by (simp add: qdwin_surface_removed_def mirror_inv_def face_def Let_def)
qed (use inv in \<open>simp add: qdwin_surface_removed_def\<close>)

lemma inv_diff_title:
  assumes inv: "mirror_inv s"
  shows "mirror_inv (diff_title k s)"
proof (cases "qdwin_toplevel_from_handle s k")
  case (Some t)
  let ?cur = "or_empty (tl_title t)"
  let ?u = "upd_tl k (\<lambda>t. t\<lparr>tl_cached_title := Some ?cur\<rparr>) s"
  have "known ?u = (known s)(k \<mapsto> ?cur)"
    by (rule known_cache [OF _ _ Some]) simp_all
  moreover have "told ?u = told s"
    by (simp add: told_def)
  moreover have "send_shell 0 e ?u = emit (Shell e) ?u" for e
    using inv by (auto simp: send_shell_def qdwin_shell_can_receive_def mirror_inv_def)
  moreover have "known (emit e ?u) = known ?u" for e
    by (rule known_cong) simp
  ultimately show ?thesis
    using Some inv by (simp add: diff_title_def Let_def mirror_inv_def told_emit)
qed (use inv in \<open>simp add: diff_title_def\<close>)

lemma quiet_commit:
  "mirror.tr (diff_app_id k s) = mirror.tr s" "face (diff_app_id k s) = face s"
  "mirror.tr (xw_feedback k s) = mirror.tr s" "face (xw_feedback k s) = face s"
  "mirror.tr (sync_restore k s) = mirror.tr s" "face (sync_restore k s) = face s"
  "mirror.tr (first_map k s) = mirror.tr s" "face (first_map k s) = face s"
  "mirror.tr (report_size k s) = mirror.tr s" "face (report_size k s) = face s"
proof -
  have sm: "face (u\<lparr>surface_mapped := m\<rparr>) = face u" for u m
    by (rule face_cong) simp_all
  show "mirror.tr (diff_app_id k s) = mirror.tr s" "face (diff_app_id k s) = face s"
    by (simp_all add: diff_app_id_def qdwin_emit_toplevel_app_id_def mirror.tr_send_shell face_upd_tl Let_def split: option.split)
  show "mirror.tr (xw_feedback k s) = mirror.tr s" "face (xw_feedback k s) = face s"
    by (simp_all add: xw_feedback_def face_upd_tl Let_def split: option.split prod.split)
  show "mirror.tr (sync_restore k s) = mirror.tr s" "face (sync_restore k s) = face s"
    by (simp_all add: sync_restore_def face_upd_tl Let_def split: option.split prod.split)
  show "mirror.tr (first_map k s) = mirror.tr s" "face (first_map k s) = face s"
    by (simp_all add: first_map_def face_upd_tl sm Let_def split: option.split prod.split)
  show "mirror.tr (report_size k s) = mirror.tr s" "face (report_size k s) = face s"
    by (simp_all add: report_size_def face_upd_tl mirror.tr_send_shell Let_def split: option.split prod.split)
qed

lemma inv_life_step: "mirror_inv s \<Longrightarrow> mirror_inv (life_step e s)"
proof -
  assume inv: "mirror_inv s"
  have c: "mirror_inv (qdwin_surface_committed k s)" for k
  proof -
    have "mirror_inv (report_size k (first_map k (sync_restore k (xw_feedback k (diff_app_id k (diff_title k s)))))) = mirror_inv (diff_title k s)"
      by (rule mirror_inv_cong) (simp_all add: quiet_commit)
    then show ?thesis
      using inv inv_diff_title [OF inv, of k] by (simp add: qdwin_surface_committed_def mirror_inv_def split: option.split)
  qed
  have "mirror_inv (client_changes k ti a g sz s) = mirror_inv s" for k ti a g sz
    by (rule mirror_inv_cong) (auto simp: client_changes_def face_upd_tl intro!: face_cong split: option.split)
  then show ?thesis
    using inv c inv_added inv_removed by (cases e) simp_all
qed

interpretation shell_mirror: event_component life_step mirror_inv
  by unfold_locales (rule inv_life_step)


lemma known_None: "known s k = None \<longleftrightarrow> k \<notin> set (map fst (labels s))"
  by (simp add: known_def map_of_eq_None_iff)

lemma from_handle_known:
  assumes "k \<in> set (map fst (labels s))"
  obtains t where "qdwin_toplevel_from_handle s k = Some t"
proof -
  have "\<exists>t \<in> set (toplevels s). tl_handle t = k"
    using assms by (auto simp: labels_def)
  then have "find (\<lambda>t. tl_handle t = k) (toplevels s) \<noteq> None"
    by (auto simp: find_None_iff)
  then show ?thesis
    using that by (auto simp: qdwin_toplevel_from_handle_def)
qed

lemma replay_view:
  assumes "shell_bound s" and "shell_resource s \<noteq> None" and "set ks \<subseteq> set (map fst (labels s))"
  defines "r \<equiv> fold qdwin_send_toplevel_added ks s"
  shows "snd (face r) = snd (face s) \<and> map fst (labels r) = map fst (labels s) \<and>
         (\<forall>k. told r k = (if k \<in> set ks then known r k else told s k)) \<and>
         (\<forall>k. k \<notin> set ks \<longrightarrow> known r k = known s k)"
  using assms(1-3) unfolding r_def
proof (induction ks arbitrary: s)
  case (Cons k ks)
  let ?a = "qdwin_send_toplevel_added k s"
  obtain t where t: "qdwin_toplevel_from_handle s k = Some t"
    using Cons.prems(3) from_handle_known [of k s] by auto
  note v = send_added_view [OF Cons.prems(1,2) t]
  have b: "shell_bound ?a" "shell_resource ?a \<noteq> None"
    using v(3) Cons.prems(1,2) by (auto simp: face_def)
  have sub: "set ks \<subseteq> set (map fst (labels ?a))"
    using Cons.prems(3) unfolding v(4) by simp
  note ih = Cons.IH [OF b sub]
  show ?case
    using ih by (auto simp: v fun_upd_def)
qed simp

lemma replay_all:
  assumes "shell_bound s" and "shell_resource s \<noteq> None" and "told s = Map.empty"
  shows "snd (face (fold qdwin_send_toplevel_added (map fst (labels s)) s)) = snd (face s)"
    and "map fst (labels (fold qdwin_send_toplevel_added (map fst (labels s)) s)) = map fst (labels s)"
    and "told (fold qdwin_send_toplevel_added (map fst (labels s)) s) =
         known (fold qdwin_send_toplevel_added (map fst (labels s)) s)"
proof -
  note v = replay_view [OF assms(1,2) subset_refl]
  then show "snd (face (fold qdwin_send_toplevel_added (map fst (labels s)) s)) = snd (face s)"
    "map fst (labels (fold qdwin_send_toplevel_added (map fst (labels s)) s)) = map fst (labels s)"
    by blast+
  show "told (fold qdwin_send_toplevel_added (map fst (labels s)) s) =
        known (fold qdwin_send_toplevel_added (map fst (labels s)) s)" (is "told ?r = known ?r")
  proof
    fix k
    show "told ?r k = known ?r k"
    proof (cases "k \<in> set (map fst (labels s))")
      case False
      then have "told ?r k = None" "k \<notin> set (map fst (labels ?r))"
        using v assms(3) by simp_all
      then show ?thesis
        using known_None by metis
    qed (use v in simp)
  qed
qed

lemma replay_focus:
  "mirror.tr (qdwin_replay_seat_focus_for_shell s) = mirror.tr s"
  "face (qdwin_replay_seat_focus_for_shell s) = face s"
proof -
  have "face (qdwin_emit_seat_focus_changed i h u) = face u" for i h u
    by (simp add: qdwin_emit_seat_focus_changed_def split: option.split)
  moreover have "face (upd_tracker i f u) = face u" for i f u
    by (rule face_cong) (simp_all add: upd_tracker_def)
  ultimately show "mirror.tr (qdwin_replay_seat_focus_for_shell s) = mirror.tr s"
    "face (qdwin_replay_seat_focus_for_shell s) = face s"
    unfolding qdwin_replay_seat_focus_for_shell_def by (intro fold_keeps, simp add: Let_def)+
qed

lemma inv_bind:
  assumes "\<not> shell_bound s" and "\<not> nested_mode s" and "told s = Map.empty"
  shows "mirror_inv (qdwin_handle_bind_as_shell r s)"
    and "map fst (labels (qdwin_handle_bind_as_shell r s)) = map fst (labels s)"
proof -
  let ?s1 = "s\<lparr>shell_bound := True, shell_resource := Some r, shell_pid := cl_pid (res_client r),
                   shell_uid := cl_uid (res_client r)\<rparr>"
  let ?ks = "map tl_handle (toplevels ?s1)"
  let ?s2 = "fold qdwin_send_toplevel_added ?ks ?s1"
  have "told ?s1 = Map.empty" and ks: "?ks = map fst (labels ?s1)"
    using assms(3) by (simp_all add: told_def labels_def)
  then have f: "snd (face ?s2) = snd (face ?s1)" "told ?s2 = known ?s2" "map fst (labels ?s2) = map fst (labels ?s1)"
    unfolding ks by (intro replay_all; simp)+
  then have inv: "mirror_inv ?s2"
    using assms(2) by (auto simp: mirror_inv_def face_def)
  have out: "mirror.tr (fold qdwin_send_output_created_evt xs u) = mirror.tr u"
    "face (fold qdwin_send_output_created_evt xs u) = face u" for xs u
    by (rule fold_keeps, simp add: qdwin_send_output_created_evt_def mirror.tr_send_shell)+
  have seat: "mirror.tr (fold qdwin_send_seat_created xs u) = mirror.tr u"
    "face (fold qdwin_send_seat_created xs u) = face u" for xs u
    by (rule fold_keeps, simp add: qdwin_send_seat_created_def mirror.tr_send_shell split: option.split)+
  have q: "mirror.tr (qdwin_handle_bind_as_shell r s) = mirror.tr ?s2" "face (qdwin_handle_bind_as_shell r s) = face ?s2"
    using assms(1) by (simp_all add: qdwin_handle_bind_as_shell_def Let_def out seat replay_focus)
  show "mirror_inv (qdwin_handle_bind_as_shell r s)"
    using mirror_inv_cong [OF q] inv by simp
  show "map fst (labels (qdwin_handle_bind_as_shell r s)) = map fst (labels s)"
    using q(2) f(3) by (simp add: face_def) (simp add: labels_def)
qed

lemma known_from_handle:
  assumes "qdwin_toplevel_from_handle s k = Some t"
  shows "known s k = Some (or_empty (tl_cached_title t))"
proof -
  have "find (\<lambda>t. tl_handle t = k) xs = Some t \<Longrightarrow>
        map_of (map (\<lambda>t. (tl_handle t, tl_cached_title t)) xs) k = Some (tl_cached_title t)" for xs
    by (induction xs) (auto split: if_splits)
  then show ?thesis
    using assms by (simp add: known_def labels_def qdwin_toplevel_from_handle_def)
qed

lemma diff_title_known:
  assumes t: "qdwin_toplevel_from_handle s k = Some t"
  shows "known (diff_title k s) k = Some (or_empty (tl_title t))"
proof (cases "tl_cached_title t = Some (or_empty (tl_title t))")
  case True
  then show ?thesis
    using known_from_handle [OF t] t by (simp add: diff_title_def or_empty_def)
next
  case False
  let ?cur = "or_empty (tl_title t)"
  have "known (upd_tl k (\<lambda>t. t\<lparr>tl_cached_title := Some ?cur\<rparr>) s) = (known s)(k \<mapsto> ?cur)"
    by (rule known_cache [OF _ _ t]) simp_all
  moreover have "known (send_shell v e u) = known u" for v e u
    by (rule known_cong) simp
  ultimately show ?thesis
    using False t by (simp add: diff_title_def Let_def)
qed

lemma commit_known:
  assumes "qdwin_toplevel_from_handle s k = Some t" and "\<not> nested_mode s" and "fst (content_size s t) \<noteq> 0"
  shows "known (qdwin_surface_committed k s) k = Some (or_empty (tl_title t))"
proof -
  have "face (qdwin_surface_committed k s) = face (diff_title k s)"
    using assms by (simp add: qdwin_surface_committed_def quiet_commit)
  from known_cong [OF this] show ?thesis
    using diff_title_known [OF assms(1)] by simp
qed

text \<open>C7: the shell's picture of the windows is exact. Take a compositor to which no shell is bound,
  which has announced nothing yet, with any windows already open, and let a shell claim the role.
  After any sequence of windows appearing, clients changing their title, application id or size,
  commits and windows disappearing, what the shell has been told (the fold of its toplevel_added,
  toplevel_title and toplevel_removed events) is the table of the open windows and the titles the
  compositor has cached for them; and once a window has committed with content, the title the shell
  holds for it is the one its client last set.\<close>

theorem shell_mirror_exact:
  fixes r :: wl_resource and s :: qdwin
  assumes "\<not> shell_bound s" and "\<not> nested_mode s" and "told s = Map.empty"
  defines "s' \<equiv> \<lambda>es. fold life_step es (qdwin_handle_bind_as_shell r s)"
  shows "told (s' es) = known (s' es) \<and>
         (\<forall>k t. qdwin_toplevel_from_handle (s' es) k = Some t \<and> fst (content_size (s' es) t) \<noteq> 0 \<longrightarrow>
            told (qdwin_surface_committed k (s' es)) k = Some (or_empty (tl_title t)))"
proof -
  have inv: "mirror_inv (s' es)" for es
    unfolding s'_def by (rule shell_mirror.run_inv [OF inv_bind(1) [OF assms(1-3)]])
  have "mirror_inv (qdwin_surface_committed k (s' es))" for k
    using shell_mirror.step_inv [OF inv, of "Lf_committed k" es] by simp
  then show ?thesis
    using inv [of es] commit_known by (auto simp: mirror_inv_def)
qed

theorem shell_mirror_exact_witness:
  "(let s' = fold life_step [Lf_changes 1 (Some ''mail'') None (0, 0) (640, 480)] (qdwin_handle_bind_as_shell demo_shell demo_state)
    in told s' 1 = known s' 1 \<and> told (qdwin_surface_committed 1 s') 1 = Some ''mail'')"
proof -
  let ?s = "demo_state"
  let ?es = "[Lf_changes 1 (Some ''mail'') None (0, 0) (640, 480)]"
  let ?b = "qdwin_handle_bind_as_shell demo_shell ?s"
  have h: "\<not> shell_bound ?s" "\<not> nested_mode ?s" "told ?s = Map.empty"
    by (simp_all add: demo_state_def wet_shell_init_def told_def)
  have "1 \<in> set (map fst (labels ?b))"
    unfolding inv_bind(2) [OF h] by (simp add: labels_def demo_state_def demo_toplevel_def)
  then obtain t where t: "qdwin_toplevel_from_handle ?b 1 = Some t"
    by (rule from_handle_known)
  let ?t = "t\<lparr>tl_title := Some ''mail'', tl_app_id := None, tl_geometry := (0, 0)\<rparr>"
  let ?u = "?b\<lparr>surface_size := (surface_size ?b)(view_surface ?b (tl_view t) := (640, 480))\<rparr>"
  have u: "fold life_step ?es ?b = upd_tl 1 (\<lambda>t. t\<lparr>tl_title := Some ''mail'', tl_app_id := None, tl_geometry := (0, 0)\<rparr>) ?u"
    using t by (simp add: client_changes_def)
  have "qdwin_toplevel_from_handle (fold life_step ?es ?b) 1 = Some ?t" "fst (content_size (fold life_step ?es ?b) ?t) \<noteq> 0"
    unfolding u using t by (simp_all add: from_handle_upd_tl content_size_def) (simp add: qdwin_toplevel_from_handle_def)
  then show ?thesis
    using shell_mirror_exact [OF h, of ?es demo_shell] by (simp add: Let_def or_empty_def)
qed

end
