(* ===== verification/Primary.thy ===== *)
theory Primary
  imports Lifecycle
begin

text \<open>The primary selection (the middle-click clipboard), which qdwin implements itself, and what the
  shell is told when a client takes a selection. The primary selection has a state of its own:
  sources, offers, devices and one record per seat, linked by identifiers. Following an
  identifier whose object has been freed sets \<open>prim_ub\<close>; the theorems say when that can
  happen. Clients are named by their identifier, file descriptors by numbers; allocation
  failures are left out.\<close>

section \<open>What the shell is told of a selection\<close>

datatype clip_effect =
    Told_source_identity string string string
  | Told_selection string u32 string bool
  | Told_receive u32 string u32 u32 string
  | Data_send nat string nat
  | Data_cancelled nat
  | Data_selection nat "nat option"
  | Primary_send nat string nat nat
  | Primary_cancelled nat
  | Primary_selection nat "nat option"
  | Clip_error nat
  | Fd_close nat

definition printable :: "char \<Rightarrow> char" where
  "printable b = (if (0x20 :: nat) \<le> of_char b \<and> of_char b \<le> (0x7E :: nat) then b else CHR ''?'')"

fun pack_rest :: "bool \<Rightarrow> string list \<Rightarrow> string" where
  "pack_rest first [] = []"
| "pack_rest first (m # ms) =
     (if m = [] then pack_rest first ms
      else (if first then [] else [CHR 0x0A]) @ map printable m @ pack_rest False ms)"

definition qdwin_pack_mime_types :: "string list \<Rightarrow> string" where
  "qdwin_pack_mime_types ms = pack_rest True ms"

definition qdwin_toplevel_for_client :: "qdwin \<Rightarrow> nat option \<Rightarrow> toplevel option" where
  "qdwin_toplevel_for_client s co =
     (case co of
        None \<Rightarrow> None
      | Some c \<Rightarrow> find (\<lambda>t. tl_desktop_surface t \<and> surface_client s (view_surface s (tl_view t)) = Some c) (toplevels s))"

definition qdwin_secctx_client_lookup :: "qdwin \<Rightarrow> nat \<Rightarrow> secctx_tag option" where
  "qdwin_secctx_client_lookup s c = map_of (secctx_clients s) c"

text \<open>The silo of a client: engine and application id of its tag, when both are given.\<close>

definition silo_of :: "qdwin \<Rightarrow> nat \<Rightarrow> (string \<times> string) option" where
  "silo_of s c =
     (case qdwin_secctx_client_lookup s c of
        None \<Rightarrow> None
      | Some g \<Rightarrow> if sc_engine g = [] \<or> sc_app_id g = [] then None else Some (sc_engine g, sc_app_id g))"

definition qdwin_toplevel_for_secctx_app_id :: "qdwin \<Rightarrow> nat option \<Rightarrow> toplevel option" where
  "qdwin_toplevel_for_secctx_app_id s co =
     (case co of
        None \<Rightarrow> None
      | Some c \<Rightarrow>
          (case silo_of s c of
             None \<Rightarrow> None
           | Some silo \<Rightarrow>
               find (\<lambda>t. tl_desktop_surface t \<and>
                         (case surface_client s (view_surface s (tl_view t)) of
                            None \<Rightarrow> False | Some d \<Rightarrow> silo_of s d = Some silo)) (toplevels s)))"

definition selection_handle :: "qdwin \<Rightarrow> nat \<Rightarrow> nat option \<Rightarrow> u32" where
  "selection_handle s i co =
     (case qdwin_toplevel_by_surface s (kbd_focus s i) of
        Some t \<Rightarrow> tl_handle t
      | None \<Rightarrow>
          (case qdwin_toplevel_for_client s co of
             Some t \<Rightarrow> tl_handle t
           | None \<Rightarrow> (case qdwin_toplevel_for_secctx_app_id s co of
                        Some t \<Rightarrow> tl_handle t | None \<Rightarrow> UINT32_MAX)))"

definition name_of_seat :: "qdwin \<Rightarrow> nat \<Rightarrow> string" where
  "name_of_seat s i = (case seat_of s i of None \<Rightarrow> [] | Some x \<Rightarrow> seat_name x)"

definition qdwin_emit_selection_set :: "qdwin \<Rightarrow> nat \<Rightarrow> string list \<Rightarrow> bool \<Rightarrow> nat option \<Rightarrow> clip_effect list" where
  "qdwin_emit_selection_set s i ms primary co =
     (if \<not> qdwin_shell_can_receive 11 s then []
      else
        (if qdwin_shell_can_receive 23 s
         then case Option.bind co (qdwin_secctx_client_lookup s) of
                None \<Rightarrow> []
              | Some g \<Rightarrow> [Told_source_identity (sc_engine g) (sc_app_id g) (sc_instance g)]
         else []) @
        [Told_selection (name_of_seat s i) (selection_handle s i co) (qdwin_pack_mime_types ms) primary])"

section \<open>Sources, offers, devices and seats\<close>

record prim_source =
  ps_id :: nat
  ps_client :: nat
  ps_seat :: "nat option"
  ps_mimes :: "string list"

record prim_offer =
  po_id :: nat
  po_client :: nat
  po_source :: "nat option"

record prim_device =
  pv_id :: nat
  pv_client :: nat
  pv_seat :: "nat option"

record prim_seat =
  pq_seat :: nat
  pq_current :: "nat option"
  pq_serial :: u32
  pq_devices :: "nat list"

text \<open>\<open>prim_rings\<close> are the device lists whose head went away with its seat.\<close>

record primary =
  prim_seats :: "prim_seat list"
  prim_sources :: "prim_source list"
  prim_offers :: "prim_offer list"
  prim_devices :: "prim_device list"
  prim_rings :: "nat list list"
  prim_next :: nat
  prim_ub :: bool
  prim_out :: "clip_effect list"

definition no_primary :: primary where
  "no_primary = \<lparr>prim_seats = [], prim_sources = [], prim_offers = [], prim_devices = [], prim_rings = [],
     prim_next = 0, prim_ub = False, prim_out = []\<rparr>"

definition psend :: "clip_effect list \<Rightarrow> primary \<Rightarrow> primary" where
  "psend es p = p\<lparr>prim_out := prim_out p @ es\<rparr>"

definition dangling :: "primary \<Rightarrow> primary" where
  "dangling p = p\<lparr>prim_ub := True\<rparr>"

definition prim_source_of :: "primary \<Rightarrow> nat \<Rightarrow> prim_source option" where
  "prim_source_of p x = find (\<lambda>a. ps_id a = x) (prim_sources p)"

definition prim_offer_of :: "primary \<Rightarrow> nat \<Rightarrow> prim_offer option" where
  "prim_offer_of p x = find (\<lambda>a. po_id a = x) (prim_offers p)"

definition prim_device_of :: "primary \<Rightarrow> nat \<Rightarrow> prim_device option" where
  "prim_device_of p x = find (\<lambda>a. pv_id a = x) (prim_devices p)"

definition qdwin_primary_seat_find :: "primary \<Rightarrow> nat \<Rightarrow> prim_seat option" where
  "qdwin_primary_seat_find p i = find (\<lambda>q. pq_seat q = i) (prim_seats p)"

definition upd_prim_seat :: "nat \<Rightarrow> (prim_seat \<Rightarrow> prim_seat) \<Rightarrow> primary \<Rightarrow> primary" where
  "upd_prim_seat i f p = p\<lparr>prim_seats := upd_where (\<lambda>q. pq_seat q = i) f (prim_seats p)\<rparr>"

definition upd_prim_source :: "nat \<Rightarrow> (prim_source \<Rightarrow> prim_source) \<Rightarrow> primary \<Rightarrow> primary" where
  "upd_prim_source x f p = p\<lparr>prim_sources := upd_where (\<lambda>a. ps_id a = x) f (prim_sources p)\<rparr>"

definition qdwin_primary_seat_ensure :: "nat \<Rightarrow> primary \<Rightarrow> primary" where
  "qdwin_primary_seat_ensure i p =
     (if qdwin_primary_seat_find p i \<noteq> None then p
      else p\<lparr>prim_seats := \<lparr>pq_seat = i, pq_current = None, pq_serial = 0, pq_devices = []\<rparr> # prim_seats p\<rparr>)"

section \<open>Offers\<close>

definition qdwin_primary_same_silo :: "qdwin \<Rightarrow> nat \<Rightarrow> nat \<Rightarrow> bool" where
  "qdwin_primary_same_silo s a b \<longleftrightarrow>
     a = b \<or>
     (case (qdwin_secctx_client_lookup s a, qdwin_secctx_client_lookup s b) of
        (None, None) \<Rightarrow> True
      | (Some _, Some _) \<Rightarrow> silo_of s a \<noteq> None \<and> silo_of s a = silo_of s b
      | _ \<Rightarrow> False)"

definition qdwin_primary_offer_receive :: "qdwin \<Rightarrow> nat \<Rightarrow> nat \<Rightarrow> string \<Rightarrow> nat \<Rightarrow> primary \<Rightarrow> primary" where
  "qdwin_primary_offer_receive s c x mime fd p =
     (case prim_offer_of p x of
        None \<Rightarrow> p
      | Some f \<Rightarrow>
          (case po_source f of
             None \<Rightarrow> psend [Fd_close fd] p
           | Some y \<Rightarrow>
               (case prim_source_of p y of
                  None \<Rightarrow> dangling p
                | Some a \<Rightarrow>
                    if qdwin_primary_same_silo s (ps_client a) c
                    then psend [Primary_send y mime fd c, Fd_close fd] p
                    else psend [Fd_close fd] p)))"

definition qdwin_primary_offer_resource_destroy :: "nat \<Rightarrow> primary \<Rightarrow> primary" where
  "qdwin_primary_offer_resource_destroy x p = p\<lparr>prim_offers := [f \<leftarrow> prim_offers p. po_id f \<noteq> x]\<rparr>"

text \<open>A fresh offer of source \<open>y\<close> for a device of client \<open>c\<close>, announced as the selection.\<close>

definition announce_offer :: "nat \<Rightarrow> nat \<Rightarrow> nat \<Rightarrow> primary \<Rightarrow> primary" where
  "announce_offer y v c p =
     psend [Primary_selection v (Some (prim_next p))]
       (p\<lparr>prim_offers := \<lparr>po_id = prim_next p, po_client = c, po_source = Some y\<rparr> # prim_offers p,
          prim_next := prim_next p + 1\<rparr>)"

definition qdwin_primary_build_offer_for_device :: "nat \<Rightarrow> nat \<Rightarrow> primary \<Rightarrow> primary" where
  "qdwin_primary_build_offer_for_device y v p =
     (case prim_device_of p v of None \<Rightarrow> dangling p | Some d \<Rightarrow> announce_offer y v (pv_client d) p)"

section \<open>Sources\<close>

definition qdwin_primary_source_clear_offers :: "nat \<Rightarrow> primary \<Rightarrow> primary" where
  "qdwin_primary_source_clear_offers y p =
     p\<lparr>prim_offers := upd_where (\<lambda>f. po_source f = Some y) (\<lambda>f. f\<lparr>po_source := None\<rparr>) (prim_offers p)\<rparr>"

definition QDWIN_MIME_TYPE_MAX :: nat where "QDWIN_MIME_TYPE_MAX = 4096"
definition QDWIN_PRIMARY_MIME_MAX :: nat where "QDWIN_PRIMARY_MIME_MAX = 256"

definition qdwin_primary_source_offer :: "nat \<Rightarrow> string \<Rightarrow> primary \<Rightarrow> primary" where
  "qdwin_primary_source_offer y mime p =
     upd_prim_source y (\<lambda>a. if QDWIN_MIME_TYPE_MAX < length mime \<or> QDWIN_PRIMARY_MIME_MAX \<le> length (ps_mimes a) then a
                            else a\<lparr>ps_mimes := ps_mimes a @ [mime]\<rparr>) p"

definition qdwin_primary_seat_clear_selection :: "nat \<Rightarrow> bool \<Rightarrow> primary \<Rightarrow> primary" where
  "qdwin_primary_seat_clear_selection i notify p =
     (case qdwin_primary_seat_find p i of
        None \<Rightarrow> dangling p
      | Some q \<Rightarrow>
          (let p1 = upd_prim_seat i (\<lambda>q. q\<lparr>pq_current := None\<rparr>) p;
               p2 = (case pq_current q of
                       None \<Rightarrow> p1
                     | Some y \<Rightarrow>
                         if prim_source_of p y = None then dangling p1
                         else upd_prim_source y (\<lambda>a. a\<lparr>ps_seat := None\<rparr>)
                                (if notify then psend [Primary_cancelled y] p1 else p1))
           in psend (map (\<lambda>v. Primary_selection v None) (pq_devices q)) p2))"

definition qdwin_primary_source_resource_destroy :: "nat \<Rightarrow> primary \<Rightarrow> primary" where
  "qdwin_primary_source_resource_destroy y p =
     (case prim_source_of p y of
        None \<Rightarrow> p
      | Some a \<Rightarrow>
          (let p1 = (case ps_seat a of
                       None \<Rightarrow> p
                     | Some i \<Rightarrow>
                         (case qdwin_primary_seat_find p i of
                            None \<Rightarrow> dangling p
                          | Some q \<Rightarrow> if pq_current q = Some y then qdwin_primary_seat_clear_selection i False p else p));
               p2 = qdwin_primary_source_clear_offers y p1
           in p2\<lparr>prim_sources := [a \<leftarrow> prim_sources p2. ps_id a \<noteq> y]\<rparr>))"

definition qdwin_primary_seat_has_source :: "prim_seat \<Rightarrow> bool" where
  "qdwin_primary_seat_has_source q \<longleftrightarrow> pq_current q \<noteq> None"

section \<open>Devices\<close>

definition bound_elsewhere :: "primary \<Rightarrow> nat \<Rightarrow> nat \<Rightarrow> bool" where
  "bound_elsewhere p i y \<longleftrightarrow>
     (case prim_source_of p y of
        None \<Rightarrow> False
      | Some a \<Rightarrow> (case ps_seat a of None \<Rightarrow> False | Some j \<Rightarrow> j \<noteq> i))"

definition announce_all :: "qdwin \<Rightarrow> nat \<Rightarrow> nat \<Rightarrow> primary \<Rightarrow> primary" where
  "announce_all s i y p =
     (let p1 = upd_prim_seat i (\<lambda>q. q\<lparr>pq_current := Some y\<rparr>) (upd_prim_source y (\<lambda>a. a\<lparr>ps_seat := Some i\<rparr>) p);
          p2 = fold (qdwin_primary_build_offer_for_device y)
                 (case qdwin_primary_seat_find p1 i of None \<Rightarrow> [] | Some q \<Rightarrow> pq_devices q) p1
      in case prim_source_of p2 y of
           None \<Rightarrow> p2
         | Some a \<Rightarrow> psend (qdwin_emit_selection_set s i (ps_mimes a) True (Some (ps_client a))) p2)"

definition qdwin_primary_device_set_selection :: "qdwin \<Rightarrow> nat \<Rightarrow> nat option \<Rightarrow> u32 \<Rightarrow> primary \<Rightarrow> primary" where
  "qdwin_primary_device_set_selection s v yo serial p =
     (case Option.bind (prim_device_of p v) pv_seat of
        None \<Rightarrow> p
      | Some i \<Rightarrow>
          (case qdwin_primary_seat_find p i of
             None \<Rightarrow> dangling p
           | Some q \<Rightarrow>
               if qdwin_selection_serial_is_stale (pq_serial q) serial (pq_current q \<noteq> None) then p
               else if (case yo of None \<Rightarrow> False | Some y \<Rightarrow> bound_elsewhere p i y) then p
               else
                 (let p1 = (if (pq_current q \<noteq> None \<and> pq_current q \<noteq> yo) \<or> yo = None
                            then qdwin_primary_seat_clear_selection i True p else p);
                      p2 = upd_prim_seat i (\<lambda>q. q\<lparr>pq_serial := serial\<rparr>) p1
                  in case yo of None \<Rightarrow> p2 | Some y \<Rightarrow> announce_all s i y p2)))"

text \<open>Unlinking a device from its list touches its neighbours: at either end of the list that is
  the head, which is gone when the seat has been destroyed before the device.\<close>

definition at_end :: "nat \<Rightarrow> nat list \<Rightarrow> bool" where
  "at_end v r \<longleftrightarrow> r \<noteq> [] \<and> (hd r = v \<or> last r = v)"

definition qdwin_primary_device_resource_destroy :: "nat \<Rightarrow> primary \<Rightarrow> primary" where
  "qdwin_primary_device_resource_destroy v p =
     (let p1 = (if \<exists>r \<in> set (prim_rings p). at_end v r then dangling p else p)
      in p1\<lparr>prim_devices := [d \<leftarrow> prim_devices p1. pv_id d \<noteq> v],
            prim_rings := map (removeAll v) (prim_rings p1),
            prim_seats := map (\<lambda>q. q\<lparr>pq_devices := removeAll v (pq_devices q)\<rparr>) (prim_seats p1)\<rparr>)"

section \<open>The manager and the seats\<close>

definition qdwin_primary_manager_create_source :: "nat \<Rightarrow> primary \<Rightarrow> primary" where
  "qdwin_primary_manager_create_source c p =
     p\<lparr>prim_sources := \<lparr>ps_id = prim_next p, ps_client = c, ps_seat = None, ps_mimes = []\<rparr> # prim_sources p,
       prim_next := prim_next p + 1\<rparr>"

text \<open>\<open>io\<close> is the seat of the client's seat object, \<open>None\<close> once that seat is gone.\<close>

definition qdwin_primary_manager_get_device :: "nat \<Rightarrow> nat option \<Rightarrow> primary \<Rightarrow> primary" where
  "qdwin_primary_manager_get_device c io p =
     (case io of
        None \<Rightarrow> psend [Clip_error c] p
      | Some i \<Rightarrow>
          (let v = prim_next p;
               p1 = (qdwin_primary_seat_ensure i p)\<lparr>prim_next := v + 1\<rparr>;
               p2 = upd_prim_seat i (\<lambda>q. q\<lparr>pq_devices := v # pq_devices q\<rparr>)
                      (p1\<lparr>prim_devices := \<lparr>pv_id = v, pv_client = c, pv_seat = Some i\<rparr> # prim_devices p1\<rparr>)
           in case Option.bind (qdwin_primary_seat_find p2 i) pq_current of
                None \<Rightarrow> p2
              | Some y \<Rightarrow> if prim_source_of p2 y = None then dangling p2
                          else qdwin_primary_build_offer_for_device y v p2))"

definition qdwin_primary_seat_seat_destroyed :: "nat \<Rightarrow> primary \<Rightarrow> primary" where
  "qdwin_primary_seat_seat_destroyed i p =
     (case qdwin_primary_seat_find p i of
        None \<Rightarrow> p
      | Some q \<Rightarrow>
          (let p1 = (if pq_current q = None then p else qdwin_primary_seat_clear_selection i True p)
           in p1\<lparr>prim_devices := upd_where (\<lambda>d. pv_id d \<in> set (pq_devices q)) (\<lambda>d. d\<lparr>pv_seat := None\<rparr>) (prim_devices p1),
                 prim_rings := pq_devices q # prim_rings p1,
                 prim_seats := [r \<leftarrow> prim_seats p1. pq_seat r \<noteq> i]\<rparr>))"


section \<open>Events\<close>

text \<open>A client can only name objects of its own that are alive; libwayland refuses anything else
  before a handler runs. Every event carries the state of the window manager at its time, about
  which nothing is assumed.\<close>

datatype prim_event =
    Pr_create_source nat
  | Pr_offer nat string
  | Pr_source_destroyed nat
  | Pr_get_device nat "nat option"
  | Pr_device_destroyed nat
  | Pr_set_selection nat "nat option" u32
  | Pr_receive nat nat string nat
  | Pr_offer_destroyed nat
  | Pr_clear nat
  | Pr_seat_destroyed nat

fun prim_step :: "qdwin \<times> prim_event \<Rightarrow> primary \<Rightarrow> primary" where
  "prim_step (s, Pr_create_source c) = qdwin_primary_manager_create_source c"
| "prim_step (s, Pr_offer y mime) = qdwin_primary_source_offer y mime"
| "prim_step (s, Pr_source_destroyed y) = qdwin_primary_source_resource_destroy y"
| "prim_step (s, Pr_get_device c io) = qdwin_primary_manager_get_device c io"
| "prim_step (s, Pr_device_destroyed v) = qdwin_primary_device_resource_destroy v"
| "prim_step (s, Pr_set_selection v yo serial) =
     (\<lambda>p. if yo \<noteq> None \<and> Option.bind yo (prim_source_of p) = None then p
          else qdwin_primary_device_set_selection s v yo serial p)"
| "prim_step (s, Pr_receive c x mime fd) = qdwin_primary_offer_receive s c x mime fd"
| "prim_step (s, Pr_offer_destroyed x) = qdwin_primary_offer_resource_destroy x"
| "prim_step (s, Pr_clear i) =
     (\<lambda>p. if qdwin_primary_seat_find p i = None then p else qdwin_primary_seat_clear_selection i True p)"
| "prim_step (s, Pr_seat_destroyed i) = qdwin_primary_seat_seat_destroyed i"

section \<open>No object is used after it is freed\<close>

definition source_ids :: "primary \<Rightarrow> nat set" where
  "source_ids p = ps_id ` set (prim_sources p)"

definition device_ids :: "primary \<Rightarrow> nat set" where
  "device_ids p = pv_id ` set (prim_devices p)"

text \<open>The links of the primary selection: a seat's current source is alive and points back to the
  seat, and no other source points to it; an offer's source is alive; the devices on a seat's
  list are alive and point to it, and a device's seat is alive.\<close>

definition owns :: "primary \<Rightarrow> (nat \<times> nat) set" where
  "owns p = {(i, y). \<exists>q \<in> set (prim_seats p). pq_seat q = i \<and> pq_current q = Some y}"

definition owned :: "primary \<Rightarrow> (nat \<times> nat) set" where
  "owned p = {(i, y). \<exists>a \<in> set (prim_sources p). ps_seat a = Some i \<and> ps_id a = y}"

definition lists_dev :: "primary \<Rightarrow> (nat \<times> nat) set" where
  "lists_dev p = {(i, v). \<exists>q \<in> set (prim_seats p). pq_seat q = i \<and> v \<in> set (pq_devices q)}"

definition listed :: "primary \<Rightarrow> (nat \<times> nat) set" where
  "listed p = {(i, v). \<exists>d \<in> set (prim_devices p). pv_seat d = Some i \<and> pv_id d = v}"

definition offered :: "primary \<Rightarrow> nat set" where
  "offered p = {y. \<exists>f \<in> set (prim_offers p). po_source f = Some y}"

definition prim_inv :: "primary \<Rightarrow> bool" where
  "prim_inv p \<longleftrightarrow> owns p = owned p \<and> lists_dev p = listed p \<and> offered p \<subseteq> source_ids p \<and>
     distinct (map pq_seat (prim_seats p)) \<and> distinct (map ps_id (prim_sources p)) \<and>
     distinct (map pv_id (prim_devices p)) \<and>
     (\<forall>x \<in> source_ids p \<union> device_ids p. x < prim_next p)"

lemma source_of_None: "prim_source_of p y = None \<longleftrightarrow> y \<notin> source_ids p"
  by (auto simp: prim_source_of_def source_ids_def find_None_iff)

lemma device_of_None: "prim_device_of p v = None \<longleftrightarrow> v \<notin> device_ids p"
  by (auto simp: prim_device_of_def device_ids_def find_None_iff)

lemma seat_find_None: "qdwin_primary_seat_find p i = None \<longleftrightarrow> i \<notin> pq_seat ` set (prim_seats p)"
  by (auto simp: qdwin_primary_seat_find_def find_None_iff)

lemma seat_find_Some: "qdwin_primary_seat_find p i = Some q \<Longrightarrow> q \<in> set (prim_seats p) \<and> pq_seat q = i"
  by (auto simp: qdwin_primary_seat_find_def dest: find_Some_mem)

lemma source_of_Some: "prim_source_of p y = Some a \<Longrightarrow> a \<in> set (prim_sources p) \<and> ps_id a = y"
  by (auto simp: prim_source_of_def dest: find_Some_mem)

lemma device_of_Some: "prim_device_of p v = Some d \<Longrightarrow> d \<in> set (prim_devices p) \<and> pv_id d = v"
  by (auto simp: prim_device_of_def dest: find_Some_mem)

lemmas found = seat_find_Some source_of_Some device_of_Some

text \<open>What each operation does to the parts of the state.\<close>

lemma psend_parts [simp]:
  "prim_seats (psend es p) = prim_seats p" "prim_sources (psend es p) = prim_sources p"
  "prim_offers (psend es p) = prim_offers p" "prim_devices (psend es p) = prim_devices p"
  "prim_rings (psend es p) = prim_rings p" "prim_next (psend es p) = prim_next p"
  "prim_ub (psend es p) = prim_ub p" "prim_out (psend es p) = prim_out p @ es"
  by (simp_all add: psend_def)

lemma inv_psend [simp]: "prim_inv (psend es p) = prim_inv p"
  by (simp add: prim_inv_def owns_def owned_def lists_dev_def listed_def offered_def source_ids_def device_ids_def)


lemma bex_upd_where [simp]:
  "(\<exists>x \<in> set (upd_where P f xs). Q x) \<longleftrightarrow> (\<exists>x \<in> set xs. P x \<and> Q (f x)) \<or> (\<exists>x \<in> set xs. \<not> P x \<and> Q x)"
  by (auto simp: set_upd_where)

lemma image_upd_where [simp]:
  assumes "\<And>x. g (f x) = g x"
  shows "g ` set (upd_where P f xs) = g ` set xs"
proof -
  have "set (map g (upd_where P f xs)) = set (map g xs)"
    using assms by simp
  then show ?thesis by simp
qed

text \<open>A step that keeps the links, follows no dangling one and hands no data over.\<close>

fun is_send :: "clip_effect \<Rightarrow> bool" where
  "is_send (Primary_send y m fd c) \<longleftrightarrow> True"
| "is_send _ \<longleftrightarrow> False"

definition sends :: "primary \<Rightarrow> clip_effect list" where
  "sends p = filter is_send (prim_out p)"

definition quiet :: "primary \<Rightarrow> primary \<Rightarrow> bool" where
  "quiet p r \<longleftrightarrow> prim_inv r \<and> prim_ub r = prim_ub p \<and> sends r = sends p"

lemma quiet_trans: "quiet p q \<Longrightarrow> quiet q r \<Longrightarrow> quiet p r"
  by (simp add: quiet_def)

lemma quiet_inv: "quiet p r \<Longrightarrow> prim_inv r"
  by (simp add: quiet_def)

lemma quiet_psend: "list_all (\<lambda>e. \<not> is_send e) es \<Longrightarrow> quiet p r \<Longrightarrow> quiet p (psend es r)"
  by (simp add: quiet_def sends_def list_all_iff)

lemma quiet_out: "prim_inv r \<Longrightarrow> prim_ub r = prim_ub p \<Longrightarrow> prim_out r = prim_out p \<Longrightarrow> quiet p r"
  by (simp add: quiet_def sends_def)

lemma unique_seat: "prim_inv p \<Longrightarrow> q \<in> set (prim_seats p) \<Longrightarrow> r \<in> set (prim_seats p) \<Longrightarrow> pq_seat q = pq_seat r \<Longrightarrow> q = r"
  by (auto simp: prim_inv_def distinct_map dest: inj_onD)

lemma unique_source: "prim_inv p \<Longrightarrow> a \<in> set (prim_sources p) \<Longrightarrow> b \<in> set (prim_sources p) \<Longrightarrow> ps_id a = ps_id b \<Longrightarrow> a = b"
  by (auto simp: prim_inv_def distinct_map dest: inj_onD)

definition detach :: "nat \<Rightarrow> primary \<Rightarrow> primary" where
  "detach i p = p\<lparr>prim_seats := upd_where (\<lambda>q. pq_seat q = i) (\<lambda>q. q\<lparr>pq_current := None\<rparr>) (prim_seats p),
     prim_sources := upd_where (\<lambda>a. ps_seat a = Some i) (\<lambda>a. a\<lparr>ps_seat := None\<rparr>) (prim_sources p)\<rparr>"

lemma owns_current: "(i, y) \<in> owns p \<longleftrightarrow> (\<exists>q \<in> set (prim_seats p). pq_seat q = i \<and> pq_current q = Some y)"
  by (simp add: owns_def)

lemma current_owned:
  assumes inv: "prim_inv p" and q: "qdwin_primary_seat_find p i = Some q" and a: "a \<in> set (prim_sources p)"
  shows "ps_seat a = Some i \<longleftrightarrow> pq_current q = Some (ps_id a)"
proof -
  have qs: "q \<in> set (prim_seats p)" "pq_seat q = i"
    using seat_find_Some [OF q] by simp_all
  have "ps_seat a = Some i \<longleftrightarrow> (i, ps_id a) \<in> owned p"
    using a unique_source [OF inv] by (force simp: owned_def)
  also have "\<dots> \<longleftrightarrow> (i, ps_id a) \<in> owns p"
    using inv by (simp add: prim_inv_def)
  also have "\<dots> \<longleftrightarrow> pq_current q = Some (ps_id a)"
    using qs unique_seat [OF inv] by (force simp: owns_def)
  finally show ?thesis .
qed

lemma current_alive:
  assumes inv: "prim_inv p" and "q \<in> set (prim_seats p)" and "pq_current q = Some y"
  shows "y \<in> source_ids p"
proof -
  have "(pq_seat q, y) \<in> owned p"
    using assms by (auto simp: prim_inv_def owns_def)
  then show ?thesis by (auto simp: owned_def source_ids_def)
qed

lemma clear_detach:
  assumes inv: "prim_inv p" and q: "qdwin_primary_seat_find p i = Some q"
  shows "\<exists>es. qdwin_primary_seat_clear_selection i notify p = psend es (detach i p) \<and>
              list_all (\<lambda>e. \<not> is_send e) es"
proof (cases "pq_current q")
  case None
  have "upd_where (\<lambda>a. ps_seat a = Some i) f (prim_sources p) = prim_sources p" for f
    using None current_owned [OF inv q] unfolding upd_where_def by (intro map_idI) auto
  then show ?thesis
    using q None by (intro exI [of _ "map (\<lambda>v. Primary_selection v None) (pq_devices q)"])
      (auto simp: qdwin_primary_seat_clear_selection_def detach_def upd_prim_seat_def psend_def list_all_iff)
next
  case (Some y)
  have "upd_where (\<lambda>a. ps_seat a = Some i) f (prim_sources p) = upd_where (\<lambda>a. ps_id a = y) f (prim_sources p)" for f
    using Some current_owned [OF inv q] unfolding upd_where_def by (intro map_cong) auto
  moreover have "prim_source_of p y \<noteq> None"
    using current_alive [OF inv _ Some] seat_find_Some [OF q] source_of_None by auto
  ultimately show ?thesis
    using q Some
    by (intro exI [of _ "(if notify then [Primary_cancelled y] else []) @ map (\<lambda>v. Primary_selection v None) (pq_devices q)"])
      (auto simp: qdwin_primary_seat_clear_selection_def detach_def upd_prim_seat_def upd_prim_source_def psend_def list_all_iff)
qed

lemma detach_parts [simp]:
  "source_ids (detach i p) = source_ids p" "device_ids (detach i p) = device_ids p"
  "prim_offers (detach i p) = prim_offers p" "prim_devices (detach i p) = prim_devices p"
  "prim_rings (detach i p) = prim_rings p" "prim_next (detach i p) = prim_next p"
  "prim_ub (detach i p) = prim_ub p" "prim_out (detach i p) = prim_out p"
  "map pq_seat (prim_seats (detach i p)) = map pq_seat (prim_seats p)"
  "map ps_id (prim_sources (detach i p)) = map ps_id (prim_sources p)"
  "owns (detach i p) = {(j, y) \<in> owns p. j \<noteq> i}" "owned (detach i p) = {(j, y) \<in> owned p. j \<noteq> i}"
  "lists_dev (detach i p) = lists_dev p" "listed (detach i p) = listed p" "offered (detach i p) = offered p"
  by (auto simp: detach_def source_ids_def device_ids_def owns_def owned_def lists_dev_def listed_def offered_def
      intro: bexI [rotated])

lemma inv_detach: "prim_inv p \<Longrightarrow> prim_inv (detach i p)"
  by (simp add: prim_inv_def)


lemma clear_facts:
  fixes notify :: bool
  assumes "prim_inv p" and "qdwin_primary_seat_find p i \<noteq> None"
  defines "r \<equiv> qdwin_primary_seat_clear_selection i notify p"
  shows "quiet p r" and "source_ids r = source_ids p" and "prim_devices r = prim_devices p"
    and "prim_rings r = prim_rings p" and "prim_next r = prim_next p" and "prim_offers r = prim_offers p"
    and "map pq_seat (prim_seats r) = map pq_seat (prim_seats p)" and "(i, y) \<notin> owns r"
    and "lists_dev r = lists_dev p" and "owned r \<subseteq> owned p"
proof -
  obtain q where "qdwin_primary_seat_find p i = Some q"
    using assms(2) by blast
  then obtain es where r: "r = psend es (detach i p)" and es: "list_all (\<lambda>e. \<not> is_send e) es"
    using clear_detach [OF assms(1)] unfolding r_def by blast
  have ids: "source_ids (psend xs u) = source_ids u" "owns (psend xs u) = owns u" "owned (psend xs u) = owned u"
    "lists_dev (psend xs u) = lists_dev u" for xs u
    by (simp_all add: source_ids_def owns_def owned_def lists_dev_def)
  show "source_ids r = source_ids p" "prim_devices r = prim_devices p"
    "prim_rings r = prim_rings p" "prim_next r = prim_next p" "prim_offers r = prim_offers p"
    "map pq_seat (prim_seats r) = map pq_seat (prim_seats p)" "(i, y) \<notin> owns r" "lists_dev r = lists_dev p" "owned r \<subseteq> owned p"
    unfolding r by (auto simp add: ids)
  show "quiet p r"
    unfolding r by (rule quiet_psend) (use es inv_detach [OF assms(1)] in \<open>auto intro: quiet_out\<close>)
qed

lemmas link_defs = owns_def owned_def lists_dev_def listed_def offered_def source_ids_def device_ids_def

lemma inv_create_source: "prim_inv p \<Longrightarrow> prim_inv (qdwin_primary_manager_create_source c p)"
proof -
  assume inv: "prim_inv p"
  let ?r = "qdwin_primary_manager_create_source c p"
  have "owns ?r = owns p" "owned ?r = owned p" "lists_dev ?r = lists_dev p" "listed ?r = listed p" "offered ?r = offered p"
    "source_ids ?r = insert (prim_next p) (source_ids p)" "device_ids ?r = device_ids p"
    by (auto simp: qdwin_primary_manager_create_source_def link_defs)
  moreover have "prim_next p \<notin> source_ids p"
    using inv by (auto simp: prim_inv_def)
  moreover have "prim_seats ?r = prim_seats p" "prim_devices ?r = prim_devices p" "prim_next ?r = Suc (prim_next p)"
    "map ps_id (prim_sources ?r) = prim_next p # map ps_id (prim_sources p)"
    by (simp_all add: qdwin_primary_manager_create_source_def)
  ultimately show ?thesis
    using inv by (auto simp: prim_inv_def less_Suc_eq source_ids_def)
qed

lemma inv_offer: "prim_inv p \<Longrightarrow> prim_inv (qdwin_primary_source_offer y m p)"
proof -
  assume inv: "prim_inv p"
  let ?f = "\<lambda>a. if QDWIN_MIME_TYPE_MAX < length m \<or> QDWIN_PRIMARY_MIME_MAX \<le> length (ps_mimes a) then a
                            else a\<lparr>ps_mimes := ps_mimes a @ [m]\<rparr>"
  let ?r = "qdwin_primary_source_offer y m p"
  have f: "ps_id (?f a) = ps_id a" "ps_seat (?f a) = ps_seat a" for a :: prim_source
    by simp_all
  have "owns ?r = owns p" "owned ?r = owned p" "lists_dev ?r = lists_dev p" "listed ?r = listed p" "offered ?r = offered p"
    "source_ids ?r = source_ids p" "device_ids ?r = device_ids p"
    "map ps_id (prim_sources ?r) = map ps_id (prim_sources p)"
    unfolding qdwin_primary_source_offer_def upd_prim_source_def link_defs
    by (auto simp del: if_split simp: f)
  then show ?thesis
    using inv by (simp add: prim_inv_def) (simp add: qdwin_primary_source_offer_def upd_prim_source_def)
qed

lemma inv_offer_destroy: "prim_inv p \<Longrightarrow> prim_inv (qdwin_primary_offer_resource_destroy x p)"
proof -
  assume inv: "prim_inv p"
  let ?r = "qdwin_primary_offer_resource_destroy x p"
  have "owns ?r = owns p" "owned ?r = owned p" "lists_dev ?r = lists_dev p" "listed ?r = listed p" "offered ?r \<subseteq> offered p"
    "source_ids ?r = source_ids p" "device_ids ?r = device_ids p"
    by (auto simp: qdwin_primary_offer_resource_destroy_def link_defs)
  then show ?thesis
    using inv by (auto simp: prim_inv_def) (auto simp: qdwin_primary_offer_resource_destroy_def)
qed

lemma offer_source_alive:
  assumes "prim_inv p" and "prim_offer_of p x = Some f" and "po_source f = Some y"
  obtains a where "prim_source_of p y = Some a"
proof -
  have "y \<in> offered p"
    using assms(2,3) by (auto simp: prim_offer_of_def offered_def dest: find_Some_mem)
  then show ?thesis
    using assms(1) that source_of_None [of p y] by (auto simp: prim_inv_def)
qed

lemma inv_receive:
  assumes "prim_inv p"
  shows "prim_inv (qdwin_primary_offer_receive s c x m fd p)"
    and "prim_ub (qdwin_primary_offer_receive s c x m fd p) = prim_ub p"
proof -
  consider "prim_offer_of p x = None" | f where "prim_offer_of p x = Some f" "po_source f = None"
    | f y a where "prim_offer_of p x = Some f" "po_source f = Some y" "prim_source_of p y = Some a"
    using offer_source_alive [OF assms] by (metis not_None_eq)
  then show "prim_inv (qdwin_primary_offer_receive s c x m fd p)"
    "prim_ub (qdwin_primary_offer_receive s c x m fd p) = prim_ub p"
    using assms by (cases; simp add: qdwin_primary_offer_receive_def)+
qed

lemma inv_device_destroy: "prim_inv p \<Longrightarrow> prim_inv (qdwin_primary_device_resource_destroy v p)"
proof -
  assume inv: "prim_inv p"
  let ?r = "qdwin_primary_device_resource_destroy v p"
  have "owns ?r = owns p" "owned ?r = owned p" "lists_dev ?r = {(i, w) \<in> lists_dev p. w \<noteq> v}" "listed ?r = {(i, w) \<in> listed p. w \<noteq> v}"
    "offered ?r = offered p" "source_ids ?r = source_ids p" "device_ids ?r = device_ids p - {v}"
    by (auto simp: qdwin_primary_device_resource_destroy_def Let_def dangling_def link_defs)
  moreover have "prim_next ?r = prim_next p" "prim_sources ?r = prim_sources p"
    "map pq_seat (prim_seats ?r) = map pq_seat (prim_seats p)"
    "map pv_id (prim_devices ?r) = filter (\<lambda>w. w \<noteq> v) (map pv_id (prim_devices p))"
    by (simp_all add: qdwin_primary_device_resource_destroy_def Let_def dangling_def comp_def filter_map)
  ultimately show ?thesis
    using inv by (auto simp: prim_inv_def)
qed


lemma inv_build:
  assumes "prim_inv p" and "y \<in> source_ids p" and "v \<in> device_ids p"
  defines "r \<equiv> qdwin_primary_build_offer_for_device y v p"
  shows "quiet p r" and "source_ids r = source_ids p" and "device_ids r = device_ids p"
proof -
  obtain d where d: "prim_device_of p v = Some d"
    using assms(3) device_of_None [of p v] by auto
  have r: "r = announce_offer y v (pv_client d) p"
    using d by (simp add: r_def qdwin_primary_build_offer_for_device_def)
  have "offered r = insert y (offered p)" "owns r = owns p" "owned r = owned p" "lists_dev r = lists_dev p" "listed r = listed p"
    by (auto simp: r announce_offer_def link_defs)
  moreover show "source_ids r = source_ids p" "device_ids r = device_ids p"
    by (auto simp: r announce_offer_def source_ids_def device_ids_def)
  moreover have "prim_devices r = prim_devices p" "prim_next r = prim_next p + 1"
    "prim_seats r = prim_seats p" "prim_sources r = prim_sources p"
    by (simp_all add: r announce_offer_def)
  ultimately have "prim_inv r"
    using assms(1,2) by (auto simp: prim_inv_def less_Suc_eq)
  then show "quiet p r"
    by (simp add: quiet_def r announce_offer_def sends_def)
qed

lemma inv_build_fold:
  assumes "prim_inv p" and "y \<in> source_ids p" and "set vs \<subseteq> device_ids p"
  shows "quiet p (fold (qdwin_primary_build_offer_for_device y) vs p)"
  using assms
proof (induction vs arbitrary: p)
  case (Cons v vs)
  then have "v \<in> device_ids p" and vs: "set vs \<subseteq> device_ids p"
    by simp_all
  note b = inv_build [OF Cons.prems(1,2) this(1)]
  show ?case
    using Cons.IH [OF quiet_inv [OF b(1)]] b vs Cons.prems(2) by (auto intro: quiet_trans)
qed (simp add: quiet_def)

lemma devices_alive:
  assumes inv: "prim_inv p" and "q \<in> set (prim_seats p)"
  shows "set (pq_devices q) \<subseteq> device_ids p"
proof
  fix v assume "v \<in> set (pq_devices q)"
  then have "(pq_seat q, v) \<in> listed p"
    using assms by (auto simp: prim_inv_def lists_dev_def)
  then show "v \<in> device_ids p"
    by (auto simp: listed_def device_ids_def)
qed

lemma no_told_send: "list_all (\<lambda>e. \<not> is_send e) (qdwin_emit_selection_set s i ms b co)"
  by (cases "Option.bind co (qdwin_secctx_client_lookup s)") (simp_all add: qdwin_emit_selection_set_def)

lemma inv_take:
  assumes inv: "prim_inv p" and y: "y \<in> source_ids p"
    and own: "\<And>x. (i, x) \<in> owns p \<Longrightarrow> x = y" "\<And>j. (j, y) \<in> owned p \<Longrightarrow> j = i"
    and q: "i \<in> pq_seat ` set (prim_seats p)"
  defines "r \<equiv> upd_prim_seat i (\<lambda>q. q\<lparr>pq_current := Some y\<rparr>) (upd_prim_source y (\<lambda>a. a\<lparr>ps_seat := Some i\<rparr>) p)"
  shows "quiet p r" and "source_ids r = source_ids p" and "device_ids r = device_ids p"
proof -
  have "owns r = insert (i, y) {(j, x) \<in> owns p. j \<noteq> i}"
    using q by (auto simp: r_def upd_prim_seat_def upd_prim_source_def owns_def intro: bexI [rotated])
  moreover have "owned r = insert (i, y) {(j, x) \<in> owned p. x \<noteq> y}"
    using y by (auto simp: r_def upd_prim_seat_def upd_prim_source_def owned_def source_ids_def intro: bexI [rotated])
  moreover have "insert (i, y) {(j, x) \<in> owns p. j \<noteq> i} = insert (i, y) {(j, x) \<in> owned p. x \<noteq> y}"
    using inv own by (auto simp: prim_inv_def)
  moreover have "lists_dev r = lists_dev p" "listed r = listed p" "offered r = offered p"
    by (auto simp: r_def upd_prim_seat_def upd_prim_source_def lists_dev_def listed_def offered_def)
  moreover show ids: "source_ids r = source_ids p" "device_ids r = device_ids p"
    by (simp_all add: r_def upd_prim_seat_def upd_prim_source_def source_ids_def device_ids_def)
  moreover have "map pq_seat (prim_seats r) = map pq_seat (prim_seats p)" "map ps_id (prim_sources r) = map ps_id (prim_sources p)"
    "prim_devices r = prim_devices p" "prim_next r = prim_next p"
    by (simp_all add: r_def upd_prim_seat_def upd_prim_source_def)
  ultimately have "prim_inv r"
    using inv by (auto simp: prim_inv_def)
  then show "quiet p r"
    by (rule quiet_out) (simp_all add: r_def upd_prim_seat_def upd_prim_source_def)
qed

lemma inv_announce_all:
  assumes "prim_inv p" and y: "y \<in> source_ids p"
    and "\<And>x. (i, x) \<in> owns p \<Longrightarrow> x = y" "\<And>j. (j, y) \<in> owned p \<Longrightarrow> j = i"
    and "i \<in> pq_seat ` set (prim_seats p)"
  shows "quiet p (announce_all s i y p)"
proof -
  define p1 where "p1 = upd_prim_seat i (\<lambda>q. q\<lparr>pq_current := Some y\<rparr>) (upd_prim_source y (\<lambda>a. a\<lparr>ps_seat := Some i\<rparr>) p)"
  have q1: "quiet p p1" and ids: "source_ids p1 = source_ids p" "device_ids p1 = device_ids p"
    unfolding p1_def by (rule inv_take [OF assms]; assumption)+
  define vs where "vs = (case qdwin_primary_seat_find p1 i of None \<Rightarrow> [] | Some q \<Rightarrow> pq_devices q)"
  have "set vs \<subseteq> device_ids p1"
    using devices_alive [OF quiet_inv [OF q1]] seat_find_Some [of p1 i]
    by (cases "qdwin_primary_seat_find p1 i") (auto simp: vs_def)
  then have "quiet p (fold (qdwin_primary_build_offer_for_device y) vs p1)"
    using inv_build_fold [OF quiet_inv [OF q1]] y ids q1 by (auto intro: quiet_trans)
  then show ?thesis
    by (auto simp: announce_all_def Let_def p1_def [symmetric] vs_def [symmetric] no_told_send split: option.split intro!: quiet_psend)
qed


text \<open>The seat that has the source selected lets go of it.\<close>

definition leave_seat :: "prim_source \<Rightarrow> primary \<Rightarrow> primary" where
  "leave_seat a p =
     (case ps_seat a of
        None \<Rightarrow> p
      | Some i \<Rightarrow>
          (case qdwin_primary_seat_find p i of
             None \<Rightarrow> dangling p
           | Some q \<Rightarrow> if pq_current q = Some (ps_id a) then qdwin_primary_seat_clear_selection i False p else p))"

lemma inv_leave_seat:
  assumes inv: "prim_inv p" and a: "a \<in> set (prim_sources p)"
  shows "quiet p (leave_seat a p) \<and> (\<forall>j. (j, ps_id a) \<notin> owned (leave_seat a p))"
proof (cases "ps_seat a")
  case None
  then have "(j, ps_id a) \<notin> owned p" for j
    using a unique_source [OF inv] by (force simp: owned_def)
  then show ?thesis
    using None inv by (simp add: leave_seat_def quiet_def)
next
  case (Some i)
  then have "(i, ps_id a) \<in> owns p"
    using a inv by (auto simp: prim_inv_def owned_def)
  then have "qdwin_primary_seat_find p i \<noteq> None"
    by (auto simp: seat_find_None owns_def)
  then obtain q where q: "qdwin_primary_seat_find p i = Some q"
    by blast
  have "pq_current q = Some (ps_id a)"
    using current_owned [OF inv q a] Some by simp
  then have p1: "leave_seat a p = qdwin_primary_seat_clear_selection i False p"
    using Some q by (simp add: leave_seat_def)
  note c = clear_facts [OF inv, where i = i and notify = False, unfolded p1 [symmetric] q]
  have "(j, ps_id a) \<notin> owned (leave_seat a p)" for j
  proof
    assume "(j, ps_id a) \<in> owned (leave_seat a p)"
    then have "(j, ps_id a) \<in> owned p" and o: "(j, ps_id a) \<in> owns (leave_seat a p)"
      using c(1,10) by (auto simp: quiet_def prim_inv_def)
    then have "j = i"
      using Some a unique_source [OF inv] by (force simp: owned_def)
    then show False
      using c(8) o by simp
  qed
  then show ?thesis
    using c(1) by simp
qed

lemma inv_source_destroy:
  assumes inv: "prim_inv p"
  shows "quiet p (qdwin_primary_source_resource_destroy y p)"
proof (cases "prim_source_of p y")
  case (Some a)
  have a: "a \<in> set (prim_sources p)" "ps_id a = y"
    using source_of_Some [OF Some] by simp_all
  define p1 where "p1 = leave_seat a p"
  have p1: "quiet p p1 \<and> (\<forall>j. (j, y) \<notin> owned p1)"
    using inv_leave_seat [OF inv a(1)] a(2) by (simp add: p1_def)
  define r where "r = (qdwin_primary_source_clear_offers y p1)\<lparr>prim_sources := [a \<leftarrow> prim_sources p1. ps_id a \<noteq> y]\<rparr>"
  have "owns r = owns p1" "owned r = owned p1" "lists_dev r = lists_dev p1" "listed r = listed p1" "offered r = offered p1 - {y}"
    "source_ids r = source_ids p1 - {y}" "device_ids r = device_ids p1"
    using p1 by (auto simp: r_def qdwin_primary_source_clear_offers_def link_defs intro: bexI [rotated])
  moreover have "prim_seats r = prim_seats p1" "prim_devices r = prim_devices p1" "prim_next r = prim_next p1"
    "map ps_id (prim_sources r) = filter (\<lambda>x. x \<noteq> y) (map ps_id (prim_sources p1))" "prim_ub r = prim_ub p1" "prim_out r = prim_out p1"
    by (simp_all add: r_def qdwin_primary_source_clear_offers_def filter_map comp_def)
  ultimately have "quiet p1 r"
    using p1 by (intro quiet_out) (auto simp: quiet_def prim_inv_def)
  moreover have "qdwin_primary_source_resource_destroy y p = r"
    using Some by (simp add: qdwin_primary_source_resource_destroy_def p1_def [unfolded leave_seat_def a(2), symmetric] r_def Let_def
        qdwin_primary_source_clear_offers_def)
  ultimately show ?thesis
    using p1 by (auto intro: quiet_trans)
qed (simp add: qdwin_primary_source_resource_destroy_def quiet_def inv)

lemma quiet_serial:
  fixes i :: nat and n :: u32
  assumes "quiet p p1"
  defines "r \<equiv> upd_prim_seat i (\<lambda>q. q\<lparr>pq_serial := n\<rparr>) p1"
  shows "quiet p r" and "owns r = owns p1" and "owned r = owned p1" and "source_ids r = source_ids p1"
    and "map pq_seat (prim_seats r) = map pq_seat (prim_seats p1)"
proof -
  show l: "owns r = owns p1" "owned r = owned p1" "source_ids r = source_ids p1"
    "map pq_seat (prim_seats r) = map pq_seat (prim_seats p1)"
    by (auto simp: r_def upd_prim_seat_def link_defs)
  have "lists_dev r = lists_dev p1" "listed r = listed p1" "offered r = offered p1" "device_ids r = device_ids p1"
    by (auto simp: r_def upd_prim_seat_def link_defs)
  with l have "prim_inv r"
    using quiet_inv [OF assms(1)] by (simp add: prim_inv_def) (simp add: r_def upd_prim_seat_def)
  then show "quiet p r"
    using assms(1) by (simp add: quiet_def sends_def) (simp add: r_def upd_prim_seat_def)
qed

lemma device_seat:
  assumes "prim_inv p" and "Option.bind (prim_device_of p v) pv_seat = Some i"
  obtains q where "qdwin_primary_seat_find p i = Some q"
proof -
  obtain d where "d \<in> set (prim_devices p)" "pv_id d = v" "pv_seat d = Some i"
    using assms(2) by (auto simp: bind_eq_Some_conv dest: device_of_Some)
  then have "(i, v) \<in> lists_dev p"
    using assms(1) by (auto simp: prim_inv_def listed_def)
  then have "qdwin_primary_seat_find p i \<noteq> None"
    by (auto simp: lists_dev_def seat_find_None)
  then show ?thesis
    using that by blast
qed

lemma not_elsewhere:
  assumes inv: "prim_inv p" and "\<not> bound_elsewhere p i y" and "(j, y) \<in> owned p"
  shows "j = i"
proof -
  obtain a where a: "a \<in> set (prim_sources p)" "ps_seat a = Some j" "ps_id a = y"
    using assms(3) by (auto simp: owned_def)
  then obtain b where b: "prim_source_of p y = Some b"
    using source_of_None [of p y] by (auto simp: source_ids_def)
  then have "b = a"
    using a unique_source [OF inv] source_of_Some [OF b] by auto
  then show ?thesis
    using assms(2) a b by (simp add: bound_elsewhere_def)
qed

lemma inv_set_selection:
  assumes inv: "prim_inv p" and yo: "\<And>y. yo = Some y \<Longrightarrow> y \<in> source_ids p"
  shows "quiet p (qdwin_primary_device_set_selection s v yo serial p)"
proof (cases "Option.bind (prim_device_of p v) pv_seat")
  case (Some i)
  then obtain q where q: "qdwin_primary_seat_find p i = Some q"
    using device_seat [OF inv] by blast
  have qs: "q \<in> set (prim_seats p)" "pq_seat q = i"
    using seat_find_Some [OF q] by simp_all
  have q0: "quiet p p"
    using inv by (simp add: quiet_def)
  define stays where "stays \<longleftrightarrow> qdwin_selection_serial_is_stale (pq_serial q) serial (pq_current q \<noteq> None) \<or>
    (case yo of None \<Rightarrow> False | Some y \<Rightarrow> bound_elsewhere p i y)"
  define p1 where "p1 = (if (pq_current q \<noteq> None \<and> pq_current q \<noteq> yo) \<or> yo = None
                          then qdwin_primary_seat_clear_selection i True p else p)"
  define p2 where "p2 = upd_prim_seat i (\<lambda>q. q\<lparr>pq_serial := serial\<rparr>) p1"
  have r: "qdwin_primary_device_set_selection s v yo serial p =
     (if stays then p else case yo of None \<Rightarrow> p2 | Some y \<Rightarrow> announce_all s i y p2)"
    unfolding qdwin_primary_device_set_selection_def stays_def p1_def p2_def
    by (cases "qdwin_selection_serial_is_stale (pq_serial q) serial (pq_current q \<noteq> None)";
        cases "case yo of None \<Rightarrow> False | Some y \<Rightarrow> bound_elsewhere p i y";
        simp only: Some q option.case Let_def simp_thms if_True if_False)
  note c = clear_facts [OF inv, where i = i and notify = True]
  have p1: "quiet p p1" "source_ids p1 = source_ids p" "map pq_seat (prim_seats p1) = map pq_seat (prim_seats p)" "owned p1 \<subseteq> owned p"
    using c q q0 by (auto simp: p1_def)
  note p2 = quiet_serial [OF p1(1), of i serial, folded p2_def]
  have "quiet p2 (announce_all s i y p2)" if go: "\<not> stays" and y: "yo = Some y" for y
  proof (rule inv_announce_all)
    have "i \<in> set (map pq_seat (prim_seats p2))"
      unfolding p2(5) p1(3) using qs by auto
    then show "prim_inv p2" "y \<in> source_ids p2" "i \<in> pq_seat ` set (prim_seats p2)"
      using quiet_inv [OF p2(1)] p1(2) p2(4) yo [OF y] by auto
    show "x = y" if x: "(i, x) \<in> owns p2" for x
      using x y c(8) [of x] q qs unique_seat [OF inv] unfolding p2(2) p1_def by (force simp: owns_def split: if_splits)
    show "j = i" if "(j, y) \<in> owned p2" for j
      using not_elsewhere [OF inv, of i y j] go y that p1(4) p2(3) by (auto simp: stays_def)
  qed
  then show ?thesis
    unfolding r using p2(1) q0 by (cases yo) (auto intro: quiet_trans)
qed (simp add: qdwin_primary_device_set_selection_def quiet_def inv)


lemma inv_get_device:
  assumes inv: "prim_inv p"
  shows "quiet p (qdwin_primary_manager_get_device c io p)"
proof (cases io)
  case (Some i)
  let ?v = "prim_next p"
  define p0 where "p0 = qdwin_primary_seat_ensure i p"
  have p0: "prim_inv p0" "i \<in> pq_seat ` set (prim_seats p0)" "prim_next p0 = prim_next p" "prim_ub p0 = prim_ub p" "prim_out p0 = prim_out p"
    "source_ids p0 = source_ids p" "device_ids p0 = device_ids p"
    using inv seat_find_None [of p i] by (auto simp: p0_def qdwin_primary_seat_ensure_def prim_inv_def link_defs)
  define p1 where "p1 = p0\<lparr>prim_next := ?v + 1\<rparr>"
  define p2 where "p2 = upd_prim_seat i (\<lambda>q. q\<lparr>pq_devices := ?v # pq_devices q\<rparr>)
     (p1\<lparr>prim_devices := \<lparr>pv_id = ?v, pv_client = c, pv_seat = Some i\<rparr> # prim_devices p1\<rparr>)"
  have fresh: "?v \<notin> device_ids p0"
    using inv p0(7) by (auto simp: prim_inv_def)
  have l: "owns p2 = owns p0" "owned p2 = owned p0" "offered p2 = offered p0" "lists_dev p2 = insert (i, ?v) (lists_dev p0)"
    "listed p2 = insert (i, ?v) (listed p0)"
    "source_ids p2 = source_ids p0" "device_ids p2 = insert ?v (device_ids p0)"
    "map pq_seat (prim_seats p2) = map pq_seat (prim_seats p0)"
    using p0(2) by (auto simp: p2_def p1_def upd_prim_seat_def link_defs intro: bexI [rotated])
  moreover have "prim_sources p2 = prim_sources p0" "prim_next p2 = Suc (prim_next p0)" "map pv_id (prim_devices p2) = ?v # map pv_id (prim_devices p0)"
    by (simp_all add: p2_def p1_def upd_prim_seat_def p0)
  ultimately have i2: "prim_inv p2"
    using p0(1,3) fresh by (auto simp: prim_inv_def less_Suc_eq device_ids_def)
  have q2: "quiet p p2"
    using i2 by (simp add: quiet_def sends_def) (simp add: p2_def p1_def upd_prim_seat_def p0)
  have r: "qdwin_primary_manager_get_device c io p =
    (case Option.bind (qdwin_primary_seat_find p2 i) pq_current of
       None \<Rightarrow> p2
     | Some y \<Rightarrow> if prim_source_of p2 y = None then dangling p2 else qdwin_primary_build_offer_for_device y ?v p2)"
    by (simp only: Some qdwin_primary_manager_get_device_def option.case Let_def p2_def p1_def p0_def)
  show ?thesis
  proof (cases "Option.bind (qdwin_primary_seat_find p2 i) pq_current")
    case None
    then show ?thesis
      using q2 by (simp add: r)
  next
    case y: (Some y)
    then have "y \<in> source_ids p2"
      using current_alive [OF i2] by (auto simp: bind_eq_Some_conv dest: seat_find_Some)
    then show ?thesis
      using y inv_build(1) [OF i2, of y ?v] l(7) q2 source_of_None [of p2 y] by (auto simp: r intro: quiet_trans)
  qed
qed (use inv in \<open>auto simp: qdwin_primary_manager_get_device_def quiet_def sends_def\<close>)

lemma inv_seat_destroyed:
  assumes inv: "prim_inv p"
  shows "quiet p (qdwin_primary_seat_seat_destroyed i p)"
proof (cases "qdwin_primary_seat_find p i")
  case (Some q)
  have qs: "q \<in> set (prim_seats p)" "pq_seat q = i"
    using seat_find_Some [OF Some] by simp_all
  note c = clear_facts [OF inv, where i = i and notify = True, unfolded Some]
  define p1 where "p1 = (if pq_current q = None then p else qdwin_primary_seat_clear_selection i True p)"
  have "(i, y) \<notin> owns p" if "pq_current q = None" for y
    using that qs unique_seat [OF inv] by (force simp: owns_def)
  then have p1: "quiet p p1" "(i, y) \<notin> owns p1" "prim_devices p1 = prim_devices p" "lists_dev p1 = lists_dev p" for y
    using c inv by (auto simp: p1_def quiet_def)
  note i1 = quiet_inv [OF p1(1)]
  define r where "r = p1\<lparr>prim_devices := upd_where (\<lambda>d. pv_id d \<in> set (pq_devices q)) (\<lambda>d. d\<lparr>pv_seat := None\<rparr>) (prim_devices p1),
                 prim_rings := pq_devices q # prim_rings p1,
                 prim_seats := [r \<leftarrow> prim_seats p1. pq_seat r \<noteq> i]\<rparr>"
  have dev: "v \<in> set (pq_devices q) \<longleftrightarrow> (i, v) \<in> lists_dev p1" for v
    using qs unique_seat [OF inv] unfolding p1(4) by (force simp: lists_dev_def)
  have uniq: "d = e" if "d \<in> set (prim_devices p1)" "e \<in> set (prim_devices p1)" "pv_id d = pv_id e" for d e
    using that i1 by (auto simp: prim_inv_def distinct_map dest: inj_onD)
  have "lists_dev p1 = listed p1"
    using i1 by (simp add: prim_inv_def)
  then have "listed r = {(j, v) \<in> listed p1. j \<noteq> i}"
    unfolding r_def dev using uniq by (fastforce simp: listed_def)
  moreover have "owns r = owns p1" "owned r = owned p1" "offered r = offered p1" "lists_dev r = {(j, v) \<in> lists_dev p1. j \<noteq> i}"
    "source_ids r = source_ids p1" "device_ids r = device_ids p1"
    using p1(2) by (auto simp: r_def link_defs)
  moreover have "prim_sources r = prim_sources p1" "prim_next r = prim_next p1" "map pv_id (prim_devices r) = map pv_id (prim_devices p1)"
    "map pq_seat (prim_seats r) = filter (\<lambda>j. j \<noteq> i) (map pq_seat (prim_seats p1))"
    by (simp_all add: r_def filter_map comp_def)
  ultimately have "prim_inv r"
    using i1 by (auto simp: prim_inv_def)
  then have "quiet p1 r"
    by (rule quiet_out) (simp_all add: r_def)
  moreover have "qdwin_primary_seat_seat_destroyed i p = r"
    using Some by (simp add: qdwin_primary_seat_seat_destroyed_def r_def p1_def Let_def)
  ultimately show ?thesis
    using p1(1) by (auto intro: quiet_trans)
qed (simp add: qdwin_primary_seat_seat_destroyed_def quiet_def inv)


lemma device_destroy_out:
  "prim_out (qdwin_primary_device_resource_destroy v p) = prim_out p"
  "prim_ub (qdwin_primary_device_resource_destroy v p) = (prim_ub p \<or> (\<exists>r \<in> set (prim_rings p). at_end v r))"
  by (auto simp: qdwin_primary_device_resource_destroy_def dangling_def Let_def)

definition faults :: "primary \<Rightarrow> unit list" where
  "faults p = (if prim_ub p then [()] else [])"

text \<open>The one step that can follow a dangling link: a device is destroyed that is next to the head of
  a device list whose seat is gone.\<close>

fun outlives_seat :: "qdwin \<times> prim_event \<Rightarrow> primary \<Rightarrow> bool" where
  "outlives_seat (s, Pr_device_destroyed v) p \<longleftrightarrow> (\<exists>r \<in> set (prim_rings p). at_end v r)"
| "outlives_seat _ p \<longleftrightarrow> False"

fun hands_over :: "qdwin \<times> prim_event \<Rightarrow> primary \<Rightarrow> clip_effect \<Rightarrow> bool" where
  "hands_over (s, Pr_receive c x mime fd) p e \<longleftrightarrow>
     (\<exists>f y a. prim_offer_of p x = Some f \<and> po_source f = Some y \<and> prim_source_of p y = Some a \<and>
        qdwin_primary_same_silo s (ps_client a) c \<and> e = Primary_send y mime fd c)"
| "hands_over _ p e \<longleftrightarrow> False"

lemma receive_sends:
  "x \<in> set (sends (qdwin_primary_offer_receive s c y m fd p)) \<Longrightarrow> x \<in> set (sends p) \<or> hands_over (s, Pr_receive c y m fd) p x"
  by (auto simp: sends_def qdwin_primary_offer_receive_def dangling_def split: option.splits if_splits)

lemma step_quiet:
  assumes "prim_inv p" and "\<not> outlives_seat e p" and "\<And>s c x m fd. e \<noteq> (s, Pr_receive c x m fd)"
  shows "quiet p (prim_step e p)"
proof -
  have q0: "quiet p p"
    using assms(1) by (simp add: quiet_def)
  obtain s ev where e: "e = (s, ev)"
    by (cases e)
  show ?thesis
  proof (cases ev)
    case (Pr_create_source c)
    then show ?thesis
      using inv_create_source [OF assms(1)] by (simp add: e quiet_out qdwin_primary_manager_create_source_def)
  next
    case (Pr_offer y m)
    then show ?thesis
      using inv_offer [OF assms(1)] by (simp add: e quiet_out qdwin_primary_source_offer_def upd_prim_source_def)
  next
    case (Pr_device_destroyed v)
    then show ?thesis
      using inv_device_destroy [OF assms(1)] assms(2) by (auto simp: e device_destroy_out intro!: quiet_out)
  next
    case (Pr_set_selection v yo n)
    then show ?thesis
      using inv_set_selection [OF assms(1), of yo s v n] q0 source_of_None [of p] by (cases yo) (auto simp: e)
  next
    case (Pr_receive c x m fd)
    then show ?thesis
      using assms(3) e by blast
  next
    case (Pr_offer_destroyed x)
    then show ?thesis
      using inv_offer_destroy [OF assms(1)] by (simp add: e quiet_out qdwin_primary_offer_resource_destroy_def)
  next
    case (Pr_clear i)
    then show ?thesis
      using clear_facts(1) [OF assms(1)] q0 by (simp add: e)
  qed (simp_all add: e inv_source_destroy inv_get_device inv_seat_destroyed assms(1))
qed

lemma step_facts:
  assumes "prim_inv p"
  shows "prim_inv (prim_step e p)"
    and "prim_ub (prim_step e p) \<Longrightarrow> prim_ub p \<or> outlives_seat e p"
    and "x \<in> set (sends (prim_step e p)) \<Longrightarrow> x \<in> set (sends p) \<or> hands_over e p x"
proof -
  have "prim_inv (prim_step e p) \<and> (prim_ub (prim_step e p) \<longrightarrow> prim_ub p \<or> outlives_seat e p) \<and>
    (\<forall>x. x \<in> set (sends (prim_step e p)) \<longrightarrow> x \<in> set (sends p) \<or> hands_over e p x)"
  proof (cases "\<exists>s c x m fd. e = (s, Pr_receive c x m fd)")
    case True
    then obtain s c x m fd where e: "e = (s, Pr_receive c x m fd)"
      by blast
    show ?thesis
      unfolding e using inv_receive [OF assms] receive_sends [of _ s c x m fd p] by (simp del: hands_over.simps)
  next
    case other: False
    show ?thesis
    proof (cases "outlives_seat e p")
      case True
      then obtain s v where "e = (s, Pr_device_destroyed v)"
        by (cases "(e, p)" rule: outlives_seat.cases) auto
      then show ?thesis
        using inv_device_destroy [OF assms] True by (auto simp: sends_def device_destroy_out)
    next
      case False
      then show ?thesis
        using step_quiet [OF assms] other by (auto simp: quiet_def)
    qed
  qed
  then show "prim_inv (prim_step e p)"
    and "prim_ub (prim_step e p) \<Longrightarrow> prim_ub p \<or> outlives_seat e p"
    and "x \<in> set (sends (prim_step e p)) \<Longrightarrow> x \<in> set (sends p) \<or> hands_over e p x"
    by blast+
qed

interpretation prim_faults: traced_component prim_step prim_inv faults "\<lambda>e p x. outlives_seat e p"
  by unfold_locales (auto simp: step_facts(1) faults_def dest: step_facts(2) split: if_splits)

interpretation prim_sends: traced_component prim_step prim_inv sends hands_over
  by unfold_locales (rule step_facts(3))

lemma no_primary_inv: "prim_inv no_primary"
  by (simp add: prim_inv_def no_primary_def link_defs)

lemma no_primary_empty: "sends no_primary = []" "faults no_primary = []" "prim_ub no_primary = False"
  by (simp_all add: no_primary_def sends_def faults_def)


section \<open>Properties\<close>

text \<open>C8: whatever clients, shell and seats do, in any order, the primary selection hands data over
  only inside a silo: every \<open>send\<close> event goes out while a client asks for an offer whose source
  is alive, and that client and the owner of the source are the same client, or both are
  untagged, or both carry tags with the same non-empty engine and application id.\<close>

theorem primary_stays_in_silo:
  assumes "Primary_send y mime fd c \<in> set (prim_out (fold prim_step es no_primary))"
  shows "\<exists>n < length es. \<exists>s x a. es ! n = (s, Pr_receive c x mime fd) \<and>
           prim_source_of (fold prim_step (take n es) no_primary) y = Some a \<and>
           (ps_client a = c \<or>
            qdwin_secctx_client_lookup s (ps_client a) = None \<and> qdwin_secctx_client_lookup s c = None \<or>
            silo_of s (ps_client a) \<noteq> None \<and> silo_of s (ps_client a) = silo_of s c)"
proof -
  let ?at = "\<lambda>n. fold prim_step (take n es) no_primary"
  have "Primary_send y mime fd c \<in> set (sends (fold prim_step es no_primary))"
    using assms by (simp add: sends_def)
  then obtain n where n: "n < length es" "hands_over (es ! n) (?at n) (Primary_send y mime fd c)"
    using prim_sends.run_cause [OF no_primary_inv] by (auto simp: no_primary_empty)
  then obtain s x a where "es ! n = (s, Pr_receive c x mime fd)" "prim_source_of (?at n) y = Some a"
      "qdwin_primary_same_silo s (ps_client a) c"
    by (cases "(es ! n, ?at n, Primary_send y mime fd c)" rule: hands_over.cases) auto
  moreover from this(3) have "ps_client a = c \<or>
      qdwin_secctx_client_lookup s (ps_client a) = None \<and> qdwin_secctx_client_lookup s c = None \<or>
      silo_of s (ps_client a) \<noteq> None \<and> silo_of s (ps_client a) = silo_of s c"
    by (auto simp: qdwin_primary_same_silo_def split: option.splits)
  ultimately show ?thesis
    using n(1) by blast
qed

text \<open>C10: the primary selection uses no freed object, with one exception. From the start, along any
  sequence of events, the links between seats, sources, offers and devices stay consistent, and
  if a freed object was touched then some event destroyed a device whose seat had been
  destroyed before it.\<close>

theorem primary_lifetimes:
  "prim_inv (fold prim_step es no_primary) \<and>
   (prim_ub (fold prim_step es no_primary) \<longrightarrow>
      (\<exists>n < length es. \<exists>s v. es ! n = (s, Pr_device_destroyed v) \<and>
         (\<exists>r \<in> set (prim_rings (fold prim_step (take n es) no_primary)). at_end v r)))"
proof (intro conjI impI)
  show "prim_inv (fold prim_step es no_primary)"
    by (rule prim_faults.run_inv [OF no_primary_inv])
  assume "prim_ub (fold prim_step es no_primary)"
  then obtain n where n: "n < length es" "outlives_seat (es ! n) (fold prim_step (take n es) no_primary)"
    using prim_faults.run_cause [OF no_primary_inv, of "()" es] by (auto simp: faults_def no_primary_empty(3))
  then show "\<exists>n < length es. \<exists>s v. es ! n = (s, Pr_device_destroyed v) \<and>
         (\<exists>r \<in> set (prim_rings (fold prim_step (take n es) no_primary)). at_end v r)"
    by (cases "(es ! n, fold prim_step (take n es) no_primary)" rule: outlives_seat.cases) auto
qed

text \<open>C39: the exception happens. When a seat is destroyed, its devices keep their links to the list
  head inside the freed record; a client that then destroys its device (or disconnects) makes
  the compositor write to freed memory.\<close>

theorem primary_device_outlives_seat:
  assumes "qdwin_primary_seat_find p i = Some q" and "at_end v (pq_devices q)"
  shows "prim_ub (prim_step (s, Pr_device_destroyed v) (prim_step (s, Pr_seat_destroyed i) p))"
  using assms by (simp add: qdwin_primary_seat_seat_destroyed_def device_destroy_out Let_def)


definition demo_primary :: "(qdwin \<times> prim_event) list" where
  "demo_primary = map (Pair demo_state) [Pr_create_source 1, Pr_get_device 1 (Some 7), Pr_get_device 2 (Some 7),
     Pr_set_selection 1 (Some 0) 5, Pr_receive 2 3 ''text/plain'' 9]"

lemmas prim_defs = qdwin_primary_manager_create_source_def upd_prim_source_def
  qdwin_primary_manager_get_device_def qdwin_primary_seat_ensure_def qdwin_primary_seat_find_def upd_prim_seat_def
  qdwin_primary_device_set_selection_def prim_device_of_def prim_source_of_def prim_offer_of_def
  qdwin_selection_serial_is_stale_def bound_elsewhere_def announce_all_def announce_offer_def
  qdwin_primary_build_offer_for_device_def qdwin_primary_seat_clear_selection_def
  qdwin_primary_offer_receive_def qdwin_primary_same_silo_def qdwin_secctx_client_lookup_def
  qdwin_emit_selection_set_def qdwin_shell_can_receive_def psend_def dangling_def

lemma demo_primary_run:
  "fold prim_step demo_primary no_primary =
     \<lparr>prim_seats = [\<lparr>pq_seat = 7, pq_current = Some 0, pq_serial = 5, pq_devices = [2, 1]\<rparr>],
      prim_sources = [\<lparr>ps_id = 0, ps_client = 1, ps_seat = Some 7, ps_mimes = []\<rparr>],
      prim_offers = [\<lparr>po_id = 4, po_client = 1, po_source = Some 0\<rparr>, \<lparr>po_id = 3, po_client = 2, po_source = Some 0\<rparr>],
      prim_devices = [\<lparr>pv_id = 2, pv_client = 2, pv_seat = Some 7\<rparr>, \<lparr>pv_id = 1, pv_client = 1, pv_seat = Some 7\<rparr>],
      prim_rings = [], prim_next = 5, prim_ub = False,
      prim_out = [Primary_selection 2 (Some 3), Primary_selection 1 (Some 4), Primary_send 0 ''text/plain'' 9 2, Fd_close 9]\<rparr>"
  by (simp add: demo_primary_def no_primary_def prim_defs demo_state_def wet_shell_init_def eval_nat_numeral)

theorem primary_stays_in_silo_witness:
  "\<exists>n < length demo_primary. \<exists>s x a. demo_primary ! n = (s, Pr_receive 2 x ''text/plain'' 9) \<and>
     prim_source_of (fold prim_step (take n demo_primary) no_primary) 0 = Some a \<and>
     (ps_client a = 2 \<or>
      qdwin_secctx_client_lookup s (ps_client a) = None \<and> qdwin_secctx_client_lookup s 2 = None \<or>
      silo_of s (ps_client a) \<noteq> None \<and> silo_of s (ps_client a) = silo_of s 2)"
  by (rule primary_stays_in_silo) (simp add: demo_primary_run)

theorem primary_device_outlives_seat_witness:
  "prim_ub (prim_step (demo_state, Pr_device_destroyed 2)
     (prim_step (demo_state, Pr_seat_destroyed 7) (fold prim_step demo_primary no_primary)))"
  by (rule primary_device_outlives_seat, simp add: demo_primary_run qdwin_primary_seat_find_def, simp add: at_end_def)

theorem primary_lifetimes_witness:
  "\<exists>n < 7. \<exists>s v. (demo_primary @ [(demo_state, Pr_seat_destroyed 7), (demo_state, Pr_device_destroyed 2)]) ! n = (s, Pr_device_destroyed v) \<and>
     (\<exists>r \<in> set (prim_rings (fold prim_step (take n (demo_primary @ [(demo_state, Pr_seat_destroyed 7),
        (demo_state, Pr_device_destroyed 2)])) no_primary)). at_end v r)"
proof -
  let ?es = "demo_primary @ [(demo_state, Pr_seat_destroyed 7), (demo_state, Pr_device_destroyed 2)]"
  have "prim_ub (fold prim_step ?es no_primary)"
    by (simp add: demo_primary_run qdwin_primary_seat_seat_destroyed_def device_destroy_out Let_def qdwin_primary_seat_find_def at_end_def)
  moreover have "length ?es = 7"
    by (simp add: demo_primary_def)
  ultimately show ?thesis
    using primary_lifetimes [of ?es] by simp
qed


text \<open>What the shell reads back from a packed list of types: the pieces between line feeds.\<close>

fun split_lf :: "string \<Rightarrow> string list" where
  "split_lf [] = [[]]"
| "split_lf (c # cs) = (if c = CHR 0x0A then [] # split_lf cs else (c # hd (split_lf cs)) # tl (split_lf cs))"

lemma printable_not_lf: "printable c \<noteq> CHR 0x0A"
  by (auto simp: printable_def)

lemma split_lf_nonempty: "split_lf cs \<noteq> []"
  by (cases cs) simp_all

lemma split_lf_append: "CHR 0x0A \<notin> set m \<Longrightarrow> split_lf (m @ cs) = (m @ hd (split_lf cs)) # tl (split_lf cs)"
  using split_lf_nonempty [of cs] by (induction m) auto

lemma split_pack_rest:
  "split_lf (pack_rest False ms) = [] # map (map printable) (filter (\<lambda>m. m \<noteq> []) ms)"
proof (induction ms)
  case (Cons m ms)
  have "CHR 0x0A \<notin> set (map printable m)"
    using printable_not_lf by auto metis
  then show ?case
    using Cons by (simp add: split_lf_append)
qed simp

text \<open>C31: however a client names its types, the packed string the shell is told says exactly which
  non-empty types there are, in order: split at the line feeds it gives each of them with every
  byte outside printable ASCII replaced by a question mark, so that no type can pose as two. It
  is never longer than the buffer the code sizes for it.\<close>

theorem mime_pack_roundtrip:
  "(if filter (\<lambda>m. m \<noteq> []) ms = [] then qdwin_pack_mime_types ms = []
    else split_lf (qdwin_pack_mime_types ms) = map (map printable) (filter (\<lambda>m. m \<noteq> []) ms)) \<and>
   length (qdwin_pack_mime_types ms) \<le> sum_list (map (\<lambda>m. length m + 1) ms)"
proof (intro conjI)
  show "if filter (\<lambda>m. m \<noteq> []) ms = [] then qdwin_pack_mime_types ms = []
    else split_lf (qdwin_pack_mime_types ms) = map (map printable) (filter (\<lambda>m. m \<noteq> []) ms)"
    unfolding qdwin_pack_mime_types_def
  proof (induction ms)
    case (Cons m ms)
    have "CHR 0x0A \<notin> set (map printable m)"
      using printable_not_lf by auto metis
    then show ?case
      using Cons by (simp add: split_lf_append split_pack_rest)
  qed simp
  have "length (pack_rest b ms) \<le> sum_list (map (\<lambda>m. length m + 1) ms)" for b
    by (induction b ms rule: pack_rest.induct) auto
  then show "length (qdwin_pack_mime_types ms) \<le> sum_list (map (\<lambda>m. length m + 1) ms)"
    by (simp add: qdwin_pack_mime_types_def)
qed

end
