(* ===== verification/Selection.thy ===== *)
theory Selection
  imports Primary
begin

text \<open>The clipboard: libweston's data sources, offers and the selection of each seat
  (\<^verbatim>\<open>data-device.c\<close>), the shim through which qdwin lets the shell decide on every paste, and the
  shell requests that move the keyboard focus and clear selections. The state \<open>clip\<close> holds the
  window manager's state, the primary selection and the objects of the clipboard. As in the
  primary selection, following a link to a freed object sets a flag, \<open>clip_ub\<close>; allocation
  failures are left out. Of drag and drop only what hands out offers is modelled: a drag that
  enters the surface of a client. The clipboard manager of libweston (\<^verbatim>\<open>clipboard.c\<close>) listens to the
  selection of each seat as well, before qdwin does: it reads the first type of a new selection through
  a pipe and offers its copy when the selection goes away. What it reads is not modelled; a
  read that fails, which drops the copy, is left out. Its copy has no client, so the shim refuses every
  paste from it, and the reference count of the copy stays at one.\<close>

section \<open>Objects\<close>

text \<open>A source without a client is a copy that the clipboard manager holds. \<open>selectors\<close> lists the
  seats that have had a selection; \<open>boards\<close> is the copy of each seat with its serial, \<open>clip_pipes\<close> the
  write ends of the pipes the clipboard manager has opened.\<close>

record data_source =
  ds_id :: nat
  ds_client :: "nat option"
  ds_mimes :: "string list"
  ds_shim :: bool
  ds_offer :: "nat option"
  ds_actions_set :: bool
  ds_dragged :: bool

record data_offer =
  of_id :: nat
  of_client :: nat
  of_source :: "nat option"

record data_wrap =
  wr_source :: nat
  wr_seat :: nat

record receive_pending =
  pd_handle :: u32
  pd_source :: nat
  pd_fd :: nat
  pd_mime :: string
  pd_client :: nat

record clip =
  wm :: qdwin
  prim :: primary
  data_sources :: "data_source list"
  data_offers :: "data_offer list"
  data_devices :: "(nat \<times> nat) list"
  selection :: "nat \<Rightarrow> nat option \<times> u32"
  selectors :: "nat list"
  boards :: "nat \<Rightarrow> (nat \<times> u32) option"
  clip_pipes :: "nat list"
  data_wraps :: "data_wrap list"
  pendings :: "receive_pending list"
  receive_next :: u32
  clip_next :: nat
  clip_ub :: bool
  clip_out :: "clip_effect list"

definition no_clip :: "qdwin \<Rightarrow> clip" where
  "no_clip s = \<lparr>wm = s, prim = no_primary, data_sources = [], data_offers = [], data_devices = [],
     selection = (\<lambda>_. (None, 0)), selectors = [], boards = (\<lambda>_. None), clip_pipes = [], data_wraps = [], pendings = [], receive_next = 0, clip_next = 0,
     clip_ub = False, clip_out = []\<rparr>"

definition csend :: "clip_effect list \<Rightarrow> clip \<Rightarrow> clip" where
  "csend es c = c\<lparr>clip_out := clip_out c @ es\<rparr>"

definition source_of :: "clip \<Rightarrow> nat \<Rightarrow> data_source option" where
  "source_of c y = find (\<lambda>a. ds_id a = y) (data_sources c)"

definition offer_of :: "clip \<Rightarrow> nat \<Rightarrow> data_offer option" where
  "offer_of c x = find (\<lambda>a. of_id a = x) (data_offers c)"

definition upd_source :: "nat \<Rightarrow> (data_source \<Rightarrow> data_source) \<Rightarrow> clip \<Rightarrow> clip" where
  "upd_source y f c = c\<lparr>data_sources := upd_where (\<lambda>a. ds_id a = y) f (data_sources c)\<rparr>"

text \<open>The source behind a resource a client names.\<close>

definition client_source :: "clip \<Rightarrow> nat \<Rightarrow> data_source option" where
  "client_source c y = (case source_of c y of None \<Rightarrow> None | Some a \<Rightarrow> if ds_client a = None then None else Some a)"

definition upd_client_source :: "nat \<Rightarrow> (data_source \<Rightarrow> data_source) \<Rightarrow> clip \<Rightarrow> clip" where
  "upd_client_source y f c = (if client_source c y = None then c else upd_source y f c)"

definition source_error :: "data_source \<Rightarrow> clip_effect list" where
  "source_error a = (case ds_client a of None \<Rightarrow> [] | Some cl \<Rightarrow> [Clip_error cl])"

section \<open>Sources and offers\<close>

definition create_data_source :: "nat \<Rightarrow> clip \<Rightarrow> clip" where
  "create_data_source cl c =
     c\<lparr>data_sources := \<lparr>ds_id = clip_next c, ds_client = Some cl, ds_mimes = [], ds_shim = False, ds_offer = None,
         ds_actions_set = False, ds_dragged = False\<rparr> # data_sources c,
       clip_next := clip_next c + 1\<rparr>"

definition data_source_offer :: "nat \<Rightarrow> string \<Rightarrow> clip \<Rightarrow> clip" where
  "data_source_offer y mime = upd_client_source y (\<lambda>a. a\<lparr>ds_mimes := ds_mimes a @ [mime]\<rparr>)"

definition ALL_ACTIONS :: u32 where "ALL_ACTIONS = 7"

definition data_source_set_actions :: "nat \<Rightarrow> u32 \<Rightarrow> clip \<Rightarrow> clip" where
  "data_source_set_actions y acts c =
     (case client_source c y of
        None \<Rightarrow> c
      | Some a \<Rightarrow>
          if ds_actions_set a \<or> acts AND NOT ALL_ACTIONS \<noteq> 0 \<or> ds_dragged a then csend (source_error a) c
          else upd_source y (\<lambda>a. a\<lparr>ds_actions_set := True\<rparr>) c)"

definition weston_data_source_send_offer :: "nat \<Rightarrow> nat \<Rightarrow> clip \<Rightarrow> clip" where
  "weston_data_source_send_offer y cl c =
     upd_source y (\<lambda>a. a\<lparr>ds_offer := Some (clip_next c)\<rparr>)
       (c\<lparr>data_offers := \<lparr>of_id = clip_next c, of_client = cl, of_source = Some y\<rparr> # data_offers c,
          clip_next := clip_next c + 1\<rparr>)"

text \<open>\<open>source->cancel\<close>: the clipboard manager's copies ignore it.\<close>

definition cancel_source :: "data_source \<Rightarrow> clip \<Rightarrow> clip" where
  "cancel_source a c = (if ds_client a = None then c else csend [Data_cancelled (ds_id a)] c)"

text \<open>The offer that goes away is disconnected from its source; the source's client is told that
  nobody reads from it. Both clients speak version 3 of the protocol.\<close>

definition destroy_data_offer :: "nat \<Rightarrow> clip \<Rightarrow> clip" where
  "destroy_data_offer x c =
     (case offer_of c x of
        None \<Rightarrow> c
      | Some f \<Rightarrow>
          (let c1 = (case Option.bind (of_source f) (source_of c) of
                       None \<Rightarrow> c
                     | Some a \<Rightarrow>
                         if ds_offer a \<noteq> Some x then c
                         else upd_source (ds_id a) (\<lambda>a. a\<lparr>ds_offer := None\<rparr>) (cancel_source a c))
           in c1\<lparr>data_offers := [f \<leftarrow> data_offers c1. of_id f \<noteq> x]\<rparr>))"

definition get_data_device :: "nat \<Rightarrow> nat \<Rightarrow> clip \<Rightarrow> clip" where
  "get_data_device i cl c =
     (if seat_of (wm c) i = None then c else c\<lparr>data_devices := (i, cl) # data_devices c\<rparr>)"

definition data_device_release :: "nat \<Rightarrow> nat \<Rightarrow> clip \<Rightarrow> clip" where
  "data_device_release i cl c = c\<lparr>data_devices := remove1 (i, cl) (data_devices c)\<rparr>"

section \<open>The shim\<close>

definition qdwin_data_source_wrap_find :: "clip \<Rightarrow> nat \<Rightarrow> data_wrap option" where
  "qdwin_data_source_wrap_find c y = find (\<lambda>w. wr_source w = y) (data_wraps c)"

definition qdwin_install_data_source_wrap :: "nat \<Rightarrow> nat \<Rightarrow> clip \<Rightarrow> clip" where
  "qdwin_install_data_source_wrap i y c =
     (case source_of c y of
        None \<Rightarrow> c
      | Some a \<Rightarrow>
          if ds_shim a then c
          else (upd_source y (\<lambda>a. a\<lparr>ds_shim := True\<rparr>) c)\<lparr>data_wraps := \<lparr>wr_source = y, wr_seat = i\<rparr> # data_wraps c\<rparr>)"

definition next_receive_handle :: "u32 \<Rightarrow> u32" where
  "next_receive_handle n = (if n + 1 = 0 then n + 2 else n + 1)"

definition qdwin_data_source_send_shim :: "nat \<Rightarrow> string \<Rightarrow> nat \<Rightarrow> clip \<Rightarrow> clip" where
  "qdwin_data_source_send_shim y mime fd c =
     (case (qdwin_data_source_wrap_find c y, source_of c y) of
        (Some w, Some a) \<Rightarrow>
          if \<not> qdwin_shell_can_receive 15 (wm c) \<or> QDWIN_MIME_TYPE_MAX < length mime then csend [Fd_close fd] c
          else
            (case (qdwin_toplevel_for_client (wm c) (ds_client a),
                   Option.bind (ds_offer a) (offer_of c)) of
               (Some src, Some f) \<Rightarrow>
                 (case qdwin_toplevel_for_client (wm c) (Some (of_client f)) of
                    Some dst \<Rightarrow>
                      (let h = next_receive_handle (receive_next c);
                           c1 = c\<lparr>receive_next := h,
                                  pendings := \<lparr>pd_handle = h, pd_source = y, pd_fd = fd, pd_mime = mime,
                                               pd_client = of_client f\<rparr> # pendings c,
                                  clip_ub := clip_ub c \<or> seat_of (wm c) (wr_seat w) = None\<rparr>
                       in csend [Told_receive h (name_of_seat (wm c) (wr_seat w)) (tl_handle src) (tl_handle dst) mime] c1)
                  | None \<Rightarrow> csend [Fd_close fd] c)
             | _ \<Rightarrow> csend [Fd_close fd] c)
      | _ \<Rightarrow> csend [Fd_close fd] c)"

text \<open>\<open>source->send\<close>.\<close>

definition source_send :: "data_source \<Rightarrow> string \<Rightarrow> nat \<Rightarrow> clip \<Rightarrow> clip" where
  "source_send a mime fd c =
     (if ds_shim a then qdwin_data_source_send_shim (ds_id a) mime fd c else csend [Data_send (ds_id a) mime fd] c)"

definition data_offer_receive :: "nat \<Rightarrow> string \<Rightarrow> nat \<Rightarrow> clip \<Rightarrow> clip" where
  "data_offer_receive x mime fd c =
     (case Option.bind (offer_of c x) of_source of
        None \<Rightarrow> csend [Fd_close fd] c
      | Some y \<Rightarrow>
          (case source_of c y of
             None \<Rightarrow> c\<lparr>clip_ub := True\<rparr>
           | Some a \<Rightarrow>
               if ds_offer a \<noteq> Some x then csend [Fd_close fd] c
               else source_send a mime fd c))"

section \<open>The decision of the shell\<close>

definition qdwin_data_offer_pending_find :: "clip \<Rightarrow> u32 \<Rightarrow> receive_pending option" where
  "qdwin_data_offer_pending_find c h = find (\<lambda>p. pd_handle p = h) (pendings c)"

definition qdwin_data_offer_pending_close :: "receive_pending \<Rightarrow> bool \<Rightarrow> clip \<Rightarrow> clip" where
  "qdwin_data_offer_pending_close p allow =
     csend [if allow then Data_send (pd_source p) (pd_mime p) (pd_fd p) else Fd_close (pd_fd p)]"

definition qdwin_data_offer_pending_free :: "receive_pending \<Rightarrow> clip \<Rightarrow> clip" where
  "qdwin_data_offer_pending_free p c = c\<lparr>pendings := remove1 p (pendings c)\<rparr>"

definition settle :: "receive_pending \<Rightarrow> bool \<Rightarrow> clip \<Rightarrow> clip" where
  "settle p allow c = qdwin_data_offer_pending_free p (qdwin_data_offer_pending_close p allow c)"

definition qdwin_handle_data_offer_receive_decision :: "wl_resource \<Rightarrow> u32 \<Rightarrow> string \<Rightarrow> clip \<Rightarrow> clip" where
  "qdwin_handle_data_offer_receive_decision r h decision c =
     (if \<not> (shell_bound (wm c) \<and> shell_resource (wm c) = Some r) then csend [Clip_error (cl_id (res_client r))] c
      else case qdwin_data_offer_pending_find c h of
             None \<Rightarrow> c
           | Some p \<Rightarrow> settle p (decision = ''allow'') c)"

definition qdwin_data_offer_pending_timeout_cb :: "u32 \<Rightarrow> clip \<Rightarrow> clip" where
  "qdwin_data_offer_pending_timeout_cb h c =
     (case qdwin_data_offer_pending_find c h of None \<Rightarrow> c | Some p \<Rightarrow> settle p False c)"

definition qdwin_data_offer_pending_free_all :: "clip \<Rightarrow> clip" where
  "qdwin_data_offer_pending_free_all c = fold (\<lambda>p. settle p False) (pendings c) c"

definition qdwin_data_offer_target_destroyed :: "nat \<Rightarrow> clip \<Rightarrow> clip" where
  "qdwin_data_offer_target_destroyed cl c = fold (\<lambda>p. settle p False) [p \<leftarrow> pendings c. pd_client p = cl] c"

definition qdwin_data_source_wrap_on_source_destroy :: "nat \<Rightarrow> clip \<Rightarrow> clip" where
  "qdwin_data_source_wrap_on_source_destroy y c =
     (let c1 = fold (\<lambda>p. settle p False) [p \<leftarrow> pendings c. pd_source p = y] c
      in c1\<lparr>data_wraps := [w \<leftarrow> data_wraps c1. wr_source w \<noteq> y]\<rparr>)"

section \<open>The selection of a seat\<close>

definition focus_client :: "qdwin \<Rightarrow> nat \<Rightarrow> nat option" where
  "focus_client s i = Option.bind (kbd_focus s i) (surface_client s)"

definition send_selection_to :: "nat \<Rightarrow> nat \<Rightarrow> clip \<Rightarrow> clip" where
  "send_selection_to i cl c =
     (case fst (selection c i) of
        None \<Rightarrow> csend [Data_selection cl None] c
      | Some y \<Rightarrow> csend [Data_selection cl (Some (clip_next c))] (weston_data_source_send_offer y cl c))"

definition weston_seat_send_selection :: "nat \<Rightarrow> nat \<Rightarrow> clip \<Rightarrow> clip" where
  "weston_seat_send_selection i cl c =
     fold (\<lambda>_. send_selection_to i cl) [d \<leftarrow> data_devices c. d = (i, cl)] c"

definition wl_data_device_set_keyboard_focus :: "nat \<Rightarrow> clip \<Rightarrow> clip" where
  "wl_data_device_set_keyboard_focus i c =
     (case focus_client (wm c) i of None \<Rightarrow> c | Some cl \<Rightarrow> weston_seat_send_selection i cl c)"

definition qdwin_on_seat_selection_changed :: "nat \<Rightarrow> clip \<Rightarrow> clip" where
  "qdwin_on_seat_selection_changed i c =
     (if qdwin_seat_tracker_for_seat (wm c) i = None then c
      else case Option.bind (fst (selection c i)) (source_of c) of
             None \<Rightarrow> c
           | Some a \<Rightarrow>
               csend (qdwin_emit_selection_set (wm c) i (ds_mimes a) False (ds_client a))
                 (qdwin_install_data_source_wrap i (ds_id a) c))"

text \<open>Everything \<open>weston_seat_set_selection\<close> does before it emits the signal.\<close>

definition put_selection :: "nat \<Rightarrow> nat option \<Rightarrow> u32 \<Rightarrow> clip \<Rightarrow> clip" where
  "put_selection i yo serial c =
     (let c1 = (case fst (selection c i) of
                  None \<Rightarrow> c
                | Some y \<Rightarrow> (case source_of c y of None \<Rightarrow> c\<lparr>clip_ub := True\<rparr> | Some a \<Rightarrow> cancel_source a c))
      in wl_data_device_set_keyboard_focus i
           (c1\<lparr>selection := (selection c1)(i := (yo, serial)), selectors := List.insert i (selectors c1)\<rparr>))"

definition selection_outdated :: "clip \<Rightarrow> nat \<Rightarrow> u32 \<Rightarrow> bool" where
  "selection_outdated c i serial \<longleftrightarrow>
     fst (selection c i) \<noteq> None \<and> snd (selection c i) - serial < UINT32_MAX div 2"

text \<open>The clipboard manager makes the copy of its seat the selection. The signal this emits finds the
  manager's own copy selected, so only qdwin's listener does something.\<close>

definition set_copy_selection :: "nat \<Rightarrow> nat \<Rightarrow> u32 \<Rightarrow> clip \<Rightarrow> clip" where
  "set_copy_selection i b serial c =
     (if selection_outdated c i serial then c
      else qdwin_on_seat_selection_changed i (put_selection i (Some b) serial c))"

text \<open>A source goes away: its offers lose it, and the shim's records of it go.\<close>

definition detach_source :: "nat \<Rightarrow> clip \<Rightarrow> clip" where
  "detach_source y c =
     qdwin_data_source_wrap_on_source_destroy y
       (c\<lparr>data_offers := upd_where (\<lambda>f. of_source f = Some y) (\<lambda>f. f\<lparr>of_source := None\<rparr>) (data_offers c)\<rparr>)"

definition discard_source :: "nat \<Rightarrow> clip \<Rightarrow> clip" where
  "discard_source y c = c\<lparr>data_sources := [a \<leftarrow> data_sources c. ds_id a \<noteq> y]\<rparr>"

text \<open>The copy of a seat is dropped when a client's source has become the seat's selection; no seat has the
  copy selected then.\<close>

definition clipboard_source_unref :: "nat \<Rightarrow> clip \<Rightarrow> clip" where
  "clipboard_source_unref i c =
     (case boards c i of
        None \<Rightarrow> c
      | Some (b, _) \<Rightarrow> discard_source b ((detach_source b c)\<lparr>boards := (boards c)(i := None)\<rparr>))"

definition clipboard_source_create :: "nat \<Rightarrow> string \<Rightarrow> u32 \<Rightarrow> clip \<Rightarrow> clip" where
  "clipboard_source_create i mime serial c =
     c\<lparr>data_sources := \<lparr>ds_id = clip_next c, ds_client = None, ds_mimes = [mime], ds_shim = False, ds_offer = None,
         ds_actions_set = False, ds_dragged = False\<rparr> # data_sources c,
       clip_next := clip_next c + 1, boards := (boards c)(i := Some (clip_next c, serial))\<rparr>"

text \<open>\<open>pipe\<close> is the write end of the pipe that \<open>pipe2\<close> returns, \<open>None\<close> when it fails.\<close>

definition board_copy :: "nat option \<Rightarrow> nat \<Rightarrow> nat \<Rightarrow> u32 \<Rightarrow> clip \<Rightarrow> clip" where
  "board_copy pipe i y serial c =
     (let c1 = clipboard_source_unref i c
      in case (source_of c1 y, pipe) of
           (Some a, Some fd) \<Rightarrow>
             (case ds_mimes a of
                [] \<Rightarrow> c1
              | mime # _ \<Rightarrow>
                  clipboard_source_create i mime serial (source_send a mime fd (c1\<lparr>clip_pipes := fd # clip_pipes c1\<rparr>)))
         | _ \<Rightarrow> c1)"

definition clipboard_set_selection :: "nat option \<Rightarrow> nat \<Rightarrow> clip \<Rightarrow> clip" where
  "clipboard_set_selection pipe i c =
     (case selection c i of
        (None, _) \<Rightarrow> (case boards c i of None \<Rightarrow> c | Some (b, serial) \<Rightarrow> set_copy_selection i b serial c)
      | (Some y, serial) \<Rightarrow> if client_source c y = None then c else board_copy pipe i y serial c)"

definition emit_selection_signal :: "nat option \<Rightarrow> nat \<Rightarrow> clip \<Rightarrow> clip" where
  "emit_selection_signal pipe i c = qdwin_on_seat_selection_changed i (clipboard_set_selection pipe i c)"

definition weston_seat_set_selection :: "nat option \<Rightarrow> nat \<Rightarrow> nat option \<Rightarrow> u32 \<Rightarrow> clip \<Rightarrow> clip" where
  "weston_seat_set_selection pipe i yo serial c =
     (if selection_outdated c i serial then c else emit_selection_signal pipe i (put_selection i yo serial c))"

definition data_device_set_selection :: "nat option \<Rightarrow> nat \<Rightarrow> nat option \<Rightarrow> u32 \<Rightarrow> clip \<Rightarrow> clip" where
  "data_device_set_selection pipe i yo serial c =
     (case Option.bind yo (client_source c) of
        None \<Rightarrow> c
      | Some a \<Rightarrow>
          if seat_of (wm c) i = None then c
          else if ds_actions_set a then csend (source_error a) c
          else weston_seat_set_selection pipe i yo serial c)"

text \<open>A client's source is destroyed: its offers lose it, the shim's records of it go, and every seat
  whose selection it is gets an empty selection, which the clipboard manager then fills. A seat that
  is gone has not taken its listener off the source.\<close>

definition destroy_selection_data_source :: "nat \<Rightarrow> clip \<Rightarrow> clip" where
  "destroy_selection_data_source i c =
     (let c1 = c\<lparr>selection := (selection c)(i := (None, snd (selection c i)))\<rparr>
      in if seat_of (wm c) i = None then c1\<lparr>clip_ub := True\<rparr>
         else emit_selection_signal None i
                (case focus_client (wm c) i of
                   None \<Rightarrow> c1
                 | Some cl \<Rightarrow> if (i, cl) \<in> set (data_devices c) then csend [Data_selection cl None] c1 else c1))"

definition destroy_data_source :: "nat \<Rightarrow> clip \<Rightarrow> clip" where
  "destroy_data_source y c =
     (if client_source c y = None then c
      else
        let c1 = detach_source y c
        in discard_source y
             (fold destroy_selection_data_source [i \<leftarrow> selectors c1. fst (selection c1 i) = Some y] c1))"

section \<open>Drag and drop\<close>

text \<open>A drag of source \<open>y\<close> enters a surface of client \<open>cl\<close> on seat \<open>i\<close>.\<close>

definition weston_drag_set_focus :: "nat \<Rightarrow> nat \<Rightarrow> nat \<Rightarrow> clip \<Rightarrow> clip" where
  "weston_drag_set_focus y i cl c =
     (case client_source c y of
        None \<Rightarrow> c
      | Some a \<Rightarrow>
          (let c1 = (case ds_offer a of
                       None \<Rightarrow> c
                     | Some x \<Rightarrow>
                         upd_source y (\<lambda>a. a\<lparr>ds_offer := None\<rparr>)
                           (c\<lparr>data_offers := upd_where (\<lambda>f. of_id f = x) (\<lambda>f. f\<lparr>of_source := None\<rparr>) (data_offers c)\<rparr>))
           in if (i, cl) \<notin> set (data_devices c1) then c1
              else weston_data_source_send_offer y cl
                     (c1\<lparr>wm := (wm c1)\<lparr>display_serial := display_serial (wm c1) + 1\<rparr>\<rparr>)))"

definition start_drag :: "nat \<Rightarrow> clip \<Rightarrow> clip" where
  "start_drag y = upd_client_source y (\<lambda>a. a\<lparr>ds_dragged := True\<rparr>)"

section \<open>Requests of the shell\<close>

definition seat_by_name :: "qdwin \<Rightarrow> string \<Rightarrow> nat option" where
  "seat_by_name s name = map_option seat_id (find (\<lambda>x. seat_name x = name) (seats s))"

definition on_wm :: "(qdwin \<Rightarrow> qdwin) \<Rightarrow> clip \<Rightarrow> clip" where
  "on_wm f c = c\<lparr>wm := f (wm c)\<rparr>"

text \<open>\<open>wl_display_next_serial\<close>, then a clear with the new serial.\<close>

definition clear_clipboard :: "nat \<Rightarrow> clip \<Rightarrow> clip" where
  "clear_clipboard i c =
     (let c1 = on_wm (\<lambda>s. s\<lparr>display_serial := display_serial s + 1\<rparr>) c
      in weston_seat_set_selection None i None (display_serial (wm c1)) c1)"

definition clear_primary :: "nat \<Rightarrow> clip \<Rightarrow> clip" where
  "clear_primary i c =
     (if qdwin_primary_seat_find (prim c) i = None then c
      else c\<lparr>prim := qdwin_primary_seat_clear_selection i True (prim c)\<rparr>)"

text \<open>The guards every such request starts with: the shell's own resource, and not while locked.\<close>

definition unlocked_shell :: "wl_resource \<Rightarrow> (clip \<Rightarrow> clip) \<Rightarrow> clip \<Rightarrow> clip" where
  "unlocked_shell r body c =
     (if \<not> (shell_bound (wm c) \<and> shell_resource (wm c) = Some r)
      then on_wm (emit (Post_error (res_id r) ERROR_NOT_BOUND)) c
      else if locked (wm c) then on_wm (emit (Post_error (res_id r) ERROR_LOCKED)) c
      else body c)"

definition qdwin_handle_clear_selection :: "wl_resource \<Rightarrow> string \<Rightarrow> bool \<Rightarrow> clip \<Rightarrow> clip" where
  "qdwin_handle_clear_selection r name is_primary =
     unlocked_shell r (\<lambda>c.
       case seat_by_name (wm c) name of
         None \<Rightarrow> c
       | Some i \<Rightarrow>
           if is_primary
           then (case qdwin_primary_seat_find (prim c) i of
                   None \<Rightarrow> c
                 | Some q \<Rightarrow> if qdwin_primary_seat_has_source q then clear_primary i c else c)
           else if fst (selection c i) = None then c else clear_clipboard i c)"

text \<open>The window a focus request names: \<open>None\<close> when the request is dropped, \<open>Some None\<close> when it takes
  the focus away.\<close>

definition focus_target :: "qdwin \<Rightarrow> u32 \<Rightarrow> view option option" where
  "focus_target s h =
     (if h = UINT32_MAX then Some None
      else case qdwin_toplevel_from_handle s h of
             None \<Rightarrow> None
           | Some t \<Rightarrow> if tl_pending_decision t then None else Some (Some (tl_view t)))"

definition clip_seat_set_keyboard_focus :: "nat \<Rightarrow> surface option \<Rightarrow> clip \<Rightarrow> clip" where
  "clip_seat_set_keyboard_focus i so c =
     (if weston_seat_get_keyboard (wm c) i \<noteq> None \<and> kbd_focus (wm c) i \<noteq> so
      then wl_data_device_set_keyboard_focus i (on_wm (weston_seat_set_keyboard_focus i so) c) else c)"

definition clip_activate_input :: "view \<Rightarrow> nat \<Rightarrow> clip \<Rightarrow> clip" where
  "clip_activate_input v i c =
     on_wm (emit (Seat (activate_signal v i))) (clip_seat_set_keyboard_focus i (Some (view_surface (wm c) v)) c)"

definition qdwin_handle_set_keyboard_focus :: "wl_resource \<Rightarrow> string \<Rightarrow> u32 \<Rightarrow> clip \<Rightarrow> clip" where
  "qdwin_handle_set_keyboard_focus r name h =
     unlocked_shell r (\<lambda>c.
       case (seat_by_name (wm c) name, focus_target (wm c) h) of
         (Some i, Some vo) \<Rightarrow>
           (let c1 = clear_primary i (clear_clipboard i c);
                c2 = (case vo of
                        Some v \<Rightarrow> clip_activate_input v i c1
                      | None \<Rightarrow> on_wm (weston_keyboard_set_focus i None) c1)
            in on_wm (qdwin_emit_seat_focus_changed i h) c2)
       | _ \<Rightarrow> c)"

definition qdwin_seat_tracker_silo :: "qdwin \<Rightarrow> nat \<Rightarrow> string" where
  "qdwin_seat_tracker_silo s i = (case Option.bind (qdwin_seat_tracker_for_seat s i) tr_silo of None \<Rightarrow> [] | Some x \<Rightarrow> x)"

definition qdwin_seat_tracker_set_silo :: "nat \<Rightarrow> string \<Rightarrow> qdwin \<Rightarrow> qdwin" where
  "qdwin_seat_tracker_set_silo i silo = upd_tracker i (\<lambda>t. t\<lparr>tr_silo := (if silo = [] then None else Some silo)\<rparr>)"

definition same_silo_move :: "qdwin \<Rightarrow> nat \<Rightarrow> u32 \<Rightarrow> string \<Rightarrow> bool" where
  "same_silo_move s i h silo \<longleftrightarrow> h \<noteq> UINT32_MAX \<and> silo \<noteq> [] \<and> qdwin_seat_tracker_silo s i = silo"

definition qdwin_handle_set_keyboard_focus_v2 :: "wl_resource \<Rightarrow> string \<Rightarrow> u32 \<Rightarrow> string \<Rightarrow> clip \<Rightarrow> clip" where
  "qdwin_handle_set_keyboard_focus_v2 r name h silo =
     unlocked_shell r (\<lambda>c.
       case (seat_by_name (wm c) name, focus_target (wm c) h) of
         (Some i, Some vo) \<Rightarrow>
           (let c1 = (if same_silo_move (wm c) i h silo then c else clear_primary i (clear_clipboard i c));
                c2 = (case vo of
                        Some v \<Rightarrow> clip_activate_input v i c1
                      | None \<Rightarrow> clip_seat_set_keyboard_focus i None c1);
                c3 = on_wm (qdwin_seat_tracker_set_silo i (if h = UINT32_MAX then [] else silo)) c2
            in on_wm (qdwin_emit_seat_focus_changed i h) c3)
       | _ \<Rightarrow> c)"

section \<open>Events\<close>

text \<open>Between the events of the clipboard the rest of the compositor runs: \<open>Cl_wm s\<close> puts any state of
  the window manager in place in which the seats that exist have trackers. The data devices of
  seats that went away become inert, their clipboard managers go, and the primary selection is told of
  them.\<close>

definition tracked :: "qdwin \<Rightarrow> bool" where
  "tracked s \<longleftrightarrow> (\<forall>x \<in> set (seats s). qdwin_seat_tracker_for_seat s (seat_id x) \<noteq> None)"

definition cl_wm :: "qdwin \<Rightarrow> clip \<Rightarrow> clip" where
  "cl_wm s c =
     (if \<not> tracked s then c
      else
        let gone = [i \<leftarrow> map seat_id (seats (wm c)). seat_of s i = None]
        in c\<lparr>wm := s, data_devices := [d \<leftarrow> data_devices c. fst d \<notin> set gone],
             boards := (\<lambda>i. if i \<in> set gone then None else boards c i),
             prim := fold qdwin_primary_seat_seat_destroyed gone (prim c)\<rparr>)"

datatype clip_event =
    Cl_wm qdwin
  | Cl_primary prim_event
  | Cl_create_source nat
  | Cl_offer nat string
  | Cl_set_actions nat u32
  | Cl_source_destroyed nat
  | Cl_get_device nat nat
  | Cl_release_device nat nat
  | Cl_set_selection "nat option" nat "nat option" u32
  | Cl_receive nat string nat
  | Cl_offer_destroyed nat
  | Cl_start_drag nat
  | Cl_drag_enter nat nat nat
  | Cl_decision wl_resource u32 string
  | Cl_timeout u32
  | Cl_client_gone nat
  | Cl_shell_gone
  | Cl_clear wl_resource string bool
  | Cl_focus wl_resource string u32
  | Cl_focus_v2 wl_resource string u32 string

fun clip_step :: "clip_event \<Rightarrow> clip \<Rightarrow> clip" where
  "clip_step (Cl_wm s) = cl_wm s"
| "clip_step (Cl_primary e) = (\<lambda>c. c\<lparr>prim := prim_step (wm c, e) (prim c)\<rparr>)"
| "clip_step (Cl_create_source cl) = create_data_source cl"
| "clip_step (Cl_offer y mime) = data_source_offer y mime"
| "clip_step (Cl_set_actions y acts) = data_source_set_actions y acts"
| "clip_step (Cl_source_destroyed y) = destroy_data_source y"
| "clip_step (Cl_get_device i cl) = get_data_device i cl"
| "clip_step (Cl_release_device i cl) = data_device_release i cl"
| "clip_step (Cl_set_selection pipe i yo serial) = data_device_set_selection pipe i yo serial"
| "clip_step (Cl_receive x mime fd) = data_offer_receive x mime fd"
| "clip_step (Cl_offer_destroyed x) = destroy_data_offer x"
| "clip_step (Cl_start_drag y) = start_drag y"
| "clip_step (Cl_drag_enter y i cl) = weston_drag_set_focus y i cl"
| "clip_step (Cl_decision r h decision) = qdwin_handle_data_offer_receive_decision r h decision"
| "clip_step (Cl_timeout h) = qdwin_data_offer_pending_timeout_cb h"
| "clip_step (Cl_client_gone cl) = qdwin_data_offer_target_destroyed cl"
| "clip_step Cl_shell_gone = qdwin_data_offer_pending_free_all"
| "clip_step (Cl_clear r name is_primary) = qdwin_handle_clear_selection r name is_primary"
| "clip_step (Cl_focus r name h) = qdwin_handle_set_keyboard_focus r name h"
| "clip_step (Cl_focus_v2 r name h silo) = qdwin_handle_set_keyboard_focus_v2 r name h silo"

section \<open>The links of the clipboard\<close>

definition alive :: "clip \<Rightarrow> nat set" where
  "alive c = ds_id ` set (data_sources c)"

definition shims :: "clip \<Rightarrow> nat set" where
  "shims c = {y. \<exists>a \<in> set (data_sources c). ds_id a = y \<and> ds_shim a}"

definition copies :: "clip \<Rightarrow> nat set" where
  "copies c = {y. \<exists>a \<in> set (data_sources c). ds_id a = y \<and> ds_client a = None}"

definition sourced :: "clip \<Rightarrow> nat set" where
  "sourced c = {y. \<exists>f \<in> set (data_offers c). of_source f = Some y}"

text \<open>The clipboard managers' copies: each belongs to one seat and is the selection of no other.\<close>

definition boards_ok :: "(nat \<Rightarrow> (nat \<times> u32) option) \<Rightarrow> nat set \<Rightarrow> (nat \<Rightarrow> nat option \<times> u32) \<Rightarrow> bool" where
  "boards_ok B K S \<longleftrightarrow> (\<forall>i b n. B i = Some (b, n) \<longrightarrow>
     b \<in> K \<and> (\<forall>j. fst (S j) = Some b \<longrightarrow> j = i) \<and> (\<forall>j m. B j = Some (b, m) \<longrightarrow> j = i))"

lemma boards_okD:
  assumes "boards_ok B K S" and "B i = Some (b, n)"
  shows "b \<in> K" and "fst (S j) = Some b \<Longrightarrow> j = i" and "B j = Some (b, m) \<Longrightarrow> j = i"
  using assms unfolding boards_ok_def by metis+

lemma boards_ok_mono:
  assumes "boards_ok B K S" and "K \<subseteq> K'" and "\<And>i x. B' i = Some x \<Longrightarrow> B i = Some x" and "\<And>j b. fst (S' j) = Some b \<Longrightarrow> fst (S j) = Some b"
  shows "boards_ok B' K' S'"
  unfolding boards_ok_def
proof (intro allI impI conjI)
  fix i b n
  assume "B' i = Some (b, n)"
  then have B: "B i = Some (b, n)"
    by (rule assms(3))
  show "b \<in> K'"
    using boards_okD(1) [OF assms(1) B] assms(2) by blast
  show "j = i" if "fst (S' j) = Some b" for j
    using boards_okD(2) [OF assms(1) B] assms(4) [OF that] by blast
  show "j = i" if "B' j = Some (b, m)" for j m
    using boards_okD(3) [OF assms(1) B] assms(3) [OF that] by blast
qed

text \<open>The source of a seat's selection is alive and goes through the shim, as do the sources of
  pending pastes; offers and the shim's records name sources that are alive.\<close>

definition clip_inv :: "clip \<Rightarrow> bool" where
  "clip_inv c \<longleftrightarrow> tracked (wm c) \<and> distinct (map ds_id (data_sources c)) \<and> (\<forall>y \<in> alive c. y < clip_next c) \<and>
     (\<forall>i y. fst (selection c i) = Some y \<longrightarrow> y \<in> shims c \<and> i \<in> set (selectors c)) \<and>
     sourced c \<subseteq> alive c \<and> pd_source ` set (pendings c) \<subseteq> shims c \<and> wr_source ` set (data_wraps c) \<subseteq> alive c \<and>
     boards_ok (boards c) (copies c) (selection c)"

lemma clip_invD:
  assumes "clip_inv c"
  shows "tracked (wm c)" and "distinct (map ds_id (data_sources c))" and "\<And>y. y \<in> alive c \<Longrightarrow> y < clip_next c"
    and "\<And>i y. fst (selection c i) = Some y \<Longrightarrow> y \<in> shims c" and "\<And>i y. fst (selection c i) = Some y \<Longrightarrow> i \<in> set (selectors c)"
    and "sourced c \<subseteq> alive c" and "pd_source ` set (pendings c) \<subseteq> shims c" and "wr_source ` set (data_wraps c) \<subseteq> alive c"
    and "boards_ok (boards c) (copies c) (selection c)"
  using assms by (simp_all add: clip_inv_def)

lemma clip_invI:
  assumes "tracked (wm c)" and "distinct (map ds_id (data_sources c))" and "\<And>y. y \<in> alive c \<Longrightarrow> y < clip_next c"
    and "\<And>i y. fst (selection c i) = Some y \<Longrightarrow> y \<in> shims c" and "\<And>i y. fst (selection c i) = Some y \<Longrightarrow> i \<in> set (selectors c)"
    and "sourced c \<subseteq> alive c" and "pd_source ` set (pendings c) \<subseteq> shims c" and "wr_source ` set (data_wraps c) \<subseteq> alive c"
    and "boards_ok (boards c) (copies c) (selection c)"
  shows "clip_inv c"
  using assms by (simp add: clip_inv_def)

definition shimmed :: "nat \<Rightarrow> clip \<Rightarrow> bool" where
  "shimmed y c \<longleftrightarrow> y < clip_next c \<and> (y \<in> alive c \<longrightarrow> y \<in> shims c)"

fun is_flow :: "clip_effect \<Rightarrow> bool" where
  "is_flow (Data_send y m fd) \<longleftrightarrow> True"
| "is_flow (Fd_close fd) \<longleftrightarrow> True"
| "is_flow (Told_receive h n a b m) \<longleftrightarrow> True"
| "is_flow _ \<longleftrightarrow> False"

definition flows :: "clip \<Rightarrow> clip_effect list" where
  "flows c = filter is_flow (clip_out c)"

text \<open>A step that keeps the links and moves no data: nothing is sent, closed or announced, no paste
  starts or ends, and no source loses its shim.\<close>

definition calm :: "clip \<Rightarrow> clip \<Rightarrow> bool" where
  "calm c d \<longleftrightarrow> (clip_inv c \<longrightarrow> clip_inv d \<and> clip_ub d = clip_ub c \<and> flows d = flows c \<and> pendings d = pendings c \<and>
     clip_pipes d = clip_pipes c \<and> (\<forall>y. shimmed y c \<longrightarrow> shimmed y d))"

lemma calm_refl [simp]: "calm c c"
  by (simp add: calm_def)

lemma calm_trans: "calm c d \<Longrightarrow> calm d e \<Longrightarrow> calm c e"
  unfolding calm_def by simp

lemma csend_parts [simp]:
  "wm (csend es c) = wm c" "data_sources (csend es c) = data_sources c" "data_offers (csend es c) = data_offers c"
  "data_devices (csend es c) = data_devices c" "selection (csend es c) = selection c" "selectors (csend es c) = selectors c"
  "data_wraps (csend es c) = data_wraps c" "pendings (csend es c) = pendings c" "receive_next (csend es c) = receive_next c"
  "clip_next (csend es c) = clip_next c" "clip_ub (csend es c) = clip_ub c" "clip_out (csend es c) = clip_out c @ es"
  "prim (csend es c) = prim c" "boards (csend es c) = boards c" "clip_pipes (csend es c) = clip_pipes c"
  by (simp_all add: csend_def)

lemmas sets_defs = alive_def shims_def sourced_def copies_def

lemma inv_csend [simp]: "clip_inv (csend es c) = clip_inv c" "shimmed y (csend es c) = shimmed y c"
  by (simp_all add: clip_inv_def shimmed_def sets_defs)

lemma calm_csend: "list_all (\<lambda>e. \<not> is_flow e) es \<Longrightarrow> calm c (csend es c)"
  by (simp add: calm_def flows_def list_all_iff)

lemma calm_source_error: "calm c (csend (source_error a) c)"
  by (rule calm_csend) (simp add: source_error_def split: option.split)

lemma calm_cancel: "calm c (cancel_source a c)"
  by (simp add: cancel_source_def calm_csend)

lemma on_wm_parts [simp]:
  "wm (on_wm g c) = g (wm c)" "data_sources (on_wm g c) = data_sources c" "data_offers (on_wm g c) = data_offers c"
  "data_devices (on_wm g c) = data_devices c" "selection (on_wm g c) = selection c" "selectors (on_wm g c) = selectors c"
  "data_wraps (on_wm g c) = data_wraps c" "pendings (on_wm g c) = pendings c" "receive_next (on_wm g c) = receive_next c"
  "clip_next (on_wm g c) = clip_next c" "clip_ub (on_wm g c) = clip_ub c" "clip_out (on_wm g c) = clip_out c"
  "prim (on_wm g c) = prim c" "boards (on_wm g c) = boards c" "clip_pipes (on_wm g c) = clip_pipes c"
  by (simp_all add: on_wm_def)

lemma calm_on_wm: "(tracked (wm c) \<Longrightarrow> tracked (g (wm c))) \<Longrightarrow> calm c (on_wm g c)"
  by (simp add: calm_def clip_inv_def shimmed_def flows_def sets_defs)

subsection \<open>Trackers\<close>

definition roster :: "qdwin \<Rightarrow> nat list \<times> nat list" where
  "roster s = (map seat_id (seats s), map tr_seat (seat_trackers s))"

lemma tracked_roster: "tracked s \<longleftrightarrow> set (fst (roster s)) \<subseteq> set (snd (roster s))"
  by (simp add: tracked_def roster_def qdwin_seat_tracker_for_seat_def find_None_iff subset_eq image_iff) metis

lemma tracked_cong: "roster a = roster b \<Longrightarrow> tracked a = tracked b"
  by (simp add: tracked_roster)

lemma roster_basic [simp]:
  "roster (s\<lparr>display_serial := n\<rparr>) = roster s" "roster (emit e s) = roster s" "roster (send_shell v e2 s) = roster s"
  "roster (qdwin_emit_seat_focus_changed i h s) = roster s"
  by (simp_all add: roster_def emit_def send_shell_def qdwin_emit_seat_focus_changed_def split: option.split)

lemma roster_upd [simp]:
  "(\<And>t. tr_seat (f t) = tr_seat t) \<Longrightarrow> roster (upd_tracker i f s) = roster s"
  "(\<And>x. seat_id (g x) = seat_id x) \<Longrightarrow> roster (upd_seat i g s) = roster s"
  by (simp_all add: roster_def upd_tracker_def upd_seat_def)

lemma roster_focus [simp]:
  "roster (qdwin_seat_emit_focus_now i s) = roster s" "roster (qdwin_on_keyboard_focus_changed i s) = roster s"
  "roster (weston_keyboard_set_focus i so s) = roster s" "roster (weston_seat_set_keyboard_focus i so s) = roster s"
  "roster (qdwin_seat_tracker_set_silo i x s) = roster s"
proof -
  show a: "roster (qdwin_seat_emit_focus_now i s) = roster s" for i s
    by (simp add: qdwin_seat_emit_focus_now_def Let_def split: option.split)
  show b: "roster (qdwin_on_keyboard_focus_changed i s) = roster s" for i s
    by (simp add: qdwin_on_keyboard_focus_changed_def a Let_def split: option.split)
  have k: "roster (upd_kbd i f s) = roster s" for f i s
    by (simp add: upd_kbd_def)
  have "roster (fold (\<lambda>tr. qdwin_on_keyboard_focus_changed (tr_seat tr)) ts u) = roster u" for ts :: "seat_tracker list" and u
    by (rule fold_keeps) (simp add: b)
  then show c: "roster (weston_keyboard_set_focus i so s) = roster s" for i so s
    by (simp add: weston_keyboard_set_focus_def Let_def k split: option.split)
  show "roster (weston_seat_set_keyboard_focus i so s) = roster s"
    by (simp add: weston_seat_set_keyboard_focus_def c)
  show "roster (qdwin_seat_tracker_set_silo i x s) = roster s"
    by (simp add: qdwin_seat_tracker_set_silo_def)
qed

lemma calm_roster: "(\<And>s. roster (g s) = roster s) \<Longrightarrow> calm c (on_wm g c)"
  by (rule calm_on_wm) (simp add: tracked_roster)

subsection \<open>Operations that move no data\<close>

lemma calmI:
  assumes "tracked (wm c) \<Longrightarrow> tracked (wm d)" and "clip_next c \<le> clip_next d" and "shims c \<subseteq> shims d"
    and "alive c \<subseteq> alive d" and "alive d \<subseteq> alive c \<union> {clip_next c ..< clip_next d}"
    and "distinct (map ds_id (data_sources c)) \<Longrightarrow> \<forall>y \<in> alive c. y < clip_next c \<Longrightarrow> distinct (map ds_id (data_sources d))"
    and "sourced d \<subseteq> sourced c \<union> alive c" and "selection d = selection c" and "selectors d = selectors c"
    and "pendings d = pendings c" and "data_wraps d = data_wraps c" and "flows d = flows c" and "clip_ub d = clip_ub c"
    and "copies c \<subseteq> copies d" and "\<And>i x. boards d i = Some x \<Longrightarrow> boards c i = Some x" and "clip_pipes d = clip_pipes c"
  shows "calm c d"
proof -
  have new: "y \<in> alive c \<or> clip_next c \<le> y \<and> y < clip_next d" if "y \<in> alive d" for y
    using that assms(5) by auto
  have "clip_inv d" if inv: "clip_inv c"
  proof (rule clip_invI)
    note i = clip_invD [OF inv]
    show "y < clip_next d" if "y \<in> alive d" for y
      using new [OF that] i(3) assms(2) by (meson order_less_le_trans)
    show "y \<in> shims d" "i \<in> set (selectors d)" if "fst (selection d i) = Some y" for i y
      using that i(4,5) assms(3) unfolding assms(8,9) by blast+
    show "sourced d \<subseteq> alive d"
      using i(6) assms(4,7) by blast
    show "pd_source ` set (pendings d) \<subseteq> shims d"
      using i(7) assms(3) unfolding assms(10) by (rule order_trans)
    show "wr_source ` set (data_wraps d) \<subseteq> alive d"
      using i(8) assms(4) unfolding assms(11) by (rule order_trans)
    show "tracked (wm d)" "distinct (map ds_id (data_sources d))"
      using i(1-3) assms(1,6) by blast+
    show "boards_ok (boards d) (copies d) (selection d)"
      by (rule boards_ok_mono [OF i(9) assms(14,15)]) (simp_all add: assms(8))
  qed
  moreover have "shimmed y d" if "shimmed y c" for y
    using that assms(2,3) new [of y] unfolding shimmed_def by (meson linorder_not_less order_less_le_trans subsetD)
  ultimately show ?thesis
    unfolding calm_def assms(10,12,13,16) by blast
qed

lemma calm_upd_source:
  assumes "\<And>a. ds_id (f a) = ds_id a" and "\<And>a. ds_shim a \<Longrightarrow> ds_shim (f a)" and "\<And>a. ds_client (f a) = ds_client a"
  shows "calm c (upd_source y f c)"
  using assms by (intro calmI) (auto simp: upd_source_def sets_defs flows_def)

lemma calm_upd_client_source:
  assumes "\<And>a. ds_id (f a) = ds_id a" and "\<And>a. ds_shim a \<Longrightarrow> ds_shim (f a)" and "\<And>a. ds_client (f a) = ds_client a"
  shows "calm c (upd_client_source y f c)"
  using calm_upd_source [OF assms] by (simp add: upd_client_source_def)

lemma calm_create: "calm c (create_data_source cl c)"
  by (rule calmI) (auto simp: create_data_source_def sets_defs flows_def)

lemma calm_send_offer: "y \<in> alive c \<Longrightarrow> calm c (weston_data_source_send_offer y cl c)"
proof -
  assume y: "y \<in> alive c"
  let ?d = "c\<lparr>data_offers := \<lparr>of_id = clip_next c, of_client = cl, of_source = Some y\<rparr> # data_offers c, clip_next := clip_next c + 1\<rparr>"
  have "calm c ?d"
    using y by (intro calmI) (auto simp: sets_defs flows_def)
  then show ?thesis
    unfolding weston_data_source_send_offer_def by (rule calm_trans) (rule calm_upd_source; simp)
qed

lemma calm_offers:
  assumes "\<And>f. f \<in> set fs \<Longrightarrow> of_source f \<noteq> None \<Longrightarrow> \<exists>g \<in> set (data_offers c). of_source g = of_source f"
  shows "calm c (c\<lparr>data_offers := fs\<rparr>)"
proof -
  have "sourced (c\<lparr>data_offers := fs\<rparr>) \<subseteq> sourced c"
    using assms by (force simp: sourced_def)
  then show ?thesis
    by (intro calmI) (auto simp: alive_def shims_def copies_def flows_def)
qed

lemma calm_destroy_offer: "calm c (destroy_data_offer x c)"
proof (cases "offer_of c x")
  case (Some f)
  define d where "d = (case Option.bind (of_source f) (source_of c) of
                       None \<Rightarrow> c
                     | Some a \<Rightarrow>
                         if ds_offer a \<noteq> Some x then c
                         else upd_source (ds_id a) (\<lambda>a. a\<lparr>ds_offer := None\<rparr>) (cancel_source a c))"
  have "calm c d"
    unfolding d_def by (simp split: option.split) (intro allI impI calm_trans [OF calm_cancel calm_upd_source]; simp)
  moreover have "calm d (d\<lparr>data_offers := [f \<leftarrow> data_offers d. of_id f \<noteq> x]\<rparr>)"
    by (rule calm_offers) auto
  ultimately show ?thesis
    unfolding destroy_data_offer_def Some option.case Let_def d_def [symmetric] by (rule calm_trans)
qed (simp add: destroy_data_offer_def)

lemma calm_devices: "calm c (c\<lparr>data_devices := x\<rparr>)" "calm c (c\<lparr>prim := p\<rparr>)"
  by (rule calmI; simp add: sets_defs flows_def)+

lemma calm_cl_wm: "calm c (cl_wm s c)"
  by (rule calmI) (simp_all add: cl_wm_def sets_defs flows_def Let_def split: if_splits)

lemma client_source_Some: "client_source c y = Some a \<Longrightarrow> source_of c y = Some a"
  by (simp add: client_source_def split: option.splits if_splits)

lemma calm_drag: "calm c (weston_drag_set_focus y i cl c)"
proof (cases "client_source c y")
  case (Some a)
  then have src: "source_of c y = Some a"
    by (rule client_source_Some)
  define d where "d = (case ds_offer a of
                       None \<Rightarrow> c
                     | Some x \<Rightarrow>
                         upd_source y (\<lambda>a. a\<lparr>ds_offer := None\<rparr>)
                           (c\<lparr>data_offers := upd_where (\<lambda>f. of_id f = x) (\<lambda>f. f\<lparr>of_source := None\<rparr>) (data_offers c)\<rparr>))"
  have u: "calm c (c\<lparr>data_offers := upd_where (\<lambda>f. of_id f = x) (\<lambda>f. f\<lparr>of_source := None\<rparr>) (data_offers c)\<rparr>)" for x
    by (rule calm_offers) (auto simp: set_upd_where split: if_splits)
  have d: "calm c d"
    unfolding d_def by (simp split: option.split) (intro allI impI calm_trans [OF u calm_upd_source]; simp)
  have y: "y \<in> alive d"
    using src by (auto simp: d_def upd_source_def alive_def source_of_def split: option.split dest: find_Some_mem)
  have e: "calm d (on_wm (\<lambda>s. s\<lparr>display_serial := display_serial s + 1\<rparr>) d)"
    by (rule calm_roster) simp
  have "calm d (weston_data_source_send_offer y cl (on_wm (\<lambda>s. s\<lparr>display_serial := display_serial s + 1\<rparr>) d))"
    by (rule calm_trans [OF e], rule calm_send_offer) (use y in \<open>simp add: alive_def\<close>)
  then show ?thesis
    using d unfolding weston_drag_set_focus_def Some option.case Let_def d_def [symmetric] on_wm_def
    by (cases "(i, cl) \<in> set (data_devices d)") (auto intro: calm_trans)
qed (simp add: weston_drag_set_focus_def)

text \<open>Sending offers of the sources in \<open>Y\<close>.\<close>

definition mild :: "nat set \<Rightarrow> clip \<Rightarrow> clip \<Rightarrow> bool" where
  "mild Y c d \<longleftrightarrow> wm d = wm c \<and> clip_next c \<le> clip_next d \<and> shims d = shims c \<and> copies d = copies c \<and>
     map ds_id (data_sources d) = map ds_id (data_sources c) \<and> sourced d \<subseteq> sourced c \<union> Y \<and>
     selection d = selection c \<and> selectors d = selectors c \<and> pendings d = pendings c \<and> data_wraps d = data_wraps c \<and>
     clip_ub d = clip_ub c \<and> flows d = flows c \<and> boards d = boards c \<and> clip_pipes d = clip_pipes c"

lemma mild_refl [simp]: "mild Y c c"
  by (auto simp: mild_def)

lemma alive_ids: "alive c = set (map ds_id (data_sources c))"
  by (simp add: alive_def)

lemma mild_alive: "mild Y c d \<Longrightarrow> alive d = alive c"
  unfolding mild_def alive_ids by simp

lemma mild_trans: "mild Y c d \<Longrightarrow> mild Y d e \<Longrightarrow> mild Y c e"
  unfolding mild_def by auto

lemma mild_send_offer:
  assumes "list_all (\<lambda>e. \<not> is_flow e) es"
  shows "mild {y} c (csend es (weston_data_source_send_offer y cl c))"
proof -
  let ?d = "csend es (weston_data_source_send_offer y cl c)"
  have "shims ?d = shims c" "copies ?d = copies c" "sourced ?d \<subseteq> sourced c \<union> {y}"
    by (auto simp: weston_data_source_send_offer_def upd_source_def sets_defs)
  then show ?thesis
    using assms by (simp add: mild_def flows_def list_all_iff) (simp add: weston_data_source_send_offer_def upd_source_def)
qed

lemma mild_focus: "mild (set_option (fst (selection c i))) c (wl_data_device_set_keyboard_focus i c)"
proof -
  have "mild (set_option (fst (selection c i))) c (fold (\<lambda>_. send_selection_to i cl) ds c)" for ds :: "(nat \<times> nat) list" and cl
  proof (induction ds arbitrary: c)
    case (Cons d ds)
    let ?c = "send_selection_to i cl c"
    have m: "mild (set_option (fst (selection c i))) c ?c"
    proof (cases "fst (selection c i)")
      case None
      then show ?thesis
        by (auto simp: send_selection_to_def mild_def flows_def sets_defs)
    next
      case (Some y)
      then show ?thesis
        using mild_send_offer [of "[Data_selection cl (Some (clip_next c))]" y c cl] by (simp add: send_selection_to_def)
    qed
    moreover have "selection ?c = selection c"
      using m by (simp add: mild_def)
    ultimately show ?case
      using Cons.IH [of ?c] by (auto intro: mild_trans)
  qed simp
  then show ?thesis
    by (auto simp: wl_data_device_set_keyboard_focus_def weston_seat_send_selection_def split: option.split)
qed

lemma mild_calm: "mild Y c d \<Longrightarrow> Y \<subseteq> alive c \<Longrightarrow> calm c d"
  using mild_alive [of Y c d] by (intro calmI) (auto simp: mild_def)

lemma shims_alive: "shims c \<subseteq> alive c"
  by (auto simp: sets_defs)

lemma sel_alive: "clip_inv c \<Longrightarrow> fst (selection c i) = Some y \<Longrightarrow> y \<in> alive c"
  using clip_invD(4) [of c i y] shims_alive by blast

lemma data_source_None: "source_of c y = None \<longleftrightarrow> y \<notin> alive c"
  by (auto simp: source_of_def alive_def find_None_iff)

lemma data_source_Some: "source_of c y = Some a \<Longrightarrow> a \<in> set (data_sources c) \<and> ds_id a = y"
  by (auto simp: source_of_def dest: find_Some_mem)

lemma told_calm: "list_all (\<lambda>e. \<not> is_flow e) (qdwin_emit_selection_set s i ms b co)"
  by (cases "Option.bind co (qdwin_secctx_client_lookup s)") (simp_all add: qdwin_emit_selection_set_def)

text \<open>What the listener does when it finds \<open>yo\<close> selected.\<close>

lemma install_parts:
  fixes i :: nat
  assumes "source_of c y = Some a" and "distinct (map ds_id (data_sources c))"
  defines "d \<equiv> qdwin_install_data_source_wrap i y c"
  shows "wm d = wm c" and "map ds_id (data_sources d) = map ds_id (data_sources c)" and "shims d = insert y (shims c)"
    and "sourced d = sourced c" and "selection d = selection c" and "selectors d = selectors c" and "pendings d = pendings c"
    and "wr_source ` set (data_wraps d) \<subseteq> insert y (wr_source ` set (data_wraps c))"
    and "clip_next d = clip_next c" and "clip_ub d = clip_ub c" and "clip_out d = clip_out c"
    and "boards d = boards c" and "copies d = copies c" and "clip_pipes d = clip_pipes c"
proof -
  have s: "a \<in> set (data_sources c)" "ds_id a = y"
    using data_source_Some [OF assms(1)] by simp_all
  have u: "b = a" if "b \<in> set (data_sources c)" "ds_id b = y" for b
    using assms(2) that s by (auto simp: distinct_map dest: inj_onD)
  show "shims d = insert y (shims c)"
  proof (cases "ds_shim a")
    case True
    then have "y \<in> shims c"
      using s by (auto simp: shims_def)
    then show ?thesis
      using True assms(1) by (auto simp: d_def qdwin_install_data_source_wrap_def)
  next
    case False
    then have "shims d = {x. (\<exists>b \<in> set (data_sources c). ds_id b = y \<and> ds_id b = x) \<or> (\<exists>b \<in> set (data_sources c). ds_id b \<noteq> y \<and> ds_id b = x \<and> ds_shim b)}"
      using assms(1) by (simp add: d_def qdwin_install_data_source_wrap_def shims_def upd_source_def conj_commute)
    also have "\<dots> = insert y (shims c)"
      using s u False unfolding shims_def by blast
    finally show ?thesis .
  qed
  show "wm d = wm c" "map ds_id (data_sources d) = map ds_id (data_sources c)"
    "sourced d = sourced c" "selection d = selection c" "selectors d = selectors c" "pendings d = pendings c"
    "wr_source ` set (data_wraps d) \<subseteq> insert y (wr_source ` set (data_wraps c))"
    "clip_next d = clip_next c" "clip_ub d = clip_ub c" "clip_out d = clip_out c"
    "boards d = boards c" "copies d = copies c" "clip_pipes d = clip_pipes c"
    using assms(1) by (auto simp: d_def qdwin_install_data_source_wrap_def upd_source_def sourced_def copies_def)
qed

text \<open>The state \<open>d\<close> is \<open>c\<close> with \<open>yo\<close> selected on seat \<open>i\<close> and offers of the sources in \<open>Y\<close> sent.\<close>

definition selects :: "nat set \<Rightarrow> nat \<Rightarrow> nat option \<Rightarrow> u32 \<Rightarrow> clip \<Rightarrow> clip \<Rightarrow> bool" where
  "selects Y i yo serial c d \<longleftrightarrow> wm d = wm c \<and> map ds_id (data_sources d) = map ds_id (data_sources c) \<and>
     shims d = set_option yo \<union> shims c \<and> sourced d \<subseteq> sourced c \<union> Y \<and>
     selection d = (selection c)(i := (yo, serial)) \<and> set (selectors c) \<subseteq> set (selectors d) \<and> (yo \<noteq> None \<longrightarrow> i \<in> set (selectors d)) \<and>
     pendings d = pendings c \<and> wr_source ` set (data_wraps d) \<subseteq> set_option yo \<union> wr_source ` set (data_wraps c) \<and>
     clip_next c \<le> clip_next d \<and> flows d = flows c \<and> boards d = boards c \<and> copies d = copies c \<and> clip_pipes d = clip_pipes c"

lemma selects_alive: "selects Y i yo serial c d \<Longrightarrow> alive d = alive c"
  unfolding selects_def alive_ids by simp

lemma selects_calm:
  assumes d: "selects Y i yo serial c d" and Y: "Y \<subseteq> alive c" and yo: "\<And>y. yo = Some y \<Longrightarrow> y \<in> alive c"
    and bd: "\<And>y j n. yo = Some y \<Longrightarrow> boards c j = Some (y, n) \<Longrightarrow> j = i" and ub: "clip_inv c \<Longrightarrow> clip_ub d = clip_ub c"
  shows "calm c d"
  unfolding calm_def
proof
  assume inv: "clip_inv c"
  note i = clip_invD [OF inv]
  note al = selects_alive [OF d]
  have "clip_inv d"
  proof (rule clip_invI)
    show "y < clip_next d" if "y \<in> alive d" for y
      using i(3) [of y] that d al unfolding selects_def by simp
    show "y \<in> shims d" "j \<in> set (selectors d)" if "fst (selection d j) = Some y" for j y
      using that i(4,5) [of j y] d unfolding selects_def by (auto split: if_splits)
    have "wr_source ` set (data_wraps d) \<subseteq> set_option yo \<union> wr_source ` set (data_wraps c)"
      using d by (simp add: selects_def)
    moreover have "set_option yo \<subseteq> alive c"
      using yo by auto
    ultimately show "wr_source ` set (data_wraps d) \<subseteq> alive d"
      using i(8) unfolding al by blast
    show "tracked (wm d)" "distinct (map ds_id (data_sources d))"
      using i(1,2) d unfolding selects_def by simp_all
    show "sourced d \<subseteq> alive d"
      using i(6) d Y unfolding selects_def al by blast
    show "pd_source ` set (pendings d) \<subseteq> shims d"
      using i(7) d unfolding selects_def by auto
    have "boards_ok (boards c) (copies c) ((selection c)(i := (yo, serial)))"
      using i(9) bd unfolding boards_ok_def by (metis fst_conv fun_upd_apply)
    then show "boards_ok (boards d) (copies d) (selection d)"
      using d unfolding selects_def by simp
  qed
  moreover have "shimmed y d" if "shimmed y c" for y
    using that d al unfolding shimmed_def selects_def by auto
  ultimately show "clip_inv d \<and> clip_ub d = clip_ub c \<and> flows d = flows c \<and> pendings d = pendings c \<and>
      clip_pipes d = clip_pipes c \<and> (\<forall>y. shimmed y c \<longrightarrow> shimmed y d)"
    using d ub [OF inv] unfolding selects_def by blast
qed

text \<open>Putting \<open>yo\<close> in place, without the signal: \<open>yo\<close> need not go through the shim yet.\<close>

lemma put_parts:
  fixes i :: nat and yo :: "nat option" and serial :: u32
  assumes inv: "clip_inv c"
  defines "d \<equiv> put_selection i yo serial c"
  shows "wm d = wm c" and "map ds_id (data_sources d) = map ds_id (data_sources c)" and "shims d = shims c"
    and "sourced d \<subseteq> sourced c \<union> set_option yo" and "selection d = (selection c)(i := (yo, serial))"
    and "set (selectors d) = insert i (set (selectors c))" and "pendings d = pendings c" and "data_wraps d = data_wraps c"
    and "clip_next c \<le> clip_next d" and "flows d = flows c" and "boards d = boards c" and "copies d = copies c"
    and "clip_pipes d = clip_pipes c" and "clip_ub d = clip_ub c"
proof -
  define c1 where "c1 = (case fst (selection c i) of
                  None \<Rightarrow> c
                | Some y \<Rightarrow> (case source_of c y of None \<Rightarrow> c\<lparr>clip_ub := True\<rparr> | Some a \<Rightarrow> cancel_source a c))"
  define c2 where "c2 = c1\<lparr>selection := (selection c1)(i := (yo, serial)), selectors := List.insert i (selectors c1)\<rparr>"
  have d: "d = wl_data_device_set_keyboard_focus i c2"
    by (simp add: d_def put_selection_def c1_def c2_def Let_def)
  have c1: "data_sources c1 = data_sources c" "data_offers c1 = data_offers c" "wm c1 = wm c" "selection c1 = selection c"
    "selectors c1 = selectors c" "pendings c1 = pendings c" "data_wraps c1 = data_wraps c" "clip_next c1 = clip_next c"
    "flows c1 = flows c" "boards c1 = boards c" "clip_pipes c1 = clip_pipes c"
    by (auto simp: c1_def flows_def cancel_source_def split: option.split)
  have ub: "clip_ub c1 = clip_ub c"
    using sel_alive [OF inv, of i] by (auto simp: c1_def data_source_None cancel_source_def split: option.split)
  have c2: "alive c2 = alive c" "shims c2 = shims c" "sourced c2 = sourced c" "copies c2 = copies c"
    by (simp_all add: c2_def sets_defs c1)
  have m: "mild (set_option yo) c2 d"
    unfolding d using mild_focus [of c2 i] by (simp add: c2_def)
  show "wm d = wm c" "map ds_id (data_sources d) = map ds_id (data_sources c)" "shims d = shims c"
    "sourced d \<subseteq> sourced c \<union> set_option yo" "selection d = (selection c)(i := (yo, serial))"
    "set (selectors d) = insert i (set (selectors c))" "pendings d = pendings c" "data_wraps d = data_wraps c"
    "clip_next c \<le> clip_next d" "flows d = flows c" "boards d = boards c" "copies d = copies c"
    "clip_pipes d = clip_pipes c" "clip_ub d = clip_ub c"
    using m c1 c2 ub by (simp_all add: mild_def c2_def flows_def)
qed

text \<open>qdwin's listener on a state \<open>c\<close> in which \<open>yo\<close> has been put in place of what \<open>b\<close> had.\<close>

lemma listener_parts:
  assumes tr: "qdwin_seat_tracker_for_seat (wm c) i \<noteq> None" and sel: "selection c = (selection b)(i := (yo, serial))"
    and yo: "\<And>y. yo = Some y \<Longrightarrow> y \<in> alive c" and dist: "distinct (map ds_id (data_sources c))"
    and prev: "wm c = wm b" "map ds_id (data_sources c) = map ds_id (data_sources b)" "shims c = shims b" "sourced c \<subseteq> sourced b \<union> Y"
      "set (selectors c) = insert i (set (selectors b))" "pendings c = pendings b" "data_wraps c = data_wraps b"
      "clip_next b \<le> clip_next c" "flows c = flows b" "boards c = boards b" "copies c = copies b" "clip_pipes c = clip_pipes b"
  shows "selects Y i yo serial b (qdwin_on_seat_selection_changed i c)" and "clip_ub (qdwin_on_seat_selection_changed i c) = clip_ub c"
proof (atomize (full), cases yo)
  case None
  then have "qdwin_on_seat_selection_changed i c = c"
    by (simp add: qdwin_on_seat_selection_changed_def sel)
  then show "selects Y i yo serial b (qdwin_on_seat_selection_changed i c) \<and> clip_ub (qdwin_on_seat_selection_changed i c) = clip_ub c"
    using prev None sel by (auto simp: selects_def)
next
  case (Some y)
  obtain a where a: "source_of c y = Some a"
    using yo [OF Some] data_source_None [of c y] by auto
  have "ds_id a = y"
    using data_source_Some [OF a] by simp
  then have "qdwin_on_seat_selection_changed i c =
      csend (qdwin_emit_selection_set (wm c) i (ds_mimes a) False (ds_client a)) (qdwin_install_data_source_wrap i y c)" (is "_ = csend ?es ?d")
    using tr sel Some a by (auto simp: qdwin_on_seat_selection_changed_def)
  moreover have "flows (csend ?es ?d) = flows ?d" "shims (csend ?es ?d) = shims ?d" "sourced (csend ?es ?d) = sourced ?d" "copies (csend ?es ?d) = copies ?d"
    using told_calm by (simp_all add: flows_def list_all_iff sets_defs)
  ultimately show "selects Y i yo serial b (qdwin_on_seat_selection_changed i c) \<and> clip_ub (qdwin_on_seat_selection_changed i c) = clip_ub c"
    using prev sel Some install_parts [OF a dist, of i] by (auto simp: selects_def flows_def)
qed

text \<open>The listener does not change a state in which the selection goes through the shim already.\<close>

lemma listener_idle:
  assumes inv: "clip_inv c"
  obtains es where "qdwin_on_seat_selection_changed i c = csend es c" and "list_all (\<lambda>e. \<not> is_flow e) es"
proof (cases "qdwin_seat_tracker_for_seat (wm c) i = None \<or> Option.bind (fst (selection c i)) (source_of c) = None")
  case True
  then have "qdwin_on_seat_selection_changed i c = csend [] c"
    by (auto simp: qdwin_on_seat_selection_changed_def csend_def)
  then show ?thesis
    by (rule that) simp
next
  case False
  then obtain y a where y: "fst (selection c i) = Some y" "source_of c y = Some a"
    by (auto split: bind_splits)
  then have a: "a \<in> set (data_sources c)" "ds_id a = y"
    using data_source_Some by blast+
  have "ds_shim a"
    using clip_invD(4) [OF inv y(1)] clip_invD(2) [OF inv] a by (auto simp: shims_def distinct_map dest: inj_onD)
  then have "qdwin_on_seat_selection_changed i c = csend (qdwin_emit_selection_set (wm c) i (ds_mimes a) False (ds_client a)) c"
    using False y a(2) by (auto simp: qdwin_on_seat_selection_changed_def qdwin_install_data_source_wrap_def)
  then show ?thesis
    by (rule that) (rule told_calm)
qed

lemma selects_csend: "selects Y i yo serial c d \<Longrightarrow> list_all (\<lambda>e. \<not> is_flow e) es \<Longrightarrow> selects Y i yo serial c (csend es d)"
  by (simp add: selects_def flows_def list_all_iff sets_defs)

lemma tracked_seat:
  assumes "tracked s" and "i \<in> set (map seat_id (seats s))"
  shows "qdwin_seat_tracker_for_seat s i \<noteq> None"
  using assms by (auto simp: tracked_def)

lemma seat_by_name_mem: "seat_by_name s name = Some i \<Longrightarrow> i \<in> set (map seat_id (seats s))"
  by (auto simp: seat_by_name_def dest: find_Some_mem)

lemma seat_of_mem: "seat_of s i \<noteq> None \<Longrightarrow> i \<in> set (map seat_id (seats s))"
  by (auto simp: seat_of_def dest: find_Some_mem)

text \<open>The signal that nothing is selected: nothing happens, or the copy of the seat is selected.\<close>

lemma signal_cleared:
  assumes inv: "clip_inv c" and i: "i \<in> set (map seat_id (seats (wm c)))" and sel: "fst (selection c i) = None"
  shows "(boards c i = None \<and> emit_selection_signal pipe i c = c \<or>
     (\<exists>b n. boards c i = Some (b, n) \<and> selects {b} i (Some b) n c (emit_selection_signal pipe i c))) \<and>
     calm c (emit_selection_signal pipe i c)"
proof -
  obtain m where m: "selection c i = (None, m)"
    using sel by (cases "selection c i") simp
  show ?thesis
  proof (cases "boards c i")
    case None
    then have "emit_selection_signal pipe i c = c"
      by (simp add: m emit_selection_signal_def clipboard_set_selection_def qdwin_on_seat_selection_changed_def)
    then show ?thesis
      using None by simp
  next
    case (Some x)
    then obtain b n where b: "boards c i = Some (b, n)"
      by (cases x) auto
    have al: "b \<in> alive c"
      using boards_okD(1) [OF clip_invD(9) [OF inv] b] by (auto simp: sets_defs)
    let ?p = "put_selection i (Some b) n c"
    note p = put_parts [OF inv, of i "Some b" n]
    have d: "clipboard_set_selection pipe i c = qdwin_on_seat_selection_changed i ?p"
      using b by (simp add: m clipboard_set_selection_def set_copy_selection_def selection_outdated_def)
    have h: "qdwin_seat_tracker_for_seat (wm ?p) i \<noteq> None" "\<And>y. Some b = Some y \<Longrightarrow> y \<in> alive ?p" "distinct (map ds_id (data_sources ?p))"
      using tracked_seat [OF clip_invD(1) [OF inv] i] al clip_invD(2) [OF inv] by (simp_all add: p(1,2) alive_ids del: set_map)
    have Y: "sourced ?p \<subseteq> sourced c \<union> {b}"
      using p(4) by simp
    note s = listener_parts [OF h(1) p(5) h(2,3) p(1-3) Y p(6-13), folded d]
    have k: "calm c (clipboard_set_selection pipe i c)"
      by (rule selects_calm [OF s(1)]) (use al s(2) p(14) boards_okD(3) [OF clip_invD(9) [OF inv] b] in auto)
    then have "clip_inv (clipboard_set_selection pipe i c)"
      using inv by (simp add: calm_def)
    then obtain es where es: "emit_selection_signal pipe i c = csend es (clipboard_set_selection pipe i c)" "list_all (\<lambda>e. \<not> is_flow e) es"
      unfolding emit_selection_signal_def by (rule listener_idle)
    then have "calm c (emit_selection_signal pipe i c)"
      using calm_trans [OF k calm_csend] by simp
    then show ?thesis
      using selects_csend [OF s(1) es(2)] b es(1) by auto
  qed
qed

lemma calm_inv: "(clip_inv c \<Longrightarrow> calm c d) \<Longrightarrow> calm c d"
  by (auto simp: calm_def)

lemma calm_invD: "calm c d \<Longrightarrow> clip_inv c \<Longrightarrow> clip_inv d"
  by (simp add: calm_def)

lemma calm_focus_client: "calm c (wl_data_device_set_keyboard_focus i c)"
  by (rule calm_inv, rule mild_calm [OF mild_focus]) (auto dest: sel_alive)

lemma calm_seat_focus: "calm c (clip_seat_set_keyboard_focus i so c)"
  unfolding clip_seat_set_keyboard_focus_def
  using calm_trans [OF calm_roster calm_focus_client] by simp

lemma calm_activate: "calm c (clip_activate_input v i c)"
  unfolding clip_activate_input_def by (rule calm_trans [OF calm_seat_focus calm_roster]) simp

lemma put_none_selects: "clip_inv c \<Longrightarrow> selects {} i None serial c (put_selection i None serial c)"
  using put_parts [of c i None serial] by (auto simp: selects_def)

lemma calm_set_none:
  assumes i: "i \<in> set (map seat_id (seats (wm c)))"
  shows "calm c (weston_seat_set_selection pipe i None serial c)"
proof (rule calm_inv)
  assume inv: "clip_inv c"
  let ?p = "put_selection i None serial c"
  note p = put_parts [OF inv, of i None serial]
  have k: "calm c ?p"
    by (rule selects_calm [OF put_none_selects [OF inv]]) (use p(14) in auto)
  have "calm ?p (emit_selection_signal pipe i ?p)"
    using signal_cleared [OF calm_invD [OF k inv], of i pipe] i by (simp add: p(1,5))
  then show "calm c (weston_seat_set_selection pipe i None serial c)"
    using calm_trans [OF k] by (simp add: weston_seat_set_selection_def)
qed

lemma calm_clear_clipboard:
  assumes "i \<in> set (map seat_id (seats (wm c)))"
  shows "calm c (clear_clipboard i c)"
proof -
  let ?d = "on_wm (\<lambda>s. s\<lparr>display_serial := display_serial s + 1\<rparr>) c"
  have "calm c ?d"
    by (rule calm_roster) simp
  then show "calm c (clear_clipboard i c)"
    unfolding clear_clipboard_def Let_def by (rule calm_trans [OF _ calm_set_none]) (use assms in simp)
qed

lemma calm_clear_primary: "calm c (clear_primary i c)"
  by (simp add: clear_primary_def calm_devices)

lemma calm_unlocked: "(\<And>c. calm c (body c)) \<Longrightarrow> calm c (unlocked_shell r body c)"
  using calm_roster [of "emit (Post_error (res_id r) ERROR_NOT_BOUND)"] calm_roster [of "emit (Post_error (res_id r) ERROR_LOCKED)"]
  by (simp add: unlocked_shell_def)

lemma calm_then_wm: "calm c d \<Longrightarrow> (\<And>s. roster (g s) = roster s) \<Longrightarrow> calm c (on_wm g d)"
  by (rule calm_trans [OF _ calm_roster])

lemma calm_clear_both: "seat_by_name (wm c) name = Some i \<Longrightarrow> calm c (clear_primary i (clear_clipboard i c))"
  by (rule calm_trans [OF calm_clear_clipboard calm_clear_primary]) (rule seat_by_name_mem)

lemma calm_shell:
  "calm c (qdwin_handle_clear_selection r name b c)"
  "calm c (qdwin_handle_set_keyboard_focus r name h c)"
  "calm c (qdwin_handle_set_keyboard_focus_v2 r name h silo c)"
proof -
  show "calm c (qdwin_handle_clear_selection r name b c)"
    unfolding qdwin_handle_clear_selection_def
    by (rule calm_unlocked) (auto split: option.split intro: calm_clear_primary calm_clear_clipboard [OF seat_by_name_mem])
  note w = calm_then_wm [OF _ roster_basic(4)] calm_then_wm [OF _ roster_focus(3)] calm_then_wm [OF _ roster_focus(5)]
    calm_trans [OF _ calm_activate] calm_trans [OF _ calm_seat_focus] calm_activate calm_seat_focus
  show "calm c (qdwin_handle_set_keyboard_focus r name h c)"
    unfolding qdwin_handle_set_keyboard_focus_def Let_def
    by (rule calm_unlocked) (auto split: option.split intro!: w calm_clear_both)
  show "calm c (qdwin_handle_set_keyboard_focus_v2 r name h silo c)"
    unfolding qdwin_handle_set_keyboard_focus_v2_def Let_def
    by (rule calm_unlocked) (auto split: option.split intro!: w calm_clear_both)
qed

end
