(* ===== verification/Clipboard.thy ===== *)
theory Clipboard
  imports Selection "HOL-Library.Multiset"
begin

text \<open>What holds of the clipboard along every sequence of events: which steps move descriptors and data,
  who lets data through, and which objects are used after they were freed. A step is described by
  the relation \<open>flow\<close>; its instances for the operations of \<open>Selection\<close> compose to the one for a step of
  the component, and the properties follow from that.\<close>

section \<open>Descriptors and data\<close>

fun fd_of :: "clip_effect \<Rightarrow> nat multiset" where
  "fd_of (Data_send y m fd) = {#fd#}"
| "fd_of (Fd_close fd) = {#fd#}"
| "fd_of _ = {#}"

text \<open>The descriptors that were handed over or closed, and those of pending pastes.\<close>

definition spent :: "clip \<Rightarrow> nat multiset" where
  "spent c = (\<Sum>x \<leftarrow> clip_out c. fd_of x)"

definition held :: "clip \<Rightarrow> nat multiset" where
  "held c = image_mset pd_fd (mset (pendings c))"

lemma spent_flows: "spent c = (\<Sum>x \<leftarrow> flows c. fd_of x)"
proof -
  have "(\<Sum>x \<leftarrow> es. fd_of x) = (\<Sum>x \<leftarrow> filter is_flow es. fd_of x)" for es
  proof (induction es)
    case (Cons x es)
    then show ?case
      by (cases x) simp_all
  qed simp
  then show ?thesis
    by (simp add: spent_def flows_def)
qed

fun is_send :: "clip_effect \<Rightarrow> bool" where
  "is_send (Data_send y m fd) \<longleftrightarrow> True"
| "is_send _ \<longleftrightarrow> False"

definition data_sends :: "clip \<Rightarrow> clip_effect list" where
  "data_sends c = filter is_send (clip_out c)"

lemma data_sends_flows: "data_sends c = filter is_send (flows c)"
proof -
  have "is_send x \<longleftrightarrow> is_send x \<and> is_flow x" for x
    by (cases x) simp_all
  then show ?thesis
    by (simp add: data_sends_def flows_def conj_commute)
qed

text \<open>A step that brings in the descriptors \<open>F\<close>, lets at most the transfers \<open>S\<close> through, and touches a
  freed object only if \<open>U\<close>.\<close>

definition flow :: "nat multiset \<Rightarrow> clip_effect set \<Rightarrow> bool \<Rightarrow> clip \<Rightarrow> clip \<Rightarrow> bool" where
  "flow F S U c d \<longleftrightarrow> (clip_inv c \<longrightarrow> clip_inv d \<and> (\<forall>y. shimmed y c \<longrightarrow> shimmed y d) \<and>
     spent d + held d + mset (clip_pipes c) = spent c + held c + mset (clip_pipes d) + F \<and>
     set (data_sends d) \<subseteq> set (data_sends c) \<union> S \<and> (clip_ub d \<longrightarrow> clip_ub c \<or> U))"

lemma calm_flow: "calm c d \<Longrightarrow> flow {#} {} False c d"
  by (simp add: calm_def flow_def spent_flows held_def data_sends_flows)

lemma flow_mono: "flow F S U c d \<Longrightarrow> S \<subseteq> S' \<Longrightarrow> (U \<Longrightarrow> U') \<Longrightarrow> flow F S' U' c d"
  unfolding flow_def by blast

lemma flow_inv: "(clip_inv c \<Longrightarrow> flow F S U c d) \<Longrightarrow> flow F S U c d"
  by (auto simp: flow_def)

lemma flow_invD: "flow F S U c d \<Longrightarrow> clip_inv c \<Longrightarrow> clip_inv d"
  by (simp add: flow_def)

lemma flow_trans:
  assumes "flow F S U c d" and "flow G T V d e"
  shows "flow (F + G) (S \<union> T) (U \<or> V) c e"
  unfolding flow_def
proof
  assume inv: "clip_inv c"
  note x = assms(1) [unfolded flow_def, rule_format, OF inv]
  then have y: "clip_inv e \<and> (\<forall>y. shimmed y d \<longrightarrow> shimmed y e) \<and>
     spent e + held e + mset (clip_pipes d) = spent d + held d + mset (clip_pipes e) + G \<and>
     set (data_sends e) \<subseteq> set (data_sends d) \<union> T \<and> (clip_ub e \<longrightarrow> clip_ub d \<or> V)"
    using assms(2) by (simp add: flow_def)
  have "(spent e + held e + mset (clip_pipes c)) + (spent d + held d + mset (clip_pipes d)) =
      (spent e + held e + mset (clip_pipes d)) + (spent d + held d + mset (clip_pipes c))"
    by (simp add: ac_simps)
  also have "\<dots> = (spent c + held c + mset (clip_pipes e) + (F + G)) + (spent d + held d + mset (clip_pipes d))"
    using x y by (simp add: ac_simps)
  finally have "spent e + held e + mset (clip_pipes c) = spent c + held c + mset (clip_pipes e) + (F + G)"
    by (rule add_right_imp_eq)
  then show "clip_inv e \<and> (\<forall>y. shimmed y c \<longrightarrow> shimmed y e) \<and>
     spent e + held e + mset (clip_pipes c) = spent c + held c + mset (clip_pipes e) + (F + G) \<and>
     set (data_sends e) \<subseteq> set (data_sends c) \<union> (S \<union> T) \<and> (clip_ub e \<longrightarrow> clip_ub c \<or> U \<or> V)"
    using x y by blast
qed

lemma flow_calm: "calm c d \<Longrightarrow> flow F S U d e \<Longrightarrow> flow F S U c e"
  using flow_trans [OF calm_flow] by fastforce

lemma calm_after: "flow F S U c d \<Longrightarrow> calm d e \<Longrightarrow> flow F S U c e"
  using flow_trans [OF _ calm_flow] by fastforce

text \<open>Only pastes, descriptors and the trace change.\<close>

lemma flow_pendings:
  fixes c :: clip and ps :: "receive_pending list" and es :: "clip_effect list" and n :: u32 and u :: bool and fds :: "nat list"
  defines "d \<equiv> c\<lparr>pendings := ps, receive_next := n, clip_out := clip_out c @ es, clip_ub := u, clip_pipes := fds\<rparr>"
  assumes "clip_inv c \<Longrightarrow> pd_source ` set ps \<subseteq> shims c"
    and "(\<Sum>x \<leftarrow> es. fd_of x) + image_mset pd_fd (mset ps) + mset (clip_pipes c) = held c + mset fds + F"
    and "set (filter is_send es) \<subseteq> S" and "u \<Longrightarrow> clip_ub c \<or> U"
  shows "flow F S U c d"
proof -
  have e: "alive d = alive c" "shims d = shims c" "sourced d = sourced c" "copies d = copies c"
    by (simp_all add: d_def sets_defs)
  have "clip_inv d" if inv: "clip_inv c"
    using inv assms(2) [OF inv] unfolding clip_inv_def e by (simp add: d_def)
  moreover have "spent d + held d + mset (clip_pipes c) = spent c + held c + mset (clip_pipes d) + F"
    using assms(3) by (simp add: spent_def held_def d_def add.assoc)
  moreover have "set (data_sends d) \<subseteq> set (data_sends c) \<union> S" "clip_ub d \<longrightarrow> clip_ub c \<or> U"
    using assms(4,5) by (auto simp: data_sends_def d_def)
  moreover have "shimmed y d = shimmed y c" for y
    by (simp add: shimmed_def e) (simp add: d_def)
  ultimately show ?thesis
    by (simp add: flow_def)
qed

lemma flow_csend:
  assumes "(\<Sum>x \<leftarrow> es. fd_of x) = F" and "set (filter is_send es) \<subseteq> S"
  shows "flow F S False c (csend es c)"
proof -
  have "flow F S False c (c\<lparr>pendings := pendings c, receive_next := receive_next c, clip_out := clip_out c @ es, clip_ub := clip_ub c, clip_pipes := clip_pipes c\<rparr>)"
    by (rule flow_pendings) (use assms clip_invD(7) in \<open>auto simp: held_def ac_simps\<close>)
  then show ?thesis
    by (simp add: csend_def)
qed

lemma settle_eq:
  "settle p b c = c\<lparr>pendings := remove1 p (pendings c),
     clip_out := clip_out c @ [if b then Data_send (pd_source p) (pd_mime p) (pd_fd p) else Fd_close (pd_fd p)]\<rparr>"
  by (simp add: settle_def qdwin_data_offer_pending_free_def qdwin_data_offer_pending_close_def csend_def)

lemma settle_all:
  "fold (\<lambda>p. settle p False) ps c =
     c\<lparr>pendings := fold remove1 ps (pendings c), clip_out := clip_out c @ map (\<lambda>p. Fd_close (pd_fd p)) ps\<rparr>"
  by (induction ps arbitrary: c) (simp_all add: settle_eq)

lemma mset_fold_remove1: "mset (fold remove1 ps xs) = mset xs - mset ps"
  by (induction ps arbitrary: xs) simp_all

lemma set_fold_remove1: "set (fold remove1 ps xs) \<subseteq> set xs"
  by (rule set_mset_mono [of "mset (fold remove1 ps xs)" "mset xs", simplified]) (simp add: mset_fold_remove1)

lemma fold_remove1_filter: "mset (fold remove1 (filter P xs) xs) = mset (filter (\<lambda>x. \<not> P x) xs)"
proof -
  have "mset xs = filter_mset P (mset xs) + filter_mset (\<lambda>x. \<not> P x) (mset xs)"
    by (rule multiset_partition)
  then have "mset xs - filter_mset P (mset xs) = filter_mset (\<lambda>x. \<not> P x) (mset xs)"
    by (metis add_diff_cancel_left')
  then show ?thesis
    by (simp add: mset_fold_remove1)
qed

lemma flow_settle_all:
  assumes "mset ps \<subseteq># mset (pendings c)"
  shows "flow {#} {} False c (fold (\<lambda>p. settle p False) ps c)"
proof -
  have "flow {#} {} False c (c\<lparr>pendings := fold remove1 ps (pendings c), receive_next := receive_next c,
      clip_out := clip_out c @ map (\<lambda>p. Fd_close (pd_fd p)) ps, clip_ub := clip_ub c, clip_pipes := clip_pipes c\<rparr>)"
  proof (rule flow_pendings)
    show "pd_source ` set (fold remove1 ps (pendings c)) \<subseteq> shims c" if "clip_inv c"
      by (rule order_trans [OF image_mono [OF set_fold_remove1] clip_invD(7) [OF that]])
    have "(\<Sum>x \<leftarrow> map (\<lambda>p. Fd_close (pd_fd p)) ps. fd_of x) = image_mset pd_fd (mset ps)"
      by (induction ps) simp_all
    moreover have "image_mset pd_fd (mset ps) + image_mset pd_fd (mset (pendings c) - mset ps) = held c"
      using assms by (simp add: held_def image_mset_union [symmetric] del: image_mset_union)
    ultimately show "(\<Sum>x \<leftarrow> map (\<lambda>p. Fd_close (pd_fd p)) ps. fd_of x) + image_mset pd_fd (mset (fold remove1 ps (pendings c))) +
        mset (clip_pipes c) = held c + mset (clip_pipes c) + {#}"
      by (simp add: mset_fold_remove1)
  qed (simp_all add: filter_map o_def)
  then show ?thesis
    by (simp add: settle_all)
qed

lemma flow_settle:
  assumes p: "p \<in> set (pendings c)"
  shows "flow {#} (if b then {Data_send (pd_source p) (pd_mime p) (pd_fd p)} else {}) False c (settle p b c)"
proof -
  let ?x = "if b then Data_send (pd_source p) (pd_mime p) (pd_fd p) else Fd_close (pd_fd p)"
  have "flow {#} (if b then {Data_send (pd_source p) (pd_mime p) (pd_fd p)} else {}) False c (c\<lparr>pendings := remove1 p (pendings c), receive_next := receive_next c,
      clip_out := clip_out c @ [?x], clip_ub := clip_ub c, clip_pipes := clip_pipes c\<rparr>)"
  proof (rule flow_pendings)
    show "pd_source ` set (remove1 p (pendings c)) \<subseteq> shims c" if "clip_inv c"
      by (rule order_trans [OF image_mono [OF set_remove1_subset] clip_invD(7) [OF that]])
    have "{#pd_fd p#} + image_mset pd_fd (mset (pendings c) - {#p#}) = held c"
      using p by (simp add: held_def image_mset_Diff)
    then show "(\<Sum>x \<leftarrow> [?x]. fd_of x) + image_mset pd_fd (mset (remove1 p (pendings c))) + mset (clip_pipes c) = held c + mset (clip_pipes c) + {#}"
      by simp
  qed simp_all
  then show ?thesis
    by (simp add: settle_eq)
qed

subsection \<open>Reading from a source\<close>

definition wrapped_gone :: "clip \<Rightarrow> nat \<Rightarrow> bool" where
  "wrapped_gone c y \<longleftrightarrow> (\<exists>w \<in> set (data_wraps c). wr_source w = y \<and> seat_of (wm c) (wr_seat w) = None)"

lemma source_shim:
  assumes "source_of c y = Some a" and "distinct (map ds_id (data_sources c))"
  shows "y \<in> shims c \<longleftrightarrow> ds_shim a"
  using data_source_Some [OF assms(1)] assms(2) by (auto simp: shims_def distinct_map dest: inj_onD)

lemma flow_shim:
  assumes y: "y \<in> shims c"
  shows "flow {#fd#} {} (wrapped_gone c y) c (qdwin_data_source_send_shim y mime fd c)"
proof (cases "qdwin_data_source_send_shim y mime fd c = csend [Fd_close fd] c")
  case True
  have "flow {#fd#} {} False c (csend [Fd_close fd] c)"
    by (rule flow_csend) simp_all
  then show ?thesis
    unfolding True by (rule flow_mono) simp_all
next
  case False
  then obtain w a src f dst where w: "qdwin_data_source_wrap_find c y = Some w" and a: "source_of c y = Some a"
      and g: "qdwin_shell_can_receive 15 (wm c)" "\<not> QDWIN_MIME_TYPE_MAX < length mime"
      and t: "qdwin_toplevel_for_client (wm c) (ds_client a) = Some src"
        "Option.bind (ds_offer a) (offer_of c) = Some f" "qdwin_toplevel_for_client (wm c) (Some (of_client f)) = Some dst"
    by (simp add: qdwin_data_source_send_shim_def split: option.splits if_splits)
  define h where "h = next_receive_handle (receive_next c)"
  define p where "p = \<lparr>pd_handle = h, pd_source = y, pd_fd = fd, pd_mime = mime, pd_client = of_client f\<rparr>"
  define e where "e = Told_receive h (name_of_seat (wm c) (wr_seat w)) (tl_handle src) (tl_handle dst) mime"
  have w': "w \<in> set (data_wraps c)" "wr_source w = y"
    using w by (auto simp: qdwin_data_source_wrap_find_def dest: find_Some_mem)
  have "qdwin_data_source_send_shim y mime fd c = c\<lparr>pendings := p # pendings c, receive_next := h, clip_out := clip_out c @ [e],
      clip_ub := clip_ub c \<or> seat_of (wm c) (wr_seat w) = None, clip_pipes := clip_pipes c\<rparr>"
    using w a g t by (intro clip.equality) (simp_all add: qdwin_data_source_send_shim_def Let_def csend_def p_def h_def e_def)
  moreover have "flow {#fd#} {} (wrapped_gone c y) c \<dots>"
  proof (rule flow_pendings)
    show "pd_source ` set (p # pendings c) \<subseteq> shims c" if "clip_inv c"
      using clip_invD(7) [OF that] y by (simp add: p_def)
    show "(\<Sum>x \<leftarrow> [e]. fd_of x) + image_mset pd_fd (mset (p # pendings c)) + mset (clip_pipes c) = held c + mset (clip_pipes c) + {#fd#}"
      by (simp add: e_def p_def held_def)
    show "clip_ub c \<or> wrapped_gone c y" if "clip_ub c \<or> seat_of (wm c) (wr_seat w) = None"
      using that w' by (auto simp: wrapped_gone_def)
  qed (simp add: e_def)
  ultimately show ?thesis
    by simp
qed

lemma flow_source_send:
  assumes "source_of c y = Some a"
  shows "flow {#fd#} {x. x = Data_send y mime fd \<and> y \<notin> shims c} (wrapped_gone c y) c (source_send a mime fd c)"
proof (rule flow_inv)
  assume inv: "clip_inv c"
  note y = source_shim [OF assms clip_invD(2) [OF inv]] and a = data_source_Some [OF assms]
  show ?thesis
  proof (cases "ds_shim a")
    case True
    then show ?thesis
      using flow_mono [OF flow_shim] y a by (simp add: source_send_def)
  next
    case False
    then have "flow {#fd#} {x. x = Data_send y mime fd \<and> y \<notin> shims c} False c (csend [Data_send y mime fd] c)"
      using y by (intro flow_csend) simp_all
    then show ?thesis
      using False a flow_mono by (fastforce simp: source_send_def)
  qed
qed

lemma flow_receive:
  "flow {#fd#} {z. \<exists>y. z = Data_send y mime fd \<and> y \<in> alive c - shims c \<and> Option.bind (offer_of c x) of_source = Some y}
     (\<exists>y. wrapped_gone c y \<and> Option.bind (offer_of c x) of_source = Some y) c (data_offer_receive x mime fd c)"
proof (rule flow_inv)
  assume inv: "clip_inv c"
  have cl: "flow {#fd#} {} False c (csend [Fd_close fd] c)"
    by (rule flow_csend) simp_all
  show ?thesis
  proof (cases "Option.bind (offer_of c x) of_source")
    case None
    then show ?thesis
      using flow_mono [OF cl] by (simp add: data_offer_receive_def)
  next
    case (Some y)
    then obtain f where "f \<in> set (data_offers c)" "of_source f = Some y"
      by (auto simp: offer_of_def dest: find_Some_mem split: bind_splits)
    then have al: "y \<in> alive c"
      using clip_invD(6) [OF inv] by (auto simp: sourced_def)
    then obtain a where a: "source_of c y = Some a"
      using data_source_None [of c y] by auto
    show ?thesis
    proof (cases "ds_offer a = Some x")
      case True
      then have "data_offer_receive x mime fd c = source_send a mime fd c"
        using Some a by (simp add: data_offer_receive_def)
      then show ?thesis
        using flow_mono [OF flow_source_send [OF a]] al Some by auto
    next
      case False
      then show ?thesis
        using Some a flow_mono [OF cl] by (simp add: data_offer_receive_def)
    qed
  qed
qed

subsection \<open>Sources that go away\<close>

text \<open>Nothing but a seat's selection or a clipboard manager refers to \<open>y\<close>.\<close>

definition loose :: "nat \<Rightarrow> clip \<Rightarrow> bool" where
  "loose y c \<longleftrightarrow> y \<notin> sourced c \<and> y \<notin> wr_source ` set (data_wraps c) \<and> y \<notin> pd_source ` set (pendings c)"

lemma detach_source_parts:
  fixes y :: nat
  defines "d c \<equiv> detach_source y c"
  shows "wm (d c) = wm c" and "data_sources (d c) = data_sources c" and "selection (d c) = selection c" and "selectors (d c) = selectors c"
    and "boards (d c) = boards c" and "clip_pipes (d c) = clip_pipes c" and "clip_next (d c) = clip_next c" and "clip_ub (d c) = clip_ub c"
    and "loose y (d c)" and "data_wraps (d c) = [w \<leftarrow> data_wraps c. wr_source w \<noteq> y]"
proof -
  have d: "d c = c\<lparr>data_offers := upd_where (\<lambda>f. of_source f = Some y) (\<lambda>f. f\<lparr>of_source := None\<rparr>) (data_offers c),
      pendings := fold remove1 [p \<leftarrow> pendings c. pd_source p = y] (pendings c),
      clip_out := clip_out c @ map (\<lambda>p. Fd_close (pd_fd p)) [p \<leftarrow> pendings c. pd_source p = y],
      data_wraps := [w \<leftarrow> data_wraps c. wr_source w \<noteq> y]\<rparr>"
    by (simp add: d_def detach_source_def qdwin_data_source_wrap_on_source_destroy_def settle_all Let_def)
  show "wm (d c) = wm c" "data_sources (d c) = data_sources c" "selection (d c) = selection c" "selectors (d c) = selectors c"
    "boards (d c) = boards c" "clip_pipes (d c) = clip_pipes c" "clip_next (d c) = clip_next c" "clip_ub (d c) = clip_ub c"
    "data_wraps (d c) = [w \<leftarrow> data_wraps c. wr_source w \<noteq> y]"
    by (simp_all add: d)
  have "set (pendings (d c)) = set [p \<leftarrow> pendings c. pd_source p \<noteq> y]"
    using fold_remove1_filter [of "\<lambda>p. pd_source p = y" "pendings c"] by (intro mset_eq_setD) (simp add: d)
  moreover have "y \<notin> sourced (d c)"
    by (auto simp: sourced_def d set_upd_where split: if_splits)
  ultimately show "loose y (d c)"
    by (auto simp: loose_def d)
qed

lemma calm_wraps: "set ws \<subseteq> set (data_wraps c) \<Longrightarrow> calm c (c\<lparr>data_wraps := ws\<rparr>)"
proof -
  assume ws: "set ws \<subseteq> set (data_wraps c)"
  let ?d = "c\<lparr>data_wraps := ws\<rparr>"
  have e: "alive ?d = alive c" "shims ?d = shims c" "sourced ?d = sourced c" "copies ?d = copies c"
    by (simp_all add: sets_defs)
  have "clip_inv ?d" if inv: "clip_inv c"
    using inv order_trans [OF image_mono [OF ws] clip_invD(8) [OF inv]] unfolding clip_inv_def e by simp
  then show ?thesis
    by (simp add: calm_def shimmed_def e flows_def)
qed

lemma flow_detach: "flow {#} {} False c (detach_source y c)"
proof -
  let ?c = "c\<lparr>data_offers := upd_where (\<lambda>f. of_source f = Some y) (\<lambda>f. f\<lparr>of_source := None\<rparr>) (data_offers c)\<rparr>"
  have "calm c ?c"
    by (rule calm_offers) (auto simp: set_upd_where split: if_splits)
  moreover have "flow {#} {} False ?c (fold (\<lambda>p. settle p False) [p \<leftarrow> pendings ?c. pd_source p = y] ?c)"
    by (rule flow_settle_all) simp
  ultimately have f: "flow {#} {} False c (fold (\<lambda>p. settle p False) [p \<leftarrow> pendings ?c. pd_source p = y] ?c)" (is "flow _ _ _ c ?d")
    by (rule flow_calm)
  show ?thesis
    unfolding detach_source_def qdwin_data_source_wrap_on_source_destroy_def Let_def
    by (rule calm_after [OF f calm_wraps]) auto
qed

text \<open>Dropping a source nobody refers to.\<close>

lemma flow_discard:
  assumes l: "loose y c" and sel: "\<And>j. fst (selection c j) \<noteq> Some y" and B: "\<And>j n. boards c j \<noteq> Some (y, n)"
  shows "flow {#} {} False c (discard_source y c)"
proof (rule flow_inv)
  assume inv: "clip_inv c"
  note i = clip_invD [OF inv]
  let ?d = "discard_source y c"
  have q: "alive ?d = alive c - {y}" "shims ?d = shims c - {y}" "copies ?d = copies c - {y}" "sourced ?d = sourced c"
    by (auto simp: sets_defs discard_source_def)
  have p: "wm ?d = wm c" "selection ?d = selection c" "selectors ?d = selectors c" "pendings ?d = pendings c" "data_wraps ?d = data_wraps c"
    "boards ?d = boards c" "clip_next ?d = clip_next c" "clip_ub ?d = clip_ub c" "clip_out ?d = clip_out c" "clip_pipes ?d = clip_pipes c"
    by (simp_all add: discard_source_def)
  have "clip_inv ?d"
  proof (rule clip_invI)
    show "tracked (wm ?d)" "distinct (map ds_id (data_sources ?d))"
      using i(1,2) by (simp_all add: discard_source_def distinct_map_filter)
    show "x < clip_next ?d" if "x \<in> alive ?d" for x
      using that i(3) by (simp add: p(7) q)
    show "x \<in> shims ?d" "j \<in> set (selectors ?d)" if "fst (selection ?d j) = Some x" for j x
      using that i(4,5) [of j x] sel [of j] unfolding p q by auto
    show "sourced ?d \<subseteq> alive ?d" "wr_source ` set (data_wraps ?d) \<subseteq> alive ?d" "pd_source ` set (pendings ?d) \<subseteq> shims ?d"
      using i(6,7,8) l unfolding p q loose_def by blast+
    have "boards_ok (boards c) (copies c - {y}) (selection c)"
      using i(9) B unfolding boards_ok_def by (metis insertE insert_Diff_single Diff_iff singletonD)
    then show "boards_ok (boards ?d) (copies ?d) (selection ?d)"
      by (simp add: p q)
  qed
  then show ?thesis
    by (simp add: flow_def shimmed_def p q spent_def held_def data_sends_def)
qed

subsection \<open>The clipboard manager\<close>

lemma copies_alive: "copies c \<subseteq> alive c"
  by (auto simp: sets_defs)

lemma flow_boards:
  assumes "\<And>j x. B j = Some x \<Longrightarrow> boards c j = Some x"
  shows "calm c (c\<lparr>boards := B\<rparr>)"
  by (rule calmI) (use assms in \<open>simp_all add: sets_defs flows_def\<close>)

lemma flow_unref:
  assumes sel: "fst (selection c i) = None"
  shows "flow {#} {} False c (clipboard_source_unref i c)"
proof (rule flow_inv)
  assume inv: "clip_inv c"
  show ?thesis
  proof (cases "boards c i")
    case None
    then show ?thesis
      by (simp add: clipboard_source_unref_def calm_flow)
  next
    case (Some x)
    then obtain b n where b: "boards c i = Some (b, n)"
      by (cases x) auto
    note ok = boards_okD [OF clip_invD(9) [OF inv] b]
    let ?d = "(detach_source b c)\<lparr>boards := (boards c)(i := None)\<rparr>"
    have "calm (detach_source b c) ?d"
      by (rule flow_boards) (simp add: detach_source_parts(5) split: if_splits)
    then have f: "flow {#} {} False c ?d"
      by (rule calm_after [OF flow_detach])
    have "loose b ?d"
      using detach_source_parts(9) [of b c] by (simp add: loose_def sourced_def)
    moreover have "fst (selection ?d j) \<noteq> Some b" "boards ?d j \<noteq> Some (b, m)" for j m
      using ok(2,3) [of j] sel by (auto simp: detach_source_parts(3))
    ultimately have "flow {#} {} False ?d (discard_source b ?d)"
      by (rule flow_discard)
    then show ?thesis
      using flow_trans [OF f] b by (simp add: clipboard_source_unref_def)
  qed
qed

lemma unref_parts:
  fixes i :: nat
  defines "d c \<equiv> clipboard_source_unref i c"
  shows "selection (d c) = selection c" and "selectors (d c) = selectors c" and "wm (d c) = wm c" and "boards (d c) i = None"
    and "clip_next (d c) = clip_next c" and "\<And>w. w \<in> set (data_wraps (d c)) \<Longrightarrow> w \<in> set (data_wraps c)"
    and "data_sources (d c) = (case boards c i of None \<Rightarrow> data_sources c | Some (b, _) \<Rightarrow> [a \<leftarrow> data_sources c. ds_id a \<noteq> b])"
  by (auto simp: d_def clipboard_source_unref_def discard_source_def detach_source_parts split: option.splits)

lemma calm_board_create:
  assumes "boards c i = None"
  shows "calm c (clipboard_source_create i mime serial c)"
  unfolding calm_def
proof
  assume inv: "clip_inv c"
  note k = clip_invD [OF inv]
  let ?d = "clipboard_source_create i mime serial c"
  have q: "alive ?d = insert (clip_next c) (alive c)" "shims ?d = shims c" "copies ?d = insert (clip_next c) (copies c)" "sourced ?d = sourced c"
    by (auto simp: sets_defs clipboard_source_create_def)
  have p: "wm ?d = wm c" "selection ?d = selection c" "selectors ?d = selectors c" "pendings ?d = pendings c" "data_wraps ?d = data_wraps c"
    "boards ?d = (boards c)(i := Some (clip_next c, serial))" "clip_next ?d = clip_next c + 1" "clip_ub ?d = clip_ub c" "clip_pipes ?d = clip_pipes c" "flows ?d = flows c"
    "map ds_id (data_sources ?d) = clip_next c # map ds_id (data_sources c)"
    by (simp_all add: clipboard_source_create_def flows_def)
  have fresh: "clip_next c \<notin> alive c"
    using k(3) by blast
  then have sel: "fst (selection c j) \<noteq> Some (clip_next c)" for j
    using sel_alive [OF inv, of j] by blast
  have B: "boards c j \<noteq> Some (clip_next c, m)" for j m
    using boards_okD(1) [OF k(9), of j "clip_next c" m] fresh copies_alive by blast
  have "clip_inv ?d"
  proof (rule clip_invI)
    show "x < clip_next ?d" if "x \<in> alive ?d" for x
      using that k(3) [of x] by (auto simp: p(7) q)
    show "x \<in> shims ?d" "j \<in> set (selectors ?d)" if "fst (selection ?d j) = Some x" for j x
      using that k(4,5) [of j x] unfolding p q by blast+
    show "sourced ?d \<subseteq> alive ?d" "wr_source ` set (data_wraps ?d) \<subseteq> alive ?d" "pd_source ` set (pendings ?d) \<subseteq> shims ?d"
      using k(6,7,8) unfolding p q by blast+
    show "tracked (wm ?d)" "distinct (map ds_id (data_sources ?d))"
      using k(1,2) fresh unfolding p(1,11) alive_ids by simp_all
    show "boards_ok (boards ?d) (copies ?d) (selection ?d)"
      using k(9) sel B unfolding p q boards_ok_def by (auto split: if_splits)
  qed
  moreover have "shimmed y ?d" if "shimmed y c" for y
    using that by (auto simp: shimmed_def p(7) q)
  ultimately show "clip_inv ?d \<and> clip_ub ?d = clip_ub c \<and> flows ?d = flows c \<and> pendings ?d = pendings c \<and>
      clip_pipes ?d = clip_pipes c \<and> (\<forall>y. shimmed y c \<longrightarrow> shimmed y ?d)"
    by (simp add: p)
qed

lemma flow_pipe:
  assumes "flow {#fd#} S U (c\<lparr>clip_pipes := fd # clip_pipes c\<rparr>) d"
  shows "flow {#} S U c d"
proof -
  let ?c = "c\<lparr>clip_pipes := fd # clip_pipes c\<rparr>"
  have "clip_inv ?c = clip_inv c" "\<And>y. shimmed y ?c = shimmed y c"
    by (simp_all add: clip_inv_def shimmed_def sets_defs)
  then show ?thesis
    using assms by (simp add: flow_def spent_def held_def data_sends_def)
qed

lemma client_not_copy:
  assumes "source_of c y = Some a" and "ds_client a \<noteq> None" and "distinct (map ds_id (data_sources c))"
  shows "y \<notin> copies c"
proof
  assume "y \<in> copies c"
  then obtain b where b: "b \<in> set (data_sources c)" "ds_id b = y" "ds_client b = None"
    by (auto simp: copies_def)
  have "b = a"
    by (rule inj_onD [of ds_id "set (data_sources c)"]) (use data_source_Some [OF assms(1)] b assms(3) in \<open>simp_all add: distinct_map\<close>)
  then show False
    using b(3) assms(2) by simp
qed

lemma send_parts:
  fixes a :: data_source and mime :: string and fd :: nat
  defines "d c \<equiv> source_send a mime fd c"
  shows "wm (d c) = wm c" and "data_sources (d c) = data_sources c" and "selection (d c) = selection c"
    and "selectors (d c) = selectors c" and "boards (d c) = boards c" and "clip_next (d c) = clip_next c"
  by (simp_all add: d_def source_send_def qdwin_data_source_send_shim_def Let_def split: option.split)

text \<open>Dropping the copy of a seat does not touch a client's source \<open>y\<close>.\<close>

lemma client_sourceD:
  assumes "client_source c y = Some a"
  shows "source_of c y = Some a" and "ds_client a \<noteq> None"
  using assms by (auto simp: client_source_def split: option.splits if_splits)

lemma unref_client:
  assumes y: "client_source c y = Some a" and inv: "clip_inv c"
  shows "source_of (clipboard_source_unref i c) y = Some a"
    and "y \<in> shims (clipboard_source_unref i c) \<longleftrightarrow> y \<in> shims c"
proof -
  note src = client_sourceD [OF y]
  have ne: "fst x \<noteq> y" if "boards c i = Some x" for x
    using boards_okD(1) [OF clip_invD(9) [OF inv], of i "fst x" "snd x"] client_not_copy [OF src clip_invD(2) [OF inv]] that
    by auto
  show "source_of (clipboard_source_unref i c) y = Some a"
    using src(1) ne find_filter_other [of y _ ds_id "data_sources c"] by (auto simp: source_of_def unref_parts(7) split: option.splits)
  show "y \<in> shims (clipboard_source_unref i c) \<longleftrightarrow> y \<in> shims c"
    using ne by (auto simp: shims_def unref_parts(7) split: option.splits)
qed

lemma unref_gone: "wrapped_gone (clipboard_source_unref i c) y \<Longrightarrow> wrapped_gone c y"
  using unref_parts(6) [of _ i c] by (auto simp: wrapped_gone_def unref_parts(3))

text \<open>A client's source \<open>y\<close> that has become the selection is copied. The seat counts as having no
  selection while this happens, since \<open>y\<close> need not go through the shim yet.\<close>

lemma board_copy_parts:
  "wm (board_copy pipe i y serial c) = wm c" "selection (board_copy pipe i y serial c) = selection c"
  "selectors (board_copy pipe i y serial c) = selectors c"
  by (auto simp: board_copy_def Let_def clipboard_source_create_def send_parts unref_parts split: option.split list.split)

lemma board_copy_client:
  assumes y: "client_source c y = Some a" and sel: "fst (selection c i) = None" and inv: "clip_inv c"
  shows "y \<in> alive (board_copy pipe i y serial c) - copies (board_copy pipe i y serial c)"
proof -
  define c1 where "c1 = clipboard_source_unref i c"
  have inv1: "clip_inv c1"
    unfolding c1_def by (rule flow_invD [OF flow_unref [OF sel] inv])
  note c1 = unref_client(1) [OF y inv, of i, folded c1_def]
  have k: "y \<in> alive c1" "y \<notin> copies c1"
    using data_source_Some [OF c1] client_not_copy [OF c1 client_sourceD(2) [OF y] clip_invD(2) [OF inv1]] by (auto simp: alive_def)
  have "data_sources (board_copy pipe i y serial c) = data_sources c1 \<or>
      (\<exists>z. ds_id z = clip_next c1 \<and> data_sources (board_copy pipe i y serial c) = z # data_sources c1)"
    by (auto simp: board_copy_def Let_def c1_def clipboard_source_create_def send_parts split: option.split list.split)
  then show ?thesis
    using k clip_invD(3) [OF inv1 k(1)] by (auto simp: sets_defs)
qed

lemma flow_board_copy:
  assumes y: "client_source c y = Some a" and sel: "fst (selection c i) = None"
  shows "flow {#} {x. \<exists>mime fd. pipe = Some fd \<and> x = Data_send y mime fd \<and> y \<notin> shims c} (wrapped_gone c y) c (board_copy pipe i y serial c)"
proof (rule flow_inv)
  assume inv: "clip_inv c"
  define c1 where "c1 = clipboard_source_unref i c"
  note c1 = unref_client [OF y inv, of i, folded c1_def]
  have f1: "flow {#} {} False c c1"
    unfolding c1_def by (rule flow_unref [OF sel])
  note eq = board_copy_def [of pipe i y serial c, unfolded Let_def, folded c1_def]
  show ?thesis
  proof (cases "\<exists>fd mime ms. pipe = Some fd \<and> ds_mimes a = mime # ms")
    case True
    then obtain fd mime ms where p: "pipe = Some fd" "ds_mimes a = mime # ms"
      by blast
    let ?c = "c1\<lparr>clip_pipes := fd # clip_pipes c1\<rparr>"
    have e: "board_copy pipe i y serial c = clipboard_source_create i mime serial (source_send a mime fd ?c)"
      using eq by (simp add: c1(1) p)
    have "flow {#fd#} {x. x = Data_send y mime fd \<and> y \<notin> shims ?c} (wrapped_gone ?c y) ?c (source_send a mime fd ?c)"
      by (rule flow_source_send) (use c1(1) in \<open>simp add: source_of_def\<close>)
    then have "flow {#} {x. x = Data_send y mime fd \<and> y \<notin> shims c1} (wrapped_gone c1 y) c1 (source_send a mime fd ?c)"
      by (rule flow_pipe [OF flow_mono]) (auto simp: shims_def wrapped_gone_def)
    then have "flow {#} {x. x = Data_send y mime fd \<and> y \<notin> shims c1} (wrapped_gone c1 y) c (source_send a mime fd ?c)"
      using flow_trans [OF f1] by fastforce
    then have "flow {#} {x. x = Data_send y mime fd \<and> y \<notin> shims c1} (wrapped_gone c1 y) c (board_copy pipe i y serial c)"
      unfolding e by (rule calm_after) (rule calm_board_create, simp add: send_parts c1_def unref_parts(4))
    then show ?thesis
      by (rule flow_mono) (use c1(2) unref_gone p(1) in \<open>auto simp: c1_def\<close>)
  next
    case False
    then have "board_copy pipe i y serial c = c1"
      using c1(1) by (auto simp: eq split: option.split list.split)
    then show ?thesis
      using flow_mono [OF f1] by simp
  qed
qed

subsection \<open>A client takes the selection\<close>

lemma client_alive:
  assumes "distinct (map ds_id (data_sources c))"
  shows "client_source c y \<noteq> None \<longleftrightarrow> y \<in> alive c - copies c"
proof (cases "source_of c y")
  case None
  then show ?thesis
    using data_source_None [of c y] by (simp add: client_source_def)
next
  case (Some a)
  have "y \<in> alive c"
    using Some data_source_None [of c y] by auto
  moreover have "ds_client a = None \<Longrightarrow> y \<in> copies c"
    using data_source_Some [OF Some] by (auto simp: copies_def)
  ultimately show ?thesis
    using Some client_not_copy [OF Some _ assms] by (auto simp: client_source_def)
qed

lemma board_copy_selection:
  "board_copy pipe i y serial (c\<lparr>selection := f\<rparr>) = (board_copy pipe i y serial c)\<lparr>selection := f\<rparr>"
proof -
  have d: "detach_source b (c\<lparr>selection := f\<rparr>) = (detach_source b c)\<lparr>selection := f\<rparr>" for b and c :: clip
    by (simp add: detach_source_def qdwin_data_source_wrap_on_source_destroy_def settle_all Let_def)
  have u: "clipboard_source_unref i (c\<lparr>selection := f\<rparr>) = (clipboard_source_unref i c)\<lparr>selection := f\<rparr>" for c :: clip
    by (simp add: clipboard_source_unref_def d discard_source_def split: option.split)
  have s: "source_of (c\<lparr>selection := f\<rparr>) = source_of c" "offer_of (c\<lparr>selection := f\<rparr>) = offer_of c"
    "qdwin_data_source_wrap_find (c\<lparr>selection := f\<rparr>) = qdwin_data_source_wrap_find c" for c :: clip
    by (simp_all add: fun_eq_iff source_of_def offer_of_def qdwin_data_source_wrap_find_def)
  have e: "source_send a m fd (c\<lparr>selection := f\<rparr>) = (source_send a m fd c)\<lparr>selection := f\<rparr>" for a m fd and c :: clip
    by (simp add: source_send_def qdwin_data_source_send_shim_def s csend_def Let_def split: option.split)
  define c1 where "c1 = clipboard_source_unref i c"
  have p: "(c1\<lparr>selection := f\<rparr>)\<lparr>clip_pipes := x\<rparr> = (c1\<lparr>clip_pipes := x\<rparr>)\<lparr>selection := f\<rparr>" for x
    by simp
  have k: "clipboard_source_create i m serial (c\<lparr>selection := f\<rparr>) = (clipboard_source_create i m serial c)\<lparr>selection := f\<rparr>" for m and c :: clip
    by (simp add: clipboard_source_create_def)
  show ?thesis
    unfolding board_copy_def Let_def u c1_def [symmetric]
    by (simp add: s(1) p e k del: clip.update_convs split: option.split list.split)
qed

text \<open>The state before the signal, with the seat's selection left empty.\<close>

lemma put_client:
  fixes i :: nat and serial :: u32
  assumes inv: "clip_inv c" and y: "y \<in> alive c"
  defines "pn \<equiv> (put_selection i (Some y) serial c)\<lparr>selection := (selection c)(i := (None, serial))\<rparr>"
  shows "selects {y} i None serial c pn" and "calm c pn" and "i \<in> set (selectors pn)" and "data_wraps pn = data_wraps c"
    and "put_selection i (Some y) serial c = pn\<lparr>selection := (selection c)(i := (Some y, serial))\<rparr>"
proof -
  note p = put_parts [OF inv, of i "Some y" serial]
  have e: "alive pn = alive (put_selection i (Some y) serial c)" "shims pn = shims c" "copies pn = copies c"
    "sourced pn = sourced (put_selection i (Some y) serial c)" "clip_ub pn = clip_ub c"
    using p(3,12,14) by (simp_all add: pn_def sets_defs)
  show s: "selects {y} i None serial c pn"
    using p e by (auto simp: selects_def pn_def flows_def)
  show "calm c pn"
    by (rule selects_calm [OF s]) (use y e(5) in auto)
  show "i \<in> set (selectors pn)" "data_wraps pn = data_wraps c"
    "put_selection i (Some y) serial c = pn\<lparr>selection := (selection c)(i := (Some y, serial))\<rparr>"
    using p(5,6,8) by (simp_all add: pn_def)
qed

text \<open>qdwin's listener when a client's source \<open>y\<close> has become the selection of a seat without one.\<close>

lemma calm_listener_client:
  assumes inv: "clip_inv q" and i: "i \<in> set (map seat_id (seats (wm q)))" "i \<in> set (selectors q)" and y: "y \<in> alive q - copies q"
  shows "calm q (qdwin_on_seat_selection_changed i (q\<lparr>selection := (selection q)(i := (Some y, serial))\<rparr>))"
proof -
  let ?d = "q\<lparr>selection := (selection q)(i := (Some y, serial))\<rparr>"
  have e: "alive ?d = alive q" "shims ?d = shims q" "copies ?d = copies q" "sourced ?d = sourced q" "flows ?d = flows q"
    by (simp_all add: sets_defs flows_def)
  have "selects {} i (Some y) serial q (qdwin_on_seat_selection_changed i ?d)" "clip_ub (qdwin_on_seat_selection_changed i ?d) = clip_ub ?d"
    by (rule listener_parts [of ?d i q "Some y" serial "{}"];
      use tracked_seat [OF clip_invD(1) [OF inv] i(1)] i(2) y clip_invD(2) [OF inv] in \<open>simp add: e insert_absorb\<close>)+
  then show ?thesis
    using y boards_okD(1) [OF clip_invD(9) [OF inv]] by (intro selects_calm) auto
qed

lemma flow_set_client:
  assumes y: "client_source c y = Some a" and i: "i \<in> set (map seat_id (seats (wm c)))"
  shows "flow {#} {x. \<exists>mime fd. pipe = Some fd \<and> x = Data_send y mime fd \<and> y \<notin> shims c} (wrapped_gone c y)
    c (weston_seat_set_selection pipe i (Some y) serial c)" (is "flow _ ?S _ _ _")
proof (cases "selection_outdated c i serial")
  case True
  then show ?thesis
    using flow_mono [OF calm_flow [OF calm_refl]] by (simp add: weston_seat_set_selection_def)
next
  case False
  show ?thesis
  proof (rule flow_inv)
    assume inv: "clip_inv c"
    have yc: "y \<in> alive c - copies c"
      using client_alive [OF clip_invD(2) [OF inv]] y by auto
    let ?f = "(selection c)(i := (Some y, serial))"
    define pn where "pn = (put_selection i (Some y) serial c)\<lparr>selection := (selection c)(i := (None, serial))\<rparr>"
    define q where "q = board_copy pipe i y serial pn"
    note p = put_client [OF inv, of y i serial, folded pn_def, OF DiffD1 [OF yc]]
    have s: "wm pn = wm c" "shims pn = shims c" "copies pn = copies c" "selection pn = (selection c)(i := (None, serial))"
      using p(1) by (simp_all add: selects_def)
    note inv1 = calm_invD [OF p(2) inv]
    obtain b where b: "client_source pn y = Some b"
      using client_alive [OF clip_invD(2) [OF inv1], of y] yc selects_alive [OF p(1)] s(3) by auto
    have sel: "fst (selection pn i) = None"
      by (simp add: s(4))
    have "clipboard_set_selection pipe i (put_selection i (Some y) serial c) = q\<lparr>selection := ?f\<rparr>"
      using b board_copy_selection [where pipe = pipe and i = i and y = y and serial = serial and c = pn and f = ?f]
      by (simp add: p(5) clipboard_set_selection_def q_def client_source_def source_of_def)
    moreover have "?f = (selection q)(i := (Some y, serial))"
      by (simp add: q_def board_copy_parts s(4))
    ultimately have e: "weston_seat_set_selection pipe i (Some y) serial c =
        qdwin_on_seat_selection_changed i (q\<lparr>selection := (selection q)(i := (Some y, serial))\<rparr>)"
      using False by (simp add: weston_seat_set_selection_def emit_selection_signal_def)
    have fl: "flow {#} ?S (wrapped_gone c y) c q"
      using flow_calm [OF p(2) flow_board_copy [OF b sel]] p(4) s(1,2) by (simp add: wrapped_gone_def q_def)
    then show ?thesis
      unfolding e
    proof (rule calm_after [OF _ calm_listener_client])
      show "clip_inv q"
        by (rule flow_invD [OF fl inv])
      show "i \<in> set (map seat_id (seats (wm q)))" "i \<in> set (selectors q)" "y \<in> alive q - copies q"
        using i p(3) board_copy_client [OF b sel inv1] s(1) by (simp_all add: q_def board_copy_parts)
    qed
  qed
qed

subsection \<open>A client's source is destroyed\<close>

lemma flow_ub: "flow {#} {} True c (c\<lparr>clip_ub := u\<rparr>)"
  by (simp add: flow_def clip_inv_def shimmed_def sets_defs spent_def held_def data_sends_def)

lemma selects_loose:
  assumes "selects Y i yo n c d" and "loose y c" and "y \<notin> Y" and "yo \<noteq> Some y"
  shows "loose y d"
  using assms unfolding loose_def selects_def by auto

lemma selects_sel: "selects Y i yo n c d \<Longrightarrow> fst (selection d j) = Some y \<Longrightarrow> yo \<noteq> Some y \<Longrightarrow> j \<noteq> i \<and> fst (selection c j) = Some y"
  unfolding selects_def by (auto split: if_splits)

definition freed_up :: "nat \<Rightarrow> nat set \<Rightarrow> clip \<Rightarrow> clip \<Rightarrow> bool" where
  "freed_up y I c d \<longleftrightarrow> loose y d \<and> wm d = wm c \<and> copies d = copies c \<and> boards d = boards c \<and>
     (\<forall>j. fst (selection d j) = Some y \<longrightarrow> j \<notin> I \<and> fst (selection c j) = Some y)"

lemma freed_up_trans: "freed_up y I c d \<Longrightarrow> freed_up y J d e \<Longrightarrow> freed_up y (I \<union> J) c e"
  unfolding freed_up_def by auto

lemma selects_freed:
  assumes s: "selects Y i yo n c d" and l: "loose y c" and Y: "y \<notin> Y" and yo: "yo \<noteq> Some y"
  shows "freed_up y {i} c d"
  unfolding freed_up_def
proof (intro conjI allI impI)
  show "loose y d"
    by (rule selects_loose [OF s l Y yo])
  show "j \<notin> {i}" "fst (selection c j) = Some y" if "fst (selection d j) = Some y" for j
    using selects_sel [OF s that yo] by simp_all
  show "wm d = wm c" "copies d = copies c" "boards d = boards c"
    using s unfolding selects_def by blast+
qed

lemma signal_freed:
  assumes inv: "clip_inv c" and i: "i \<in> set (map seat_id (seats (wm c)))" "fst (selection c i) = None"
    and y: "y \<notin> copies c" "loose y c"
  shows "freed_up y {i} c (emit_selection_signal pipe i c)"
proof (cases "boards c i")
  case None
  then have "emit_selection_signal pipe i c = c"
    using signal_cleared [OF inv i] by auto
  then show ?thesis
    using y i(2) by (auto simp: freed_up_def)
next
  case (Some x)
  then obtain b n where b: "boards c i = Some (b, n)" "selects {b} i (Some b) n c (emit_selection_signal pipe i c)"
    using signal_cleared [OF inv i, of pipe] by auto
  then have "b \<noteq> y"
    using boards_okD(1) [OF clip_invD(9) [OF inv]] y(1) by blast
  then show ?thesis
    by (intro selects_freed [OF b(2) y(2)]) simp_all
qed

text \<open>Taking the selection away from a seat.\<close>

lemma deselect_parts:
  fixes i :: nat
  defines "e c \<equiv> c\<lparr>selection := (selection c)(i := (None, snd (selection c i)))\<rparr>"
  shows "selects {} i None (snd (selection c i)) c (e c)" and "calm c (e c)"
proof -
  show s: "selects {} i None (snd (selection c i)) c (e c)"
    by (simp add: selects_def e_def sets_defs flows_def)
  show "calm c (e c)"
    by (rule selects_calm [OF s]) (simp_all add: e_def)
qed

lemma deselect_step:
  assumes inv: "clip_inv c" and y: "y \<notin> copies c" and l: "loose y c"
  shows "flow {#} {} (seat_of (wm c) i = None) c (destroy_selection_data_source i c) \<and> freed_up y {i} c (destroy_selection_data_source i c)"
proof -
  define c1 where "c1 = c\<lparr>selection := (selection c)(i := (None, snd (selection c i)))\<rparr>"
  note p = deselect_parts [where i = i and c = c, folded c1_def]
  show ?thesis
  proof (cases "seat_of (wm c) i = None")
    case True
    then have "destroy_selection_data_source i c = c1\<lparr>clip_ub := True\<rparr>"
      by (simp add: destroy_selection_data_source_def c1_def)
    moreover have "freed_up y {i} c c1"
      by (rule selects_freed [OF p(1) l]) simp_all
    ultimately show ?thesis
      using flow_calm [OF p(2) flow_ub] True by (simp add: freed_up_def loose_def sets_defs)
  next
    case False
    define c2 where "c2 = (case focus_client (wm c) i of
                   None \<Rightarrow> c1
                 | Some cl \<Rightarrow> if (i, cl) \<in> set (data_devices c) then csend [Data_selection cl None] c1 else c1)"
    have d: "destroy_selection_data_source i c = emit_selection_signal None i c2"
      unfolding destroy_selection_data_source_def Let_def if_not_P [OF False] c2_def c1_def ..
    have s2: "selects {} i None (snd (selection c i)) c c2" and k2: "calm c c2"
      unfolding c2_def using p selects_csend [OF p(1)] calm_trans [OF p(2) calm_csend] by (auto split: option.split)
    have w2: "wm c2 = wm c" "fst (selection c2 i) = None" "copies c2 = copies c"
      using s2 by (simp_all add: selects_def)
    have i: "i \<in> set (map seat_id (seats (wm c2)))"
      using seat_of_mem [OF False] w2(1) by simp
    note inv2 = calm_invD [OF k2 inv] and f2 = selects_freed [OF s2 l, simplified]
    have "freed_up y {i} c2 (emit_selection_signal None i c2)"
      by (rule signal_freed [OF inv2 i w2(2)]) (use f2 y w2(3) in \<open>simp_all add: freed_up_def\<close>)
    then have "freed_up y {i} c (destroy_selection_data_source i c)"
      using freed_up_trans [OF f2] d by fastforce
    moreover have "calm c (destroy_selection_data_source i c)"
      using calm_trans [OF k2] signal_cleared [OF inv2 i w2(2)] d by simp
    ultimately show ?thesis
      using flow_mono [OF calm_flow] by simp
  qed
qed

lemma deselect_all:
  assumes "clip_inv c" and "y \<notin> copies c" and "loose y c"
  shows "flow {#} {} (\<exists>i \<in> set js. seat_of (wm c) i = None) c (fold destroy_selection_data_source js c) \<and>
    freed_up y (set js) c (fold destroy_selection_data_source js c)"
  using assms
proof (induction js arbitrary: c)
  case Nil
  then show ?case
    by (simp add: calm_flow freed_up_def)
next
  case (Cons i js)
  let ?d = "destroy_selection_data_source i c"
  have f: "flow {#} {} (seat_of (wm c) i = None) c ?d" "freed_up y {i} c ?d"
    using deselect_step [OF Cons.prems] by blast+
  have "clip_inv ?d" "y \<notin> copies ?d" "loose y ?d" "wm ?d = wm c"
    using flow_invD [OF f(1) Cons.prems(1)] f(2) Cons.prems(2) by (simp_all add: freed_up_def)
  with Cons.IH [of ?d] have g: "flow {#} {} (\<exists>i \<in> set js. seat_of (wm c) i = None) ?d (fold destroy_selection_data_source js ?d)"
      "freed_up y (set js) ?d (fold destroy_selection_data_source js ?d)"
    by simp_all
  show ?case
    using flow_trans [OF f(1) g(1)] freed_up_trans [OF f(2) g(2)] by simp
qed

lemma flow_source_destroyed:
  "flow {#} {} (\<exists>i. fst (selection c i) = Some y \<and> seat_of (wm c) i = None) c (destroy_data_source y c)"
proof (rule flow_inv)
  assume inv: "clip_inv c"
  show ?thesis
  proof (cases "client_source c y = None")
    case True
    then show ?thesis
      using flow_mono [OF calm_flow [OF calm_refl]] by (simp add: destroy_data_source_def)
  next
    case False
    define c1 where "c1 = detach_source y c"
    define js where "js = [i \<leftarrow> selectors c1. fst (selection c1 i) = Some y]"
    define d where "d = fold destroy_selection_data_source js c1"
    have e: "destroy_data_source y c = discard_source y d"
      unfolding destroy_data_source_def Let_def if_not_P [OF False] d_def js_def c1_def ..
    note p = detach_source_parts [of y c, folded c1_def]
    have f1: "flow {#} {} False c c1"
      unfolding c1_def by (rule flow_detach)
    note inv1 = flow_invD [OF f1 inv]
    have y: "y \<notin> copies c1"
      using client_alive [OF clip_invD(2) [OF inv]] False by (simp add: copies_def p(2))
    note d = deselect_all [OF inv1 y p(9), of js, folded d_def]
    have inv2: "clip_inv d"
      using flow_invD [OF _ inv1] d by blast
    have sel: "fst (selection d j) \<noteq> Some y" for j
      using d clip_invD(5) [OF inv1, of j y] by (auto simp: freed_up_def js_def)
    have "boards d j \<noteq> Some (y, n)" for j n
      using boards_okD(1) [OF clip_invD(9) [OF inv2], of j y n] y d by (auto simp: freed_up_def)
    with sel d have "flow {#} {} False d (discard_source y d)"
      by (intro flow_discard) (simp_all add: freed_up_def)
    with flow_trans [OF f1 conjunct1 [OF d]] have "flow {#} {} (\<exists>i \<in> set js. seat_of (wm c1) i = None) c (discard_source y d)"
      using flow_trans by fastforce
    then show ?thesis
      unfolding e by (rule flow_mono) (auto simp: js_def p)
  qed
qed

section \<open>Steps of the clipboard\<close>

text \<open>The events that may open, close or hand over a descriptor.\<close>

fun moves :: "clip_event \<Rightarrow> bool" where
  "moves (Cl_set_selection pipe i yo serial) \<longleftrightarrow> True"
| "moves (Cl_receive x m fd) \<longleftrightarrow> True"
| "moves (Cl_decision r h d) \<longleftrightarrow> True"
| "moves (Cl_timeout h) \<longleftrightarrow> True"
| "moves (Cl_client_gone cl) \<longleftrightarrow> True"
| "moves Cl_shell_gone \<longleftrightarrow> True"
| "moves (Cl_source_destroyed y) \<longleftrightarrow> True"
| "moves _ \<longleftrightarrow> False"

lemma calm_set_actions: "calm c (data_source_set_actions y acts c)"
  by (auto simp: data_source_set_actions_def intro: calm_source_error calm_upd_source split: option.split)

lemma calm_step: "\<not> moves e \<Longrightarrow> calm c (clip_step e c)"
  by (cases e) (auto simp: data_source_offer_def start_drag_def get_data_device_def data_device_release_def
      intro: calm_cl_wm calm_devices calm_create calm_upd_client_source calm_set_actions
        calm_destroy_offer calm_drag calm_shell)

fun taken :: "clip_event \<Rightarrow> nat multiset" where
  "taken (Cl_receive x m fd) = {#fd#}"
| "taken _ = {#}"

text \<open>The ways data leaves a source: the bound shell allows a pending paste, a client reads from an offer
  whose source does not go through the shim, or the clipboard manager reads such a source when it
  becomes a selection.\<close>

fun lets_through :: "clip_event \<Rightarrow> clip \<Rightarrow> clip_effect \<Rightarrow> bool" where
  "lets_through (Cl_decision r h decision) c (Data_send y m fd) \<longleftrightarrow>
     decision = ''allow'' \<and> shell_bound (wm c) \<and> shell_resource (wm c) = Some r \<and>
     (\<exists>p \<in> set (pendings c). pd_handle p = h \<and> pd_source p = y \<and> pd_mime p = m \<and> pd_fd p = fd)"
| "lets_through (Cl_receive x m' fd') c (Data_send y m fd) \<longleftrightarrow>
     m' = m \<and> fd' = fd \<and> y \<in> alive c - shims c \<and> Option.bind (offer_of c x) of_source = Some y"
| "lets_through (Cl_set_selection pipe i yo serial) c (Data_send y m fd) \<longleftrightarrow>
     pipe = Some fd \<and> yo = Some y \<and> y \<in> alive c - shims c"
| "lets_through _ _ _ \<longleftrightarrow> False"

fun seat_lost :: "clip_event \<Rightarrow> clip \<Rightarrow> bool" where
  "seat_lost (Cl_source_destroyed y) c \<longleftrightarrow> (\<exists>i. fst (selection c i) = Some y \<and> seat_of (wm c) i = None)"
| "seat_lost (Cl_receive x m fd) c \<longleftrightarrow> (\<exists>y. wrapped_gone c y \<and> Option.bind (offer_of c x) of_source = Some y)"
| "seat_lost (Cl_set_selection pipe i yo serial) c \<longleftrightarrow> (\<exists>y. yo = Some y \<and> wrapped_gone c y)"
| "seat_lost _ _ \<longleftrightarrow> False"

lemma flow_data_device_set_selection:
  "flow {#} {x. lets_through (Cl_set_selection pipe i yo serial) c x} (seat_lost (Cl_set_selection pipe i yo serial) c)
     c (data_device_set_selection pipe i yo serial c)"
proof (rule flow_inv)
  assume inv: "clip_inv c"
  show ?thesis
  proof (cases "Option.bind yo (client_source c)")
    case None
    then show ?thesis
      using flow_mono [OF calm_flow [OF calm_refl]] by (simp add: data_device_set_selection_def)
  next
    case (Some a)
    then obtain y where y: "yo = Some y" "client_source c y = Some a"
      by (auto split: bind_splits)
    have al: "y \<in> alive c"
      using client_alive [OF clip_invD(2) [OF inv], of y] y(2) by simp
    have "flow {#} {x. lets_through (Cl_set_selection pipe i yo serial) c x} (wrapped_gone c y) c (weston_seat_set_selection pipe i yo serial c)"
      if "seat_of (wm c) i \<noteq> None"
      unfolding y(1) by (rule flow_mono [OF flow_set_client [OF y(2) seat_of_mem [OF that]]]) (use al in auto)
    then show ?thesis
      using Some flow_mono [OF calm_flow [OF calm_source_error]] flow_mono [OF calm_flow [OF calm_refl]] y(1)
      by (auto simp: data_device_set_selection_def)
  qed
qed

lemma pending_find_Some:
  "qdwin_data_offer_pending_find c h = Some p \<Longrightarrow> p \<in> set (pendings c) \<and> pd_handle p = h"
  by (auto simp: qdwin_data_offer_pending_find_def dest: find_Some_mem)

lemma flow_decision:
  "flow {#} {x. lets_through (Cl_decision r h decision) c x} False c (qdwin_handle_data_offer_receive_decision r h decision c)"
proof (cases "shell_bound (wm c) \<and> shell_resource (wm c) = Some r")
  case True
  show ?thesis
  proof (cases "qdwin_data_offer_pending_find c h")
    case None
    then show ?thesis
      using True flow_mono [OF calm_flow [OF calm_refl]] by (simp add: qdwin_handle_data_offer_receive_decision_def)
  next
    case (Some p)
    have "flow {#} (if decision = ''allow'' then {Data_send (pd_source p) (pd_mime p) (pd_fd p)} else {}) False c (settle p (decision = ''allow'') c)"
      by (rule flow_settle) (use pending_find_Some [OF Some] in simp)
    then have "flow {#} {x. lets_through (Cl_decision r h decision) c x} False c (settle p (decision = ''allow'') c)"
      by (rule flow_mono) (use pending_find_Some [OF Some] True in auto)
    then show ?thesis
      using True Some by (simp add: qdwin_handle_data_offer_receive_decision_def)
  qed
next
  case False
  have "calm c (csend [Clip_error (cl_id (res_client r))] c)"
    by (rule calm_csend) simp
  then show ?thesis
    using False flow_mono [OF calm_flow] by (simp add: qdwin_handle_data_offer_receive_decision_def)
qed

lemma flow_timeout: "flow {#} {} False c (qdwin_data_offer_pending_timeout_cb h c)"
proof (cases "qdwin_data_offer_pending_find c h")
  case (Some p)
  have "flow {#} {} False c (settle p False c)"
    using flow_settle [of p c False] pending_find_Some [OF Some] by simp
  then show ?thesis
    using Some by (simp add: qdwin_data_offer_pending_timeout_cb_def)
qed (simp add: qdwin_data_offer_pending_timeout_cb_def calm_flow)

lemma step_flow: "flow (taken e) {x. lets_through e c x} (seat_lost e c) c (clip_step e c)"
proof (cases "moves e")
  case False
  then have "taken e = {#}"
    by (cases e) simp_all
  then show ?thesis
    using flow_mono [OF calm_flow [OF calm_step [OF False]]] by simp
next
  case True
  have all: "flow {#} {} False c (fold (\<lambda>p. settle p False) [p \<leftarrow> pendings c. P p] c)" for P
    by (rule flow_settle_all) simp
  show ?thesis
  proof (cases e)
    case (Cl_receive x m fd)
    show ?thesis
      unfolding Cl_receive clip_step.simps taken.simps seat_lost.simps by (rule flow_mono [OF flow_receive]) auto
  qed (use True flow_data_device_set_selection flow_decision flow_timeout flow_source_destroyed all [of "\<lambda>_. True"] all in
      \<open>simp_all add: qdwin_data_offer_target_destroyed_def qdwin_data_offer_pending_free_all_def\<close>)
qed

definition clip_faults :: "clip \<Rightarrow> unit list" where
  "clip_faults c = (if clip_ub c then [()] else [])"

lemma step_facts_clip:
  assumes "clip_inv c"
  shows "clip_inv (clip_step e c)" and "shimmed y c \<Longrightarrow> shimmed y (clip_step e c)"
    and "x \<in> set (data_sends (clip_step e c)) \<Longrightarrow> x \<in> set (data_sends c) \<or> lets_through e c x"
    and "u \<in> set (clip_faults (clip_step e c)) \<Longrightarrow> u \<in> set (clip_faults c) \<or> seat_lost e c"
  using step_flow [of e c] assms by (auto simp: flow_def clip_faults_def split: if_splits)

interpretation clip_sends: traced_component clip_step clip_inv data_sends lets_through
  by unfold_locales (rule step_facts_clip, assumption, rule step_facts_clip)

interpretation clip_seats: traced_component clip_step clip_inv clip_faults "\<lambda>e c x. seat_lost e c"
  by unfold_locales (rule step_facts_clip)

interpretation shim: latched_component clip_step clip_inv "shimmed y" "\<lambda>c e. False" for y
  by unfold_locales (rule step_facts_clip)

lemma no_clip_inv: "tracked s \<Longrightarrow> clip_inv (no_clip s)"
  by (simp add: clip_inv_def no_clip_def sets_defs boards_ok_def)

section \<open>Properties\<close>

lemma selected_shimmed: "clip_inv c \<Longrightarrow> fst (selection c i) = Some y \<Longrightarrow> shimmed y c"
  using clip_invD(3,4) [of c] sel_alive [of c i y] by (auto simp: shimmed_def)

lemma shimmed_runs: "clip_inv c \<Longrightarrow> shimmed y c \<Longrightarrow> shimmed y (fold clip_step es c)"
proof -
  have "shim.no_release es c" for es c
    by (induction es arbitrary: c) simp_all
  then show "clip_inv c \<Longrightarrow> shimmed y c \<Longrightarrow> shimmed y (fold clip_step es c)"
    by (rule shim.run_latch [rotated 2])
qed

definition clip_run :: "qdwin \<Rightarrow> clip_event list \<Rightarrow> clip" where
  "clip_run s es = fold clip_step es (no_clip s)"

lemma clip_run_append: "clip_run s (es @ fs) = fold clip_step fs (clip_run s es)"
  by (simp add: clip_run_def)

lemma clip_run_inv: "tracked s \<Longrightarrow> clip_inv (clip_run s es)"
  unfolding clip_run_def by (rule clip_sends.run_inv [OF no_clip_inv])

text \<open>C9: once a source has been the clipboard of some seat, its data goes nowhere without the shell.
  Whatever happens afterwards, in any order (clients, drags, focus changes, seats coming and going,
  shells dying and binding again), every later \<open>send\<close> event of that source is the direct effect of
  a request of the shell that is bound at that moment, which answers \<^verbatim>\<open>allow\<close> for a pending
  paste of that source, with the type and the descriptor of that paste.\<close>

theorem clipboard_mediated:
  assumes "tracked s" and "fst (selection (clip_run s es) i) = Some y"
    and "Data_send y m fd \<in> set (clip_out (clip_run s (es @ fs)))" and "Data_send y m fd \<notin> set (clip_out (clip_run s es))"
  shows "\<exists>n < length fs. \<exists>r h p. fs ! n = Cl_decision r h ''allow'' \<and>
           shell_bound (wm (clip_run s (es @ take n fs))) \<and> shell_resource (wm (clip_run s (es @ take n fs))) = Some r \<and>
           p \<in> set (pendings (clip_run s (es @ take n fs))) \<and>
           pd_handle p = h \<and> pd_source p = y \<and> pd_mime p = m \<and> pd_fd p = fd"
proof -
  note inv = clip_run_inv [OF assms(1), of es]
  have sh: "shimmed y (clip_run s (es @ take n fs))" for n
    unfolding clip_run_append by (rule shimmed_runs [OF inv selected_shimmed [OF inv assms(2)]])
  have "Data_send y m fd \<in> set (data_sends (fold clip_step fs (clip_run s es)))" "Data_send y m fd \<notin> set (data_sends (clip_run s es))"
    using assms(3,4) by (simp_all add: data_sends_def clip_run_append)
  then obtain n where n: "n < length fs" "lets_through (fs ! n) (clip_run s (es @ take n fs)) (Data_send y m fd)"
    using clip_sends.run_cause [OF inv] unfolding clip_run_append by blast
  show ?thesis
  proof (cases "fs ! n")
    case (Cl_decision r h decision)
    then show ?thesis
      using n by auto
  next
    case (Cl_receive x m' fd')
    then show ?thesis
      using n(2) sh [of n] by (auto simp: shimmed_def)
  next
    case (Cl_set_selection pipe j yo serial)
    then show ?thesis
      using n(2) sh [of n] by (auto simp: shimmed_def)
  qed (use n(2) in simp_all)
qed

text \<open>C11: no descriptor of a paste is lost or used twice. Along any sequence of events, the descriptors
  that clients passed in with their receive requests, together with the write ends of the pipes
  the clipboard manager opened, are, counted with multiplicity, exactly those that were
  handed to a source or closed, and those of the pastes that still wait for the shell.\<close>

theorem paste_descriptors_balanced:
  assumes "tracked s"
  shows "spent (clip_run s es) + held (clip_run s es) = (\<Sum>e \<leftarrow> es. taken e) + mset (clip_pipes (clip_run s es))"
proof -
  have f: "flow (\<Sum>e \<leftarrow> es. taken e) UNIV True c (fold clip_step es c)" for c
  proof (induction es arbitrary: c)
    case (Cons e es)
    show ?case
      using flow_trans [OF step_flow [of e c] Cons.IH [of "clip_step e c"]] by simp
  qed (simp add: flow_def)
  have "spent (no_clip s) = {#}" "held (no_clip s) = {#}" "clip_pipes (no_clip s) = []"
    by (simp_all add: spent_def held_def no_clip_def)
  then show ?thesis
    using f [of "no_clip s"] no_clip_inv [OF assms] by (simp add: flow_def clip_run_def ac_simps)
qed


lemma selection_kept [simp]:
  "selection (upd_source y f c) = selection c" "selection (wl_data_device_set_keyboard_focus i c) = selection c"
  "selection (clip_seat_set_keyboard_focus i so c) = selection c" "selection (clip_activate_input v i c) = selection c"
  "selection (clear_primary i c) = selection c" "selection (qdwin_on_seat_selection_changed i c) = selection c"
proof -
  show u: "selection (upd_source y f c) = selection c" for y f c
    by (simp add: upd_source_def)
  show w: "selection (wl_data_device_set_keyboard_focus i c) = selection c" for c
    using mild_focus [of c i] by (simp add: mild_def)
  show f: "selection (clip_seat_set_keyboard_focus i so c) = selection c" for so c
    by (simp add: clip_seat_set_keyboard_focus_def w)
  show "selection (clip_activate_input v i c) = selection c" "selection (clear_primary i c) = selection c"
    by (simp_all add: clip_activate_input_def f clear_primary_def)
  show "selection (qdwin_on_seat_selection_changed i c) = selection c"
    by (auto simp: qdwin_on_seat_selection_changed_def qdwin_install_data_source_wrap_def u split: option.split)
qed

lemma put_kept [simp]:
  "selection (put_selection i yo serial c) = (selection c)(i := (yo, serial))" "boards (put_selection i yo serial c) = boards c"
proof -
  let ?c = "(case fst (selection c i) of None \<Rightarrow> c
    | Some y \<Rightarrow> (case source_of c y of None \<Rightarrow> c\<lparr>clip_ub := True\<rparr> | Some a \<Rightarrow> cancel_source a c))"
  have c: "selection ?c = selection c" "boards ?c = boards c"
    by (auto simp: cancel_source_def split: option.split)
  show "selection (put_selection i yo serial c) = (selection c)(i := (yo, serial))" "boards (put_selection i yo serial c) = boards c"
    using mild_focus [of "?c\<lparr>selection := (selection ?c)(i := (yo, serial)), selectors := List.insert i (selectors ?c)\<rparr>" i]
    unfolding put_selection_def Let_def by (simp_all add: mild_def c)
qed

text \<open>C18: what a focus change to another silo leaves as the clipboard of the seat. The clear is ignored
  when the client that owns the clipboard named a serial ahead of the display's. Otherwise the
  clipboard manager, which is told first, puts its own copy of the old clipboard in place again; the
  seat's clipboard is empty only if there is no copy.\<close>

theorem silo_switch_clipboard:
  assumes "shell_bound (wm c)" and "shell_resource (wm c) = Some r" and "\<not> locked (wm c)"
    and "seat_by_name (wm c) name = Some i" and "focus_target (wm c) h \<noteq> None" and "\<not> same_silo_move (wm c) i h silo"
  shows "fst (selection (qdwin_handle_set_keyboard_focus_v2 r name h silo c) i) =
           (if snd (selection c i) - (display_serial (wm c) + 1) < UINT32_MAX div 2 \<and> fst (selection c i) \<noteq> None
            then fst (selection c i) else map_option fst (boards c i))"
proof -
  obtain vo where vo: "focus_target (wm c) h = Some vo"
    using assms(5) by blast
  have "selection (qdwin_handle_set_keyboard_focus_v2 r name h silo c) = selection (clear_clipboard i c)"
    using assms(1-4,6) vo by (simp add: qdwin_handle_set_keyboard_focus_v2_def unlocked_shell_def Let_def split: option.split)
  then show ?thesis
    by (auto simp: clear_clipboard_def Let_def weston_seat_set_selection_def emit_selection_signal_def clipboard_set_selection_def
        set_copy_selection_def selection_outdated_def split: option.split)
qed

text \<open>The copy is of no use to anyone: the shim refuses every paste from it.\<close>

lemma copy_refuses_pastes:
  assumes inv: "clip_inv c" and sel: "fst (selection c i) = Some y" and y: "y \<in> copies c"
    and x: "Option.bind (offer_of c x) of_source = Some y"
  shows "data_offer_receive x mime fd c = csend [Fd_close fd] c"
proof -
  obtain a where a: "source_of c y = Some a"
    using sel_alive [OF inv sel] data_source_None [of c y] by auto
  have "ds_client a = None"
    using client_not_copy [OF a _ clip_invD(2) [OF inv]] y by blast
  moreover have "ds_shim a"
    using source_shim [OF a clip_invD(2) [OF inv]] clip_invD(4) [OF inv sel] by simp
  ultimately show ?thesis
    using a x data_source_Some [OF a]
    by (simp add: data_offer_receive_def source_send_def qdwin_data_source_send_shim_def qdwin_toplevel_for_client_def split: option.split)
qed

text \<open>C40: drag and drop does not pass the shell. A source that never was a clipboard hands its data to
  any client it is dragged over, whether or not a shell is bound or the two clients share a
  silo.\<close>

theorem drag_bypasses_shell:
  assumes "client_source c y = Some a" and "\<not> ds_shim a" and "(i, cl) \<in> set (data_devices c)"
  shows "clip_out (fold clip_step [Cl_drag_enter y i cl, Cl_receive (clip_next c) mime fd] c) = clip_out c @ [Data_send y mime fd]"
proof -
  define d where "d = weston_drag_set_focus y i cl c"
  have a: "source_of c y = Some a" "ds_id a = y"
    using client_source_Some [OF assms(1)] data_source_Some by blast+
  have find: "find (\<lambda>a. ds_id a = y) (upd_where (\<lambda>a. ds_id a = y) f xs) = map_option f (find (\<lambda>a. ds_id a = y) xs)"
    if "\<And>x. ds_id (f x) = ds_id x" for f xs
    using that by (induction xs) simp_all
  have "source_of d y = Some (a\<lparr>ds_offer := Some (clip_next c)\<rparr>)" "offer_of d (clip_next c) = Some \<lparr>of_id = clip_next c, of_client = cl, of_source = Some y\<rparr>"
    "clip_out d = clip_out c"
    using assms a by (auto simp: d_def weston_drag_set_focus_def weston_data_source_send_offer_def Let_def find offer_of_def source_of_def upd_source_def split: option.split)
  then show ?thesis
    using assms(2) a(2) by (simp add: d_def [symmetric] data_offer_receive_def source_send_def)
qed

subsection \<open>Examples\<close>

text \<open>Two clients with a window each, one seat whose focus is with the second of them, and a shell.\<close>

definition demo_desk :: qdwin where
  "demo_desk = demo_bound\<lparr>toplevels := [demo_toplevel, demo_toplevel\<lparr>tl_handle := 2, tl_view := 11\<rparr>],
     view_surface := (\<lambda>v. v), surface_client := (\<lambda>_. None)(10 := Some 1, 11 := Some 2),
     seats := [\<lparr>seat_id = 5, seat_name = ''seat0'', seat_kbd = Some (demo_kb\<lparr>kb_focus := Some 11\<rparr>), seat_pointer = None\<rparr>],
     seat_trackers := [\<lparr>tr_seat = 5, tr_listener = None, tr_last_focused = 2, tr_silo = Some ''work'', tr_recover_idle = False\<rparr>]\<rparr>"

lemma demo_desk_facts:
  "tracked demo_desk" "(seat_of demo_desk 5 = None) = False" "(qdwin_seat_tracker_for_seat demo_desk 5 = None) = False" "name_of_seat demo_desk 5 = ''seat0''"
  "focus_client demo_desk 5 = Some 2" "qdwin_shell_can_receive 15 demo_desk" "shell_bound demo_desk" "shell_resource demo_desk = Some demo_shell"
  "qdwin_toplevel_for_client demo_desk (Some (Suc 0)) = Some demo_toplevel"
  "qdwin_toplevel_for_client demo_desk (Some 2) = Some (demo_toplevel\<lparr>tl_handle := 2, tl_view := 11\<rparr>)"
  "tl_handle demo_toplevel = 1" "locked demo_desk = False" "seat_by_name demo_desk ''seat0'' = Some 5" "focus_target demo_desk 1 = Some (Some 10)"
  "display_serial demo_desk = 1" "qdwin_seat_tracker_silo demo_desk 5 = ''work''"
  by (simp_all add: demo_desk_def demo_bound_def demo_state_def wet_shell_init_def tracked_def seat_of_def qdwin_seat_tracker_for_seat_def
      name_of_seat_def focus_client_def kbd_focus_def weston_seat_get_keyboard_def demo_kb_def qdwin_shell_can_receive_def demo_shell_def
      qdwin_toplevel_for_client_def demo_toplevel_def zero_toplevel_def seat_by_name_def focus_target_def qdwin_toplevel_from_handle_def
      qdwin_seat_tracker_silo_def UINT32_MAX_def)

lemmas clip_defs = create_data_source_def get_data_device_def data_device_set_selection_def weston_seat_set_selection_def
  put_selection_def selection_outdated_def emit_selection_signal_def clipboard_set_selection_def board_copy_def clipboard_source_unref_def
  clipboard_source_create_def source_send_def client_source_def upd_client_source_def data_source_offer_def
  wl_data_device_set_keyboard_focus_def weston_seat_send_selection_def send_selection_to_def weston_data_source_send_offer_def
  qdwin_on_seat_selection_changed_def qdwin_install_data_source_wrap_def source_of_def offer_of_def upd_source_def csend_def no_clip_def

definition demo_copy :: "clip_event list" where
  "demo_copy = [Cl_create_source 1, Cl_offer 0 ''text/plain'', Cl_get_device 5 2, Cl_set_selection (Some 7) 5 (Some 0) 5]"

definition demo_told :: "clip_effect list" where
  "demo_told = qdwin_emit_selection_set demo_desk 5 [''text/plain''] False (Some 1)"

lemma demo_told_flow: "is_flow x \<Longrightarrow> x \<notin> set demo_told"
  using told_calm by (auto simp: demo_told_def list_all_iff)

definition demo_copied :: clip where
  "demo_copied = \<lparr>wm = demo_desk, prim = no_primary,
      data_sources = [\<lparr>ds_id = 2, ds_client = None, ds_mimes = [''text/plain''], ds_shim = False, ds_offer = None, ds_actions_set = False, ds_dragged = False\<rparr>,
        \<lparr>ds_id = 0, ds_client = Some 1, ds_mimes = [''text/plain''], ds_shim = True, ds_offer = Some 1, ds_actions_set = False, ds_dragged = False\<rparr>],
      data_offers = [\<lparr>of_id = 1, of_client = 2, of_source = Some 0\<rparr>], data_devices = [(5, 2)],
      selection = (\<lambda>_. (None, 0))(5 := (Some 0, 5)), selectors = [5], boards = (\<lambda>_. None)(5 := Some (2, 5)), clip_pipes = [7], data_wraps = [\<lparr>wr_source = 0, wr_seat = 5\<rparr>],
      pendings = [], receive_next = 0, clip_next = 3, clip_ub = False, clip_out = Data_selection 2 (Some 1) # Data_send 0 ''text/plain'' 7 # demo_told\<rparr>"

lemma demo_copy_run: "clip_run demo_desk demo_copy = demo_copied"
  by (simp add: demo_desk_facts clip_run_def demo_copy_def demo_copied_def demo_told_def clip_defs Let_def List.insert_def) (simp add: numeral_2_eq_2)

definition demo_paste :: "clip_event list" where
  "demo_paste = [Cl_receive 1 ''text/plain'' 9, Cl_decision demo_shell 1 ''allow'']"

lemma demo_paste_run:
  "clip_out (clip_run demo_desk (demo_copy @ demo_paste)) =
     clip_out demo_copied @ [Told_receive 1 ''seat0'' 1 2 ''text/plain'', Data_send 0 ''text/plain'' 9]"
  by (simp add: clip_run_append demo_copy_run demo_paste_def demo_copied_def demo_desk_facts data_offer_receive_def source_send_def offer_of_def source_of_def
      qdwin_data_source_send_shim_def qdwin_data_source_wrap_find_def QDWIN_MIME_TYPE_MAX_def next_receive_handle_def
      qdwin_handle_data_offer_receive_decision_def qdwin_data_offer_pending_find_def settle_eq csend_def Let_def)

theorem clipboard_mediated_witness:
  "\<exists>n < length demo_paste. \<exists>r h p. demo_paste ! n = Cl_decision r h ''allow'' \<and>
     shell_bound (wm (clip_run demo_desk (demo_copy @ take n demo_paste))) \<and>
     shell_resource (wm (clip_run demo_desk (demo_copy @ take n demo_paste))) = Some r \<and>
     p \<in> set (pendings (clip_run demo_desk (demo_copy @ take n demo_paste))) \<and>
     pd_handle p = h \<and> pd_source p = 0 \<and> pd_mime p = ''text/plain'' \<and> pd_fd p = 9"
proof (rule clipboard_mediated)
  show "tracked demo_desk"
    by (rule demo_desk_facts)
  show "fst (selection (clip_run demo_desk demo_copy) 5) = Some 0"
    by (simp add: demo_copy_run demo_copied_def)
  show "Data_send 0 ''text/plain'' 9 \<in> set (clip_out (clip_run demo_desk (demo_copy @ demo_paste)))"
    by (simp add: demo_paste_run)
  show "Data_send 0 ''text/plain'' 9 \<notin> set (clip_out (clip_run demo_desk demo_copy))"
    using demo_told_flow [of "Data_send 0 ''text/plain'' 9"] by (simp add: demo_copy_run demo_copied_def)
qed

theorem paste_descriptors_balanced_witness:
  "spent (clip_run demo_desk (demo_copy @ demo_paste)) + held (clip_run demo_desk (demo_copy @ demo_paste)) =
     {#9#} + mset (clip_pipes (clip_run demo_desk (demo_copy @ demo_paste)))"
  using paste_descriptors_balanced [OF demo_desk_facts(1), of "demo_copy @ demo_paste"] by (simp add: demo_copy_def demo_paste_def)

definition demo_unplug :: "clip_event list" where
  "demo_unplug = demo_copy @ [Cl_wm (demo_desk\<lparr>seats := []\<rparr>), Cl_source_destroyed 0]"

lemma demo_unplug_ub: "clip_ub (clip_run demo_desk demo_unplug)"
  by (simp add: demo_unplug_def clip_run_append demo_copy_run demo_copied_def cl_wm_def tracked_def Let_def destroy_data_source_def
      client_source_def source_of_def detach_source_def qdwin_data_source_wrap_on_source_destroy_def destroy_selection_data_source_def
      discard_source_def seat_of_def)


theorem silo_switch_clipboard_witness:
  "fst (selection (qdwin_handle_set_keyboard_focus_v2 demo_shell ''seat0'' 1 ''home'' demo_copied) 5) = Some 0 \<and>
   fst (selection (qdwin_handle_set_keyboard_focus_v2 demo_shell ''seat0'' 1 ''home''
     (demo_copied\<lparr>selection := (\<lambda>_. (Some 0, 1))\<rparr>)) 5) = Some 2"
proof
  have s: "\<not> same_silo_move demo_desk 5 1 ''home''"
    by (simp add: same_silo_move_def demo_desk_facts)
  have "fst (selection (qdwin_handle_set_keyboard_focus_v2 demo_shell ''seat0'' 1 ''home'' c) 5) =
      (if snd (selection c 5) - (display_serial (wm c) + 1) < UINT32_MAX div 2 \<and> fst (selection c 5) \<noteq> None
       then fst (selection c 5) else map_option fst (boards c 5))" if "wm c = demo_desk" for c
    by (rule silo_switch_clipboard) (simp_all add: that demo_desk_facts s)
  from this [of demo_copied] this [of "demo_copied\<lparr>selection := (\<lambda>_. (Some 0, 1))\<rparr>"]
  show "fst (selection (qdwin_handle_set_keyboard_focus_v2 demo_shell ''seat0'' 1 ''home'' demo_copied) 5) = Some 0"
    "fst (selection (qdwin_handle_set_keyboard_focus_v2 demo_shell ''seat0'' 1 ''home''
       (demo_copied\<lparr>selection := (\<lambda>_. (Some 0, 1))\<rparr>)) 5) = Some 2"
    by (simp_all add: demo_copied_def demo_desk_facts UINT32_MAX_def)
qed

theorem drag_bypasses_shell_witness:
  "clip_out (fold clip_step [Cl_drag_enter 0 5 2, Cl_receive 1 ''text/plain'' 9]
     (clip_run demo_desk [Cl_create_source 1, Cl_get_device 5 2])) = [Data_send 0 ''text/plain'' 9]"
proof -
  let ?c = "clip_run demo_desk [Cl_create_source 1, Cl_get_device 5 2]"
  have c: "clip_next ?c = 1" "clip_out ?c = []" "(5, 2) \<in> set (data_devices ?c)"
    and y: "client_source ?c 0 = Some \<lparr>ds_id = 0, ds_client = Some 1, ds_mimes = [], ds_shim = False, ds_offer = None, ds_actions_set = False, ds_dragged = False\<rparr>"
    by (simp_all add: clip_run_def clip_defs demo_desk_facts)
  show ?thesis
    using drag_bypasses_shell [OF y _ c(3), of "''text/plain''" 9] c(1,2) by simp
qed

end
